(* ===== verification/Grape_Prelude.thy ===== *)
theory Grape_Prelude
  imports Main "HOL-Library.Word" "HOL-Library.Char_ord" "HOL-Library.List_Lexorder"
begin

text \<open>
  Shared vocabulary of the development: the value types of the Go sources, the parts of Go's
  standard library the components use (\<^verbatim>\<open>math/big\<close> byte conversions, \<^verbatim>\<open>strings\<close> prefixes,
  slice searches, stable sorting, map iteration), the theorem collections the component
  theories extend, and generic lemmas on lists and maps.

  Conventions used by every component theory:
  \<^item> a Go struct is a record, a Go map is a partial function, a slice is a list, \<^verbatim>\<open>nil\<close> results are
    \<open>None\<close>;
  \<^item> a Go function that returns an error next to mutating its receiver returns the pair of the
    optional error and the new state;
  \<^item> a \<^verbatim>\<open>panic\<close> is the left injection of a result sum;
  \<^item> \<^verbatim>\<open>*big.Int\<close> values are \<open>int\<close>; fixed-width counters are \<open>word\<close>s where they wrap.
\<close>

section \<open>Theorem collections\<close>

named_theorems go_defs \<open>definitions of small accessors that proofs unfold together\<close>
named_theorems inv_intros \<open>one preservation fact per operation of a component\<close>
named_theorems map_iter \<open>facts on iterating over maps in an arbitrary order\<close>

section \<open>Types\<close>

type_synonym byte = "8 word"
type_synonym bytes = "byte list"
type_synonym uuid = "128 word"

abbreviation uuid_Nil :: uuid where
  "uuid_Nil \<equiv> 0"

section \<open>Byte conversions of \<^verbatim>\<open>math/big\<close>\<close>

text \<open>
  \<^verbatim>\<open>SetBytes\<close> reads a big-endian unsigned number; \<^verbatim>\<open>Bytes\<close> writes the absolute value of a
  number as a big-endian byte slice without leading zeros.
\<close>

definition SetBytes :: "bytes \<Rightarrow> int" where
  "SetBytes bs = foldl (\<lambda>acc b. acc * 256 + uint b) 0 bs"

fun nat_bytes :: "nat \<Rightarrow> bytes" where
  "nat_bytes n = (if n = 0 then [] else nat_bytes (n div 256) @ [word_of_nat (n mod 256)])"

declare nat_bytes.simps [simp del]

definition Bytes :: "int \<Rightarrow> bytes" where
  "Bytes i = nat_bytes (nat \<bar>i\<bar>)"

lemma SetBytes_Nil [simp]: "SetBytes [] = 0"
  by (simp add: SetBytes_def)

lemma SetBytes_snoc [simp]: "SetBytes (bs @ [b]) = SetBytes bs * 256 + uint b"
  by (simp add: SetBytes_def)

lemma SetBytes_nonneg [simp]: "0 \<le> SetBytes bs"
  by (induction bs rule: rev_induct) auto

lemma uint_byte_of_mod: "uint (word_of_nat (n mod 256) :: byte) = int (n mod 256)"
  by (simp add: uint_nat unat_of_nat)

lemma SetBytes_nat_bytes: "SetBytes (nat_bytes n) = int n"
proof (induction n rule: nat_bytes.induct)
  case (1 n)
  show ?case
  proof (cases "n = 0")
    case True
    then show ?thesis by (simp add: nat_bytes.simps)
  next
    case False
    have "SetBytes (nat_bytes n) = SetBytes (nat_bytes (n div 256)) * 256 + int (n mod 256)"
      using False by (simp add: nat_bytes.simps [of n] uint_byte_of_mod del: of_nat_mod)
    also have "\<dots> = int (n div 256 * 256 + n mod 256)"
      using 1 [OF False] by (simp only: of_nat_add of_nat_mult of_nat_numeral)
    finally show ?thesis by (simp only: div_mult_mod_eq)
  qed
qed

lemma SetBytes_Bytes: "SetBytes (Bytes i) = \<bar>i\<bar>"
  by (simp add: Bytes_def SetBytes_nat_bytes)

lemma SetBytes_Bytes_nonneg [simp]: "0 \<le> i \<Longrightarrow> SetBytes (Bytes i) = i"
  by (simp add: SetBytes_Bytes)

lemma SetBytes_Cons: "SetBytes (b # bs) = uint b * 256 ^ length bs + SetBytes bs"
  by (induction bs rule: rev_induct) (simp_all add: SetBytes_def algebra_simps)

lemma SetBytes_zeros [simp]: "SetBytes (replicate n 0 @ bs) = SetBytes bs"
  by (induction n) (simp_all add: SetBytes_Cons)

lemma SetBytes_less: "SetBytes bs < 256 ^ length bs"
proof (induction bs rule: rev_induct)
  case Nil
  then show ?case by simp
next
  case (snoc b bs)
  have "uint b < 256" using uint_lt2p [of b] by simp
  with snoc show ?case by simp
qed

text \<open>\<^verbatim>\<open>id[:]\<close> on a \<^verbatim>\<open>uuid.UUID\<close>, an array of 16 bytes.\<close>

definition uuid_slice :: "uuid \<Rightarrow> bytes" where
  "uuid_slice u = (let b = Bytes (uint u) in replicate (16 - length b) 0 @ b)"

lemma length_nat_bytes: "n < 256 ^ k \<Longrightarrow> length (nat_bytes n) \<le> k"
proof (induction k arbitrary: n)
  case 0
  then show ?case by (simp add: nat_bytes.simps)
next
  case (Suc k)
  then have "n div 256 < 256 ^ k" by (simp add: less_mult_imp_div_less mult.commute)
  with Suc.IH have "length (nat_bytes (n div 256)) \<le> k" by blast
  then show ?case by (subst nat_bytes.simps) simp
qed

lemma length_uuid_slice [simp]: "length (uuid_slice u) = 16"
proof -
  have "unat u < 2 ^ 128" using unsigned_less [of u, where ?'a = nat] by simp
  then have "nat \<bar>uint u\<bar> < 256 ^ 16" by simp
  then have "length (Bytes (uint u)) \<le> 16" unfolding Bytes_def by (rule length_nat_bytes)
  then show ?thesis by (simp add: uuid_slice_def Let_def)
qed

lemma SetBytes_uuid_slice: "SetBytes (uuid_slice u) = uint u"
  by (simp add: uuid_slice_def Let_def)

lemma uuid_slice_inject [simp]: "uuid_slice u = uuid_slice v \<longleftrightarrow> u = v"
  by (metis SetBytes_uuid_slice word_uint_eqI)

section \<open>Slices\<close>

text \<open>The iteration helpers: first match with its index, and the last element of a slice.\<close>

fun goFind :: "('a \<Rightarrow> bool) \<Rightarrow> 'a list \<Rightarrow> ('a \<times> nat) option" where
  "goFind p [] = None"
| "goFind p (x # xs) =
     (if p x then Some (x, 0) else map_option (\<lambda>(y, i). (y, Suc i)) (goFind p xs))"

lemma goFind_None_iff: "goFind p xs = None \<longleftrightarrow> (\<forall>x \<in> set xs. \<not> p x)"
  by (induction xs) auto

lemma goFind_SomeD:
  assumes "goFind p xs = Some (x, i)"
  shows "i < length xs" and "xs ! i = x" and "p x" and "\<forall>j < i. \<not> p (xs ! j)"
proof -
  have "i < length xs \<and> xs ! i = x \<and> p x \<and> (\<forall>j < i. \<not> p (xs ! j))"
    using assms
  proof (induction xs arbitrary: x i)
    case Nil
    then show ?case by simp
  next
    case (Cons y ys)
    show ?case
    proof (cases "p y")
      case True
      with Cons.prems show ?thesis by auto
    next
      case False
      with Cons.prems obtain k where k: "goFind p ys = Some (x, k)" and i: "i = Suc k"
        by (auto split: prod.splits)
      from Cons.IH [OF k] i False show ?thesis
        by (auto simp: nth_Cons split: nat.splits)
    qed
  qed
  then show "i < length xs" and "xs ! i = x" and "p x" and "\<forall>j < i. \<not> p (xs ! j)"
    by blast+
qed

definition last_opt :: "'a list \<Rightarrow> 'a option" where
  "last_opt xs = (if xs = [] then None else Some (last xs))"

lemma last_opt_simps [simp]:
  "last_opt [] = None" "last_opt (xs @ [x]) = Some x"
  by (simp_all add: last_opt_def)

lemma last_opt_None_iff [simp]: "last_opt xs = None \<longleftrightarrow> xs = []"
  by (simp add: last_opt_def)

section \<open>Iteration over maps\<close>

text \<open>
  Go leaves the order of \<^verbatim>\<open>range\<close> over a map unspecified (and the set type iterates over such a
  map). Every definition whose source ranges over a map takes the visiting order as an argument:
  a function from the set of keys to the list of keys in the order of the visit. The only thing
  the code may rely on is that a finite key set is visited completely and without repetition.
\<close>

type_synonym 'k visit_order = "'k set \<Rightarrow> 'k list"

definition range_order :: "'k visit_order \<Rightarrow> bool" where
  "range_order ord \<longleftrightarrow> (\<forall>S. finite S \<longrightarrow> set (ord S) = S \<and> distinct (ord S))"

lemma range_order_set [map_iter]: "range_order ord \<Longrightarrow> finite S \<Longrightarrow> set (ord S) = S"
  by (simp add: range_order_def)

lemma range_order_distinct [map_iter]: "range_order ord \<Longrightarrow> finite S \<Longrightarrow> distinct (ord S)"
  by (simp add: range_order_def)

lemma range_order_sorted: "range_order (sorted_list_of_set :: 'k :: linorder visit_order)"
  by (simp add: range_order_def)

section \<open>Machine words\<close>

lemma word_less_succ:
  fixes x :: "'a :: len word"
  assumes "x \<noteq> - 1"
  shows "x < x + 1"
proof -
  from assms have "1 + x \<noteq> 0" by (metis add.commute eq_neg_iff_add_eq_0)
  then have "unat (1 + x) = Suc (unat x)" by (rule unatSuc)
  then show ?thesis by (simp add: word_less_nat_alt add.commute)
qed

section \<open>Strings\<close>

definition TrimPrefix :: "string \<Rightarrow> string \<Rightarrow> string" where
  "TrimPrefix s p = (if take (length p) s = p then drop (length p) s else s)"

definition HasPrefix :: "string \<Rightarrow> string \<Rightarrow> bool" where
  "HasPrefix s p \<longleftrightarrow> take (length p) s = p"

lemma TrimPrefix_append [simp]: "TrimPrefix (p @ s) p = s"
  by (simp add: TrimPrefix_def)

section \<open>Decimal strings\<close>

text \<open>
  \<^verbatim>\<open>big.Int.String\<close> and \<^verbatim>\<open>strconv.FormatInt\<close> in base 10, and \<^verbatim>\<open>big.Int.SetString\<close>, which accepts an
  optional sign and at least one digit.
\<close>

definition decDigit :: "nat \<Rightarrow> char" where
  "decDigit n = char_of (48 + n)"

definition decValue :: "char \<Rightarrow> nat option" where
  "decValue c = (let n = of_char c :: nat in if 48 \<le> n \<and> n \<le> 57 then Some (n - 48) else None)"

fun natString :: "nat \<Rightarrow> string" where
  "natString n = (if n < 10 then [decDigit n] else natString (n div 10) @ [decDigit (n mod 10)])"

declare natString.simps [simp del]

definition intString :: "int \<Rightarrow> string" where
  "intString i = (if i < 0 then CHR ''-'' # natString (nat (- i)) else natString (nat i))"

fun parseDigits :: "nat \<Rightarrow> string \<Rightarrow> nat option" where
  "parseDigits acc [] = Some acc"
| "parseDigits acc (c # cs) =
     (case decValue c of None \<Rightarrow> None | Some d \<Rightarrow> parseDigits (acc * 10 + d) cs)"

definition parseNat :: "string \<Rightarrow> nat option" where
  "parseNat s = (if s = [] then None else parseDigits 0 s)"

definition parseInt :: "string \<Rightarrow> int option" where
  "parseInt s =
     (case s of
        [] \<Rightarrow> None
      | c # cs \<Rightarrow>
          if c = CHR ''-'' then map_option (\<lambda>n. - int n) (parseNat cs)
          else if c = CHR ''+'' then map_option int (parseNat cs)
          else map_option int (parseNat s))"

lemma decValue_decDigit [simp]: "n < 10 \<Longrightarrow> decValue (decDigit n) = Some n"
  by (simp add: decValue_def decDigit_def)

lemma parseDigits_append:
  "parseDigits acc (xs @ ys) = Option.bind (parseDigits acc xs) (\<lambda>a. parseDigits a ys)"
  by (induction acc xs rule: parseDigits.induct) (auto split: option.splits)

lemma parseDigits_natString: "parseDigits 0 (natString n) = Some n"
proof (induction n rule: natString.induct)
  case (1 n)
  show ?case
    using 1 by (cases "n < 10") (simp_all add: natString.simps [of n] parseDigits_append)
qed

lemma natString_digits: "c \<in> set (natString n) \<Longrightarrow> decValue c \<noteq> None"
proof (induction n rule: natString.induct)
  case (1 n)
  then show ?case by (cases "n < 10") (auto simp: natString.simps [of n])
qed

lemma natString_neq_Nil [simp]: "natString n \<noteq> []"
  by (simp add: natString.simps [of n])

lemma parseInt_intString [simp]: "parseInt (intString i) = Some i"
proof (cases "i < 0")
  case True
  then show ?thesis by (simp add: intString_def parseInt_def parseNat_def parseDigits_natString)
next
  case False
  obtain c cs where c: "natString (nat i) = c # cs" by (cases "natString (nat i)") auto
  then have "decValue c \<noteq> None" by (intro natString_digits [of c "nat i"]) simp
  then have "c \<noteq> CHR ''-''" "c \<noteq> CHR ''+''" by (auto simp: decValue_def)
  with False c parseDigits_natString [of "nat i"] show ?thesis
    by (simp add: intString_def parseInt_def parseNat_def)
qed

lemma intString_neq_Nil [simp]: "intString i \<noteq> []"
  by (simp add: intString_def)

section \<open>Updating maps\<close>

lemma dom_fun_upd_None [simp]: "dom (m(k := None)) = dom m - {k}"
  by (auto simp: dom_def)

lemma fold_upd_apply:
  "fold (\<lambda>k m. m(k := f k)) ks m x = (if x \<in> set ks then f x else m x)"
  by (induction ks arbitrary: m) auto

end
