(* ===== verification/Hex_Address.thy ===== *)
theory Hex_Address
  imports Grape_Prelude
begin

text \<open>
  Hexadecimal strings and wallet addresses: \<^verbatim>\<open>src/crypto/wallet.go\<close> (address conversions),
  \<^verbatim>\<open>src/types/hex.go\<close>, \<^verbatim>\<open>src/crypto/eth/address.go\<close> and \<^verbatim>\<open>ValidateAddress\<close> of
  \<^verbatim>\<open>src/wallet/wallet.go\<close>, on top of \<^verbatim>\<open>encoding/hex\<close> of Go's standard library. A panic of the
  source is \<open>Inl\<close> of a reason.
\<close>

section \<open>The standard library's \<^verbatim>\<open>encoding/hex\<close>\<close>

definition hexDigit :: "nat \<Rightarrow> char" where
  "hexDigit n = ''0123456789abcdef'' ! n"

fun hexEncode :: "bytes \<Rightarrow> string" where
  "hexEncode [] = []"
| "hexEncode (b # bs) = hexDigit (unat b div 16) # hexDigit (unat b mod 16) # hexEncode bs"

definition fromHexChar :: "char \<Rightarrow> nat option" where
  "fromHexChar c =
     (let n = of_char c :: nat in
      if 48 \<le> n \<and> n \<le> 57 then Some (n - 48)
      else if 97 \<le> n \<and> n \<le> 102 then Some (n - 97 + 10)
      else if 65 \<le> n \<and> n \<le> 70 then Some (n - 65 + 10)
      else None)"

datatype hex_error = InvalidByteError char | ErrLength

text \<open>
  \<^verbatim>\<open>hex.DecodeString\<close> returns the bytes decoded before the first fault together with the fault; an
  odd last character is checked for validity before the length is reported.
\<close>

fun hexDecode :: "string \<Rightarrow> bytes \<times> hex_error option" where
  "hexDecode [] = ([], None)"
| "hexDecode [c] =
     ([], Some (case fromHexChar c of None \<Rightarrow> InvalidByteError c | Some _ \<Rightarrow> ErrLength))"
| "hexDecode (p # q # rest) =
     (case fromHexChar p of
        None \<Rightarrow> ([], Some (InvalidByteError p))
      | Some a \<Rightarrow>
          (case fromHexChar q of
             None \<Rightarrow> ([], Some (InvalidByteError q))
           | Some b \<Rightarrow>
               (let (bs, e) = hexDecode rest in (word_of_nat (a * 16 + b) # bs, e))))"

section \<open>Addresses\<close>

datatype addr_panic = HexPanic hex_error | WrongLength nat

definition AddressToBytes :: "string \<Rightarrow> addr_panic + bytes" where
  "AddressToBytes address =
     (let a = TrimPrefix address ''0x'' in
      if length a = 0 then Inr (replicate 20 0)
      else (case hexDecode a of (bs, None) \<Rightarrow> Inr bs | (_, Some e) \<Rightarrow> Inl (HexPanic e)))"

definition HexToBytes :: "string \<Rightarrow> addr_panic + bytes" where
  "HexToBytes h =
     (let th = TrimPrefix h ''0x'' in
      if length th = 0 then Inr []
      else
        let th' = (if length th mod 2 \<noteq> 0 then CHR ''0'' # th else th) in
        (case hexDecode th' of (bs, None) \<Rightarrow> Inr bs | (_, Some e) \<Rightarrow> Inl (HexPanic e)))"

text \<open>\<^verbatim>\<open>HexToBytesNil\<close> differs in returning a nil slice, here \<open>None\<close>, for an empty string.\<close>

definition HexToBytesNil :: "string \<Rightarrow> addr_panic + bytes option" where
  "HexToBytesNil h =
     (let th = TrimPrefix h ''0x'' in
      if length th = 0 then Inr None
      else
        let th' = (if length th mod 2 \<noteq> 0 then CHR ''0'' # th else th) in
        (case hexDecode th' of (bs, None) \<Rightarrow> Inr (Some bs) | (_, Some e) \<Rightarrow> Inl (HexPanic e)))"

definition BytesToAddress :: "bytes \<Rightarrow> addr_panic + string" where
  "BytesToAddress address =
     (if length address \<noteq> 20 then Inl (WrongLength (length address))
      else Inr (''0x'' @ hexEncode address))"

definition ZeroBytesToAddress :: "bytes \<Rightarrow> addr_panic + string" where
  "ZeroBytesToAddress address = (if length address = 0 then Inr ''0x'' else BytesToAddress address)"

text \<open>\<^verbatim>\<open>length\<close> is a Go \<^verbatim>\<open>int\<close>: a negative one runs the loop not at all.\<close>

definition ZeroHex :: "int \<Rightarrow> string" where
  "ZeroHex length_arg = ''0x'' @ concat (replicate (nat length_arg) ''00'')"

definition LeftPadTo :: "int \<Rightarrow> bytes \<Rightarrow> bytes" where
  "LeftPadTo length_arg arr =
     (if int (length arr) \<ge> length_arg then arr
      else replicate (nat (length_arg - int (length arr))) 0 @ arr)"

text \<open>
  The Keccak hasher of \<^verbatim>\<open>src/crypto/hash.go\<close>: the third-party digest function is a parameter, the
  state is what has been written so far. \<^verbatim>\<open>Digest\<close> does not look at its argument.
\<close>

type_synonym Hasher = bytes

definition NewSHA3Hasher :: Hasher where
  "NewSHA3Hasher = []"

definition keccak256Hasher_Add :: "bytes \<Rightarrow> Hasher \<Rightarrow> Hasher" where
  "keccak256Hasher_Add data h = h @ data"

definition keccak256Hasher_Digest :: "(bytes \<Rightarrow> bytes) \<Rightarrow> bytes \<Rightarrow> Hasher \<Rightarrow> bytes" where
  "keccak256Hasher_Digest keccak256 data h = keccak256 h"

text \<open>\<^verbatim>\<open>AddressFromPulicKey\<close>: slicing a digest shorter than 12 bytes panics.\<close>

definition AddressFromPulicKey :: "(bytes \<Rightarrow> bytes) \<Rightarrow> bytes \<Rightarrow> addr_panic + string" where
  "AddressFromPulicKey keccak256 pubKey =
     (let h = keccak256Hasher_Add pubKey NewSHA3Hasher;
          digest = keccak256Hasher_Digest keccak256 [] h in
      if length digest < 12 then Inl (WrongLength (length digest))
      else Inr (''0x'' @ hexEncode (drop 12 digest)))"

section \<open>\<^verbatim>\<open>types.Hex\<close>\<close>

text \<open>A \<^verbatim>\<open>Hex\<close> is a byte slice that may be nil; nil and the empty slice print alike.\<close>

definition Hex_String :: "bytes option \<Rightarrow> string" where
  "Hex_String h = (case h of None \<Rightarrow> ''0x'' | Some bs \<Rightarrow> ''0x'' @ hexEncode bs)"

text \<open>\<^verbatim>\<open>strings.Compare\<close>: byte-wise lexicographic comparison, as \<open>-1\<close>, \<open>0\<close> or \<open>1\<close>.\<close>

fun strCompare :: "string \<Rightarrow> string \<Rightarrow> int" where
  "strCompare [] [] = 0"
| "strCompare [] (_ # _) = - 1"
| "strCompare (_ # _) [] = 1"
| "strCompare (a # as) (b # bs) =
     (if (of_char a :: nat) < of_char b then - 1
      else if (of_char b :: nat) < of_char a then 1
      else strCompare as bs)"

definition Hex_Cmp :: "bytes option \<Rightarrow> bytes option \<Rightarrow> int" where
  "Hex_Cmp h another = strCompare (Hex_String h) (Hex_String another)"

definition Hex_Equal :: "bytes option \<Rightarrow> bytes option \<Rightarrow> bool" where
  "Hex_Equal h another \<longleftrightarrow> Hex_Cmp h another = 0"

definition Hex_Empty :: "bytes option \<Rightarrow> bool" where
  "Hex_Empty h \<longleftrightarrow> (case h of None \<Rightarrow> True | Some bs \<Rightarrow> length bs = 0)"

definition DecodeHexString :: "string \<Rightarrow> bytes \<times> hex_error option" where
  "DecodeHexString hexString = hexDecode (TrimPrefix hexString ''0x'')"

section \<open>Ethereum addresses\<close>

datatype eth_error = EthHex hex_error | EthLength nat

definition ParseEthAddress :: "string \<Rightarrow> eth_error + bytes" where
  "ParseEthAddress addressString =
     (let (bs, e) = hexDecode (TrimPrefix addressString ''0x'') in
      case e of
        Some err \<Rightarrow> Inl (EthHex err)
      | None \<Rightarrow> if length bs \<noteq> 20 then Inl (EthLength (length bs)) else Inr bs)"

definition EthAddress_Hex :: "bytes \<Rightarrow> string" where
  "EthAddress_Hex a = ''0x'' @ hexEncode a"

text \<open>\<^verbatim>\<open>leftPad32\<close> copies the input to the end of a zeroed 32-byte array, index by index.\<close>

fun leftPad32_loop :: "nat \<Rightarrow> bytes \<Rightarrow> bytes \<Rightarrow> bytes" where
  "leftPad32_loop i [] res = res"
| "leftPad32_loop i (b # bs) res = leftPad32_loop (Suc i) bs (res[i := b])"

definition leftPad32 :: "bytes \<Rightarrow> bytes option" where
  "leftPad32 bs =
     (if length bs > 32 then None
      else Some (leftPad32_loop (32 - length bs) bs (replicate 32 0)))"

text \<open>
  \<^verbatim>\<open>ValidateAddress\<close> matches the expression \<^verbatim>\<open>((0x){1}([a-f0-9]){40})\<close>, which is not anchored: it asks
  for an occurrence anywhere in the string.
\<close>

definition lowerHexChar :: "char \<Rightarrow> bool" where
  "lowerHexChar c =
     (let n = of_char c :: nat in (97 \<le> n \<and> n \<le> 102) \<or> (48 \<le> n \<and> n \<le> 57))"

definition addressAt :: "string \<Rightarrow> bool" where
  "addressAt s \<longleftrightarrow>
     take 2 s = ''0x'' \<and> length (take 40 (drop 2 s)) = 40 \<and>
     list_all lowerHexChar (take 40 (drop 2 s))"

fun ValidateAddress :: "string \<Rightarrow> bool" where
  "ValidateAddress [] = addressAt []"
| "ValidateAddress (c # cs) = (addressAt (c # cs) \<or> ValidateAddress cs)"

section \<open>Lemmas\<close>

lemma nibbles_byte: "(unat (b :: byte)) div 16 < 16" "(unat (b :: byte)) mod 16 < 16"
proof -
  have "unat b < 256" using unsigned_less [of b, where ?'a = nat] by simp
  then show "unat b div 16 < 16" by simp
  show "unat b mod 16 < 16" by simp
qed

lemma all_less_16: "(\<forall>n < 16. P n) \<longleftrightarrow> (\<forall>n \<in> {0, 1, 2, 3, 4, 5, 6, 7, 8, 9, 10, 11, 12, 13, 14, 15 :: nat}. P n)"
proof -
  have "{..< 16 :: nat} = {0, 1, 2, 3, 4, 5, 6, 7, 8, 9, 10, 11, 12, 13, 14, 15}" by (auto, presburger)
  then show ?thesis by (metis lessThan_iff)
qed

lemma fromHexChar_hexDigit [simp]: "n < 16 \<Longrightarrow> fromHexChar (hexDigit n) = Some n"
proof -
  have "\<forall>n < 16. fromHexChar (hexDigit n) = Some n"
    unfolding all_less_16 by (simp add: fromHexChar_def hexDigit_def)
  then show "n < 16 \<Longrightarrow> fromHexChar (hexDigit n) = Some n" by blast
qed

lemma lowerHexChar_hexDigit [simp]: "n < 16 \<Longrightarrow> lowerHexChar (hexDigit n)"
proof -
  have "\<forall>n < 16. lowerHexChar (hexDigit n)"
    unfolding all_less_16 by (simp add: lowerHexChar_def hexDigit_def)
  then show "n < 16 \<Longrightarrow> lowerHexChar (hexDigit n)" by blast
qed

lemma hexDecode_hexEncode [simp]: "hexDecode (hexEncode bs) = (bs, None)"
proof (induction bs)
  case Nil
  then show ?case by simp
next
  case (Cons b bs)
  have "unat b div 16 * 16 + unat b mod 16 = unat b" by simp
  with Cons show ?case by (simp add: nibbles_byte)
qed

lemma length_hexEncode [simp]: "length (hexEncode bs) = 2 * length bs"
  by (induction bs) auto

lemma hexEncode_inject [simp]: "hexEncode as = hexEncode bs \<longleftrightarrow> as = bs"
  by (metis hexDecode_hexEncode fst_conv)

lemma hexEncode_lower: "list_all lowerHexChar (hexEncode bs)"
  by (induction bs) (auto simp: nibbles_byte)

lemma strCompare_0_iff: "strCompare as bs = 0 \<longleftrightarrow> as = bs"
  by (induction as bs rule: strCompare.induct) auto

lemma leftPad32_loop_eq:
  "i + length bs = length res \<Longrightarrow> leftPad32_loop i bs res = take i res @ bs"
proof (induction bs arbitrary: i res)
  case Nil
  then show ?case by simp
next
  case (Cons b bs)
  then have "leftPad32_loop (Suc i) bs (res[i := b]) = take (Suc i) (res[i := b]) @ bs"
    by (intro Cons.IH) simp
  also have "take (Suc i) (res[i := b]) = take i res @ [b]"
    using Cons.prems by (simp add: take_Suc_conv_app_nth)
  finally show ?case by simp
qed

lemma ValidateAddress_suffix: "ValidateAddress s \<Longrightarrow> ValidateAddress (p @ s)"
  by (induction p) auto

lemma ValidateAddress_at: "addressAt s \<Longrightarrow> ValidateAddress s"
  by (cases s) auto

lemma BytesToAddress_Inr [simp]: "length b = 20 \<Longrightarrow> BytesToAddress b = Inr (''0x'' @ hexEncode b)"
  by (simp add: BytesToAddress_def)

section \<open>Properties\<close>

text \<open>
  Addresses round-trip. Whenever \<^verbatim>\<open>BytesToAddress\<close> accepts a byte slice, the address it prints is
  read back as the same bytes by \<^verbatim>\<open>AddressToBytes\<close> and by \<^verbatim>\<open>ParseEthAddress\<close>, and it is accepted by
  the wallet's \<^verbatim>\<open>ValidateAddress\<close>.
\<close>
lemma address_roundtrip:
  assumes "BytesToAddress b = Inr a"
  shows "AddressToBytes a = Inr b \<and> ParseEthAddress a = Inr b \<and> ValidateAddress a"
proof -
  from assms have len: "length b = 20" and a: "a = ''0x'' @ hexEncode b"
    by (auto simp: BytesToAddress_def split: if_splits)
  have at: "addressAt a"
    using len hexEncode_lower [of b] by (simp add: a addressAt_def)
  from len have "hexEncode b \<noteq> []" by (cases b) auto
  then have "AddressToBytes a = Inr b"
    by (simp add: AddressToBytes_def a Let_def TrimPrefix_def)
  moreover have "ParseEthAddress a = Inr b"
    using len by (simp add: ParseEthAddress_def a TrimPrefix_def)
  ultimately show ?thesis using at by (simp add: ValidateAddress_at)
qed

end
