(* ===== verification/Transactions.thy ===== *)
theory Transactions
  imports Hex_Address
begin

text \<open>
  Transactions: \<^verbatim>\<open>src/tx/txvX.go\<close>, \<^verbatim>\<open>src/tx/wrappers.go\<close>, \<^verbatim>\<open>src/tx/types.go\<close>, the signing wrapper
  of \<^verbatim>\<open>src/crypto/dsa.go\<close> and the request type of \<^verbatim>\<open>src/wallet/wallet.go\<close>.

  The protobuf, RLP, uuid and signature packages are third-party code. Their functions are the
  fields of the record \<open>ext\<close>, which every definition that calls them takes as its first argument;
  \<open>ext_ok\<close> names what their documentation promises. \<open>None\<close> as the result of an operation is a
  panic unless stated otherwise. Instants of \<^verbatim>\<open>time.Time\<close> are nanoseconds since the epoch.
\<close>

section \<open>Enumerations\<close>

text \<open>Both are \<^verbatim>\<open>uint8\<close> in Go, so values outside the named constants exist.\<close>

type_synonym TransactionType = "8 word"
type_synonym ChainType = "8 word"
type_synonym time = int
type_synonym pb_timestamp = "int \<times> int"

abbreviation (input) PAYMENT :: TransactionType where "PAYMENT \<equiv> 0"
abbreviation (input) PUBLISH_CONTRACT :: TransactionType where "PUBLISH_CONTRACT \<equiv> 1"
abbreviation (input) CALL_CONTRACT :: TransactionType where "CALL_CONTRACT \<equiv> 2"
abbreviation (input) SERVICE_GENESIS :: TransactionType where "SERVICE_GENESIS \<equiv> 3"
abbreviation (input) SERVICE :: TransactionType where "SERVICE \<equiv> 4"
abbreviation (input) SERVICE_PIN :: TransactionType where "SERVICE_PIN \<equiv> 5"

abbreviation (input) MAINNET :: ChainType where "MAINNET \<equiv> 0"
abbreviation (input) PUBLIC_TESTNET :: ChainType where "PUBLIC_TESTNET \<equiv> 1"
abbreviation (input) PRIVATE_TESTNET :: ChainType where "PRIVATE_TESTNET \<equiv> 2"

definition TransactionType_Name :: "TransactionType \<Rightarrow> string option" where
  "TransactionType_Name t =
     (let names = [''PAYMENT'', ''PUBLISH_CONTRACT'', ''CALL_CONTRACT'', ''SERVICE_GENESIS'',
                   ''SERVICE'', ''SERVICE_PIN''] in
      if unat t < length names then Some (names ! unat t) else None)"

section \<open>Transaction records\<close>

record Txv1 =
  Tx_Type :: TransactionType
  Chain_Type :: ChainType
  Sender_Pubk :: bytes
  Sender :: bytes
  Recepient :: bytes
  Amount :: bytes
  Nonce :: "64 word"
  Timestamp :: time
  Fuel_Limit :: bytes
  Fuel_Price :: bytes
  Data :: "bytes option"
  Signature :: bytes

text \<open>The protobuf message; enumerations are 32 bits wide there, absent fields are \<open>None\<close>.\<close>

record pb_Txv1 =
  pbTxType :: "32 word"
  pbChainType :: "32 word"
  pbSenderPubk :: bytes
  pbSender :: bytes
  pbRecepient :: bytes
  pbAmount :: bytes
  pbNonce :: "64 word"
  pbTimestamp :: pb_timestamp
  pbFuelLimit :: bytes
  pbFuelPrice :: bytes
  pbData :: "bytes option"
  pbSignature :: bytes
  pbRlpEthTx :: "bytes option"

text \<open>
  \<^verbatim>\<open>EthTx\<close> embeds go-ethereum's transaction. The record holds the values of the accessors the
  sources call.
\<close>

record EthTx =
  eth_ChainId :: int
  eth_To :: "bytes option"
  eth_Data :: bytes
  eth_Nonce :: "64 word"
  eth_Value :: int
  eth_Gas :: "64 word"
  eth_GasPrice :: int
  eth_V :: int
  eth_R :: int
  eth_S :: int
  eth_Hash :: bytes

datatype transaction = TxV1 Txv1 | TxEth EthTx

section \<open>Third-party functions\<close>

record ext =
  uuid_String :: "uuid \<Rightarrow> string"
  uuid_MarshalBinary :: "uuid \<Rightarrow> bytes"
  uuid_FromBytes :: "bytes \<Rightarrow> uuid option"
  ts_New :: "time \<Rightarrow> pb_timestamp"
  ts_AsTime :: "pb_timestamp \<Rightarrow> time"
  proto_Marshal :: "pb_Txv1 \<Rightarrow> bytes option"
  proto_Unmarshal :: "bytes \<Rightarrow> pb_Txv1 option"
  sha256 :: "bytes \<Rightarrow> bytes"
  ed25519_Sign :: "bytes \<Rightarrow> bytes \<Rightarrow> bytes option"
  ed25519_Verify :: "bytes \<Rightarrow> bytes \<Rightarrow> bytes \<Rightarrow> bool"
  rlp_Encode :: "EthTx \<Rightarrow> bytes option"
  rlp_Decode :: "bytes \<Rightarrow> EthTx option"
  eth_Sender :: "EthTx \<Rightarrow> bytes option"
  eth_SignerHash :: "EthTx \<Rightarrow> bytes"
  eth_Ecrecover :: "bytes \<Rightarrow> bytes \<Rightarrow> bytes option"
  eth_VerifySignature :: "bytes \<Rightarrow> bytes \<Rightarrow> bytes \<Rightarrow> bool"

text \<open>
  Documented behaviour the sources rely on: the binary form of an identifier is its 16 bytes and is
  read back, other lengths are an error, timestamps survive their protobuf form, the string form of identifiers is unique, RLP and protobuf decoding invert the encoding, and a
  SHA-256 digest has 32 bytes.
\<close>

definition ext_ok :: "ext \<Rightarrow> bool" where
  "ext_ok E \<longleftrightarrow>
     (\<forall>u. uuid_MarshalBinary E u = uuid_slice u) \<and>
     (\<forall>u. uuid_FromBytes E (uuid_slice u) = Some u) \<and>
     (\<forall>b. length b \<noteq> 16 \<longrightarrow> uuid_FromBytes E b = None) \<and>
     inj (uuid_String E) \<and>
     (\<forall>t. ts_AsTime E (ts_New E t) = t) \<and>
     (\<forall>m b. proto_Marshal E m = Some b \<longrightarrow> proto_Unmarshal E b = Some m) \<and>
     (\<forall>t b. rlp_Encode E t = Some b \<longrightarrow> rlp_Decode E b = Some t) \<and>
     (\<forall>b. length (sha256 E b) = 32)"

text \<open>The key-pair law of Ed25519: a signature has 64 bytes and verifies under the public key.\<close>

definition key_pair :: "ext \<Rightarrow> bytes \<Rightarrow> bytes \<Rightarrow> bool" where
  "key_pair E seed pub \<longleftrightarrow>
     pub \<noteq> [] \<and>
     (\<forall>m. \<exists>s. ed25519_Sign E seed m = Some s \<and> length s = 64 \<and> ed25519_Verify E pub m s)"

section \<open>\<^verbatim>\<open>crypto/dsa.go\<close>\<close>

definition DSA_Sign :: "ext \<Rightarrow> bytes \<Rightarrow> bytes \<Rightarrow> bytes option" where
  "DSA_Sign E key message = ed25519_Sign E key message"

definition DSA_Verify :: "ext \<Rightarrow> bytes \<Rightarrow> bytes \<Rightarrow> bytes \<Rightarrow> bool" where
  "DSA_Verify E key signature message =
     (if length key = 0 then False
      else if length signature = 0 then False
      else if length message = 0 then False
      else ed25519_Verify E key message signature)"

definition ParsePublicKey :: "string \<Rightarrow> hex_error + bytes" where
  "ParsePublicKey hexstr =
     (case hexDecode hexstr of (bs, None) \<Rightarrow> Inr bs | (_, Some e) \<Rightarrow> Inl e)"

definition ParsePrivateKey :: "string \<Rightarrow> hex_error + bytes" where
  "ParsePrivateKey hexstr =
     (case hexDecode hexstr of (bs, None) \<Rightarrow> Inr bs | (_, Some e) \<Rightarrow> Inl e)"

section \<open>\<^verbatim>\<open>Txv1\<close>\<close>

definition nilBytes :: "bytes option \<Rightarrow> bytes" where
  "nilBytes b = (case b of None \<Rightarrow> [] | Some bs \<Rightarrow> bs)"

text \<open>Go's \<^verbatim>\<open>copy\<close> overwrites a prefix of the destination and never changes its length.\<close>

definition goCopy :: "'a list \<Rightarrow> 'a list \<Rightarrow> 'a list" where
  "goCopy dst src = take (length dst) src @ drop (length src) dst"

definition Txv1_GetAmount :: "Txv1 \<Rightarrow> int" where
  "Txv1_GetAmount t = SetBytes (Amount t)"

definition Txv1_GetFuelLimit :: "Txv1 \<Rightarrow> int" where
  "Txv1_GetFuelLimit t = SetBytes (Fuel_Limit t)"

definition Txv1_GetFuelPrice :: "Txv1 \<Rightarrow> int" where
  "Txv1_GetFuelPrice t = SetBytes (Fuel_Price t)"

definition SetAmount :: "int \<Rightarrow> Txv1 \<Rightarrow> Txv1" where
  "SetAmount amount t = t\<lparr>Amount := goCopy (Amount t) (Bytes amount)\<rparr>"

definition SetFuelLimit :: "int \<Rightarrow> Txv1 \<Rightarrow> Txv1" where
  "SetFuelLimit fuelLimit t = t\<lparr>Fuel_Limit := goCopy (Fuel_Limit t) (Bytes fuelLimit)\<rparr>"

definition SetFuelPrice :: "int \<Rightarrow> Txv1 \<Rightarrow> Txv1" where
  "SetFuelPrice fuelPrice t = t\<lparr>Fuel_Price := goCopy (Fuel_Price t) (Bytes fuelPrice)\<rparr>"

text \<open>The zero value of the struct; its time is Go's zero time, 1 January of year 1.\<close>

definition goZeroTime :: time where
  "goZeroTime = - 62135596800 * 1000000000"

definition NewTxv1 :: "ChainType \<Rightarrow> Txv1" where
  "NewTxv1 ct =
     \<lparr>Tx_Type = PAYMENT, Chain_Type = ct, Sender_Pubk = [], Sender = [], Recepient = [],
      Amount = [], Nonce = 0, Timestamp = goZeroTime, Fuel_Limit = [], Fuel_Price = [],
      Data = None, Signature = []\<rparr>"

text \<open>The wallet of a node as its constructors use it: public key and printed address.\<close>

record Wallet =
  privateKey :: bytes
  publicKey :: bytes
  walletAddress :: string

definition str_bytes :: "string \<Rightarrow> bytes" where
  "str_bytes s = map of_char s"

definition NewServiceTxv1 :: "ChainType \<Rightarrow> string \<Rightarrow> Wallet \<Rightarrow> addr_panic + Txv1" where
  "NewServiceTxv1 ct payload w =
     (case AddressToBytes (walletAddress w) of
        Inl e \<Rightarrow> Inl e
      | Inr a \<Rightarrow> Inr ((NewTxv1 ct)\<lparr>Tx_Type := SERVICE, Data := Some (str_bytes payload),
                                   Sender_Pubk := publicKey w, Sender := a, Recepient := a\<rparr>))"

definition NewGenesisTxv1 :: "ChainType \<Rightarrow> Wallet \<Rightarrow> addr_panic + Txv1" where
  "NewGenesisTxv1 ct w =
     (case AddressToBytes (walletAddress w) of
        Inl e \<Rightarrow> Inl e
      | Inr a \<Rightarrow> Inr ((NewTxv1 ct)\<lparr>Tx_Type := SERVICE_GENESIS,
                                   Sender_Pubk := publicKey w, Sender := a, Recepient := a\<rparr>))"

definition NewPinTxv1 :: "ChainType \<Rightarrow> Wallet \<Rightarrow> addr_panic + Txv1" where
  "NewPinTxv1 ct w =
     (case AddressToBytes (walletAddress w) of
        Inl e \<Rightarrow> Inl e
      | Inr a \<Rightarrow> Inr ((NewTxv1 ct)\<lparr>Tx_Type := SERVICE_PIN,
                                   Sender_Pubk := publicKey w, Sender := a, Recepient := a\<rparr>))"

definition Txv1_IsService :: "Txv1 \<Rightarrow> bool" where
  "Txv1_IsService t \<longleftrightarrow> Tx_Type t = SERVICE"

definition Txv1_IsPayload :: "Txv1 \<Rightarrow> string \<Rightarrow> bool" where
  "Txv1_IsPayload t payload =
     (case Data t of None \<Rightarrow> False | Some d \<Rightarrow> d = str_bytes payload)"

text \<open>
  The pointer comparison of \<^verbatim>\<open>Equal\<close> only short-cuts the comparison of signatures, which agree for
  one and the same transaction.
\<close>

definition Txv1_Equal :: "Txv1 \<Rightarrow> Txv1 \<Rightarrow> bool" where
  "Txv1_Equal thisTx thatTx \<longleftrightarrow> Signature thisTx = Signature thatTx"

definition Txv1_MarshalBinary :: "ext \<Rightarrow> Txv1 \<Rightarrow> pb_Txv1" where
  "Txv1_MarshalBinary E t =
     \<lparr>pbTxType = ucast (Tx_Type t), pbChainType = ucast (Chain_Type t),
      pbSenderPubk = Sender_Pubk t, pbSender = Sender t, pbRecepient = Recepient t,
      pbAmount = Amount t, pbNonce = Nonce t, pbTimestamp = ts_New E (Timestamp t),
      pbFuelLimit = Fuel_Limit t, pbFuelPrice = Fuel_Price t, pbData = Data t,
      pbSignature = Signature t, pbRlpEthTx = None\<rparr>"

definition Txv1_UnmarshalBinary :: "ext \<Rightarrow> pb_Txv1 \<Rightarrow> Txv1" where
  "Txv1_UnmarshalBinary E p =
     \<lparr>Tx_Type = ucast (pbTxType p), Chain_Type = ucast (pbChainType p),
      Sender_Pubk = pbSenderPubk p, Sender = pbSender p, Recepient = pbRecepient p,
      Amount = pbAmount p, Nonce = pbNonce p, Timestamp = ts_AsTime E (pbTimestamp p),
      Fuel_Limit = pbFuelLimit p, Fuel_Price = pbFuelPrice p, Data = pbData p,
      Signature = pbSignature p\<rparr>"

definition Txv1_Hash :: "ext \<Rightarrow> Txv1 \<Rightarrow> bytes option" where
  "Txv1_Hash E t = map_option (sha256 E) (proto_Marshal E (Txv1_MarshalBinary E t))"

definition DefaultStringHash :: "ext \<Rightarrow> Txv1 \<Rightarrow> string option" where
  "DefaultStringHash E t = map_option (\<lambda>h. ''0x'' @ hexEncode h) (Txv1_Hash E t)"

text \<open>
  \<^verbatim>\<open>generateSignature\<close> stores and returns the signature, or returns nil on a marshalling error;
  \<open>None\<close> is a panic of the signer.
\<close>

definition generateSignature :: "ext \<Rightarrow> bytes \<Rightarrow> Txv1 \<Rightarrow> (bytes \<times> Txv1) option" where
  "generateSignature E pk t =
     (case Txv1_Hash E t of
        None \<Rightarrow> Some ([], t)
      | Some payload \<Rightarrow>
          (case DSA_Sign E pk payload of
             None \<Rightarrow> None
           | Some s \<Rightarrow> Some (s, t\<lparr>Signature := s\<rparr>)))"

definition Txv1_Sign :: "ext \<Rightarrow> bytes \<Rightarrow> Txv1 \<Rightarrow> Txv1 option" where
  "Txv1_Sign E pk t =
     map_option (\<lambda>(s, t'). t'\<lparr>Signature := s\<rparr>) (generateSignature E pk (t\<lparr>Signature := []\<rparr>))"

datatype tx_error = InvalidSigLength nat | CannotVerify

text \<open>
  \<^verbatim>\<open>Verify\<close> clears the signature while hashing and restores it afterwards; on a marshalling error it
  returns no error and leaves the signature cleared.
\<close>

definition Txv1_Verify :: "ext \<Rightarrow> Txv1 \<Rightarrow> tx_error option \<times> Txv1" where
  "Txv1_Verify E t =
     (let sz = length (Signature t) in
      if sz < 64 then (Some (InvalidSigLength sz), t)
      else
        let sigbuf = goCopy (replicate sz 0) (Signature t);
            t0 = t\<lparr>Signature := []\<rparr> in
        (case Txv1_Hash E t0 of
           None \<Rightarrow> (None, t0)
         | Some payload \<Rightarrow>
             let t1 = t0\<lparr>Signature := goCopy (replicate sz 0) sigbuf\<rparr> in
             if DSA_Verify E (Sender_Pubk t1) (Signature t1) payload then (None, t1)
             else (Some CannotVerify, t1)))"

text \<open>
  A wallet request and \<^verbatim>\<open>GeneratePayment\<close>; the random nonce and the current time are arguments.
\<close>

record WalletTransaction =
  senderPrivateKey :: bytes
  senderPublicKey :: bytes
  senderAddress :: string
  receiverAddress :: string
  wt_amount :: int

record TransactionRequest =
  tr_SenderPrivateKey :: "string option"
  tr_SenderAddress :: "string option"
  tr_ReceiverAddress :: "string option"
  tr_SenderPublicKey :: "string option"
  tr_Amount :: "string option"

definition TransactionRequest_Validate :: "TransactionRequest \<Rightarrow> bool" where
  "TransactionRequest_Validate tr =
     (if tr_SenderPrivateKey tr = None \<or> tr_SenderAddress tr = None \<or>
         tr_ReceiverAddress tr = None \<or> tr_SenderPublicKey tr = None \<or> tr_Amount tr = None
      then False else True)"

definition GenServiceTransaction :: "Wallet \<Rightarrow> WalletTransaction" where
  "GenServiceTransaction w =
     \<lparr>senderPrivateKey = privateKey w, senderPublicKey = publicKey w,
      senderAddress = walletAddress w, receiverAddress = walletAddress w, wt_amount = 0\<rparr>"

definition GenPaymentTransaction :: "Wallet \<Rightarrow> Wallet \<Rightarrow> int \<Rightarrow> WalletTransaction" where
  "GenPaymentTransaction ws wr amount =
     \<lparr>senderPrivateKey = privateKey ws, senderPublicKey = publicKey ws,
      senderAddress = walletAddress ws, receiverAddress = walletAddress wr, wt_amount = amount\<rparr>"

definition GenPaymentEx :: "Wallet \<Rightarrow> string \<Rightarrow> int \<Rightarrow> WalletTransaction" where
  "GenPaymentEx ws wr amount =
     \<lparr>senderPrivateKey = privateKey ws, senderPublicKey = publicKey ws,
      senderAddress = walletAddress ws, receiverAddress = wr, wt_amount = amount\<rparr>"

definition GeneratePayment ::
  "ext \<Rightarrow> 64 word \<Rightarrow> time \<Rightarrow> WalletTransaction \<Rightarrow> 8 word \<Rightarrow> Txv1 \<Rightarrow> Txv1 option" where
  "GeneratePayment E rnd now wt chaintype t =
     (case (AddressToBytes (senderAddress wt), AddressToBytes (receiverAddress wt)) of
        (Inr s, Inr r) \<Rightarrow>
          map_option (\<lambda>(sig, t'). t'\<lparr>Signature := sig\<rparr>)
            (generateSignature E (senderPrivateKey wt)
              (t\<lparr>Tx_Type := PAYMENT, Amount := Bytes (wt_amount wt), Chain_Type := chaintype,
                 Fuel_Limit := Bytes 0, Fuel_Price := Bytes 0,
                 Sender_Pubk := senderPublicKey wt, Nonce := rnd mod 200000,
                 Sender := s, Recepient := r, Timestamp := now, Signature := []\<rparr>))
      | _ \<Rightarrow> None)"

section \<open>JSON form of \<^verbatim>\<open>Txv1\<close>\<close>

text \<open>
  The struct handed to \<^verbatim>\<open>encoding/json\<close> and the one filled from it have the same fields; the record
  is that struct. \<^verbatim>\<open>big.Int.Uint64\<close> keeps the low 64 bits.
\<close>

record Txv1_json =
  j_tx_type :: "8 word"
  j_chain_type :: "8 word"
  j_depth :: "64 word"
  j_sender_pubk :: string
  j_sender :: string
  j_recepient :: string
  j_amount :: "64 word"
  j_nonce :: "64 word"
  j_timestamp :: time
  j_fuel_limit :: "64 word"
  j_fuel_price :: "64 word"
  j_data :: "bytes option"

definition Txv1_MarshalJSON :: "Txv1 \<Rightarrow> addr_panic + Txv1_json" where
  "Txv1_MarshalJSON t =
     (case BytesToAddress (Sender t) of
        Inl e \<Rightarrow> Inl e
      | Inr s \<Rightarrow>
          (case ZeroBytesToAddress (Recepient t) of
             Inl e \<Rightarrow> Inl e
           | Inr r \<Rightarrow>
               Inr \<lparr>j_tx_type = Tx_Type t, j_chain_type = Chain_Type t, j_depth = 0,
                    j_sender_pubk = hexEncode (Sender_Pubk t), j_sender = s, j_recepient = r,
                    j_amount = word_of_int (SetBytes (Amount t)), j_nonce = Nonce t,
                    j_timestamp = Timestamp t,
                    j_fuel_limit = word_of_int (SetBytes (Fuel_Limit t)),
                    j_fuel_price = word_of_int (SetBytes (Fuel_Price t)), j_data = Data t\<rparr>))"

definition Txv1_UnmarshalJSON :: "Txv1_json \<Rightarrow> Txv1 \<Rightarrow> addr_panic + Txv1" where
  "Txv1_UnmarshalJSON j t =
     (case AddressToBytes (j_sender j) of
        Inl e \<Rightarrow> Inl e
      | Inr snd_bs \<Rightarrow>
          (case AddressToBytes (j_recepient j) of
             Inl e \<Rightarrow> Inl e
           | Inr rcp \<Rightarrow>
               Inr (t\<lparr>Nonce := j_nonce j, Timestamp := j_timestamp j, Data := j_data j,
                      Tx_Type := j_tx_type j, Chain_Type := j_chain_type j,
                      Amount := Bytes (uint (j_amount j)),
                      Fuel_Limit := Bytes (uint (j_fuel_limit j)),
                      Fuel_Price := Bytes (uint (j_fuel_limit j)),
                      Sender_Pubk := str_bytes (j_sender_pubk j),
                      Sender := snd_bs, Recepient := rcp\<rparr>)))"

section \<open>\<^verbatim>\<open>EthTx\<close>\<close>

definition EthTx_GetTransactionType :: "EthTx \<Rightarrow> TransactionType" where
  "EthTx_GetTransactionType t =
     (if eth_To t = None then PUBLISH_CONTRACT
      else if length (eth_Data t) > 0 then CALL_CONTRACT
      else PAYMENT)"

definition EthTx_GetChainType :: "EthTx \<Rightarrow> ChainType option" where
  "EthTx_GetChainType t =
     (if eth_ChainId t = 1 then Some MAINNET
      else if eth_ChainId t = 2 then Some PUBLIC_TESTNET
      else if eth_ChainId t = 3 then Some PRIVATE_TESTNET
      else None)"

text \<open>
  \<^verbatim>\<open>encodeSignature\<close>: all arithmetic on \<open>v\<close> is on bytes or unsigned 64-bit words. Slicing with a
  negative index panics when \<open>R\<close> or \<open>S\<close> has more than 32 bytes.
\<close>

definition encodeSignature :: "EthTx \<Rightarrow> bytes option" where
  "encodeSignature t =
     (let V64 = (word_of_int (eth_V t) :: 64 word);
          v = (if eth_ChainId t \<noteq> 0
               then (ucast V64 - 35) - 2 * (word_of_int (eth_ChainId t) :: byte)
               else ucast (V64 - 27));
          r = Bytes (eth_R t);
          s = Bytes (eth_S t) in
      if length r > 32 \<or> length s > 32 then None
      else Some (replicate (32 - length r) 0 @ r @ replicate (32 - length s) 0 @ s @ [v]))"

text \<open>The loop that skips leading zeros and the reslicing at its first non-zero byte.\<close>

fun resliceAt :: "bytes \<Rightarrow> nat \<Rightarrow> bytes \<Rightarrow> bytes" where
  "resliceAt whole i [] = whole"
| "resliceAt whole i (b # bs) =
     (if b = 0 then resliceAt whole (Suc i) bs else drop (i + 1) whole)"

definition DecodeSignature :: "bytes \<Rightarrow> int \<Rightarrow> (bytes \<times> bytes \<times> bytes) option" where
  "DecodeSignature sig chainId =
     (if length sig < 64 then None
      else
        let r = take 32 sig; s = take 32 (drop 32 sig) in
        Some (resliceAt r 0 r, resliceAt s 0 s, [word_of_int (35 + (chainId + 1) * 2)]))"

definition EthTx_GetSender :: "ext \<Rightarrow> EthTx \<Rightarrow> bytes option" where
  "EthTx_GetSender E t = eth_Sender E t"

definition EthTx_GetSenderPubKey :: "ext \<Rightarrow> EthTx \<Rightarrow> bytes option" where
  "EthTx_GetSenderPubKey E t =
     (case encodeSignature t of
        None \<Rightarrow> None
      | Some sig \<Rightarrow> eth_Ecrecover E (eth_SignerHash E t) sig)"

definition EthTx_GetRecipient :: "EthTx \<Rightarrow> bytes" where
  "EthTx_GetRecipient t = (case eth_To t of None \<Rightarrow> [] | Some a \<Rightarrow> a)"

datatype eth_verify_error = FailedRecover | SigVerificationFailed

text \<open>The outer option is a panic of \<^verbatim>\<open>encodeSignature\<close>.\<close>

definition EthTx_VerifySignature :: "ext \<Rightarrow> EthTx \<Rightarrow> eth_verify_error option option" where
  "EthTx_VerifySignature E t =
     (case encodeSignature t of
        None \<Rightarrow> None
      | Some sig \<Rightarrow>
          (let msgHash = eth_SignerHash E t in
           case eth_Ecrecover E msgHash sig of
             None \<Rightarrow> Some (Some FailedRecover)
           | Some pubKey \<Rightarrow>
               if \<not> eth_VerifySignature E pubKey msgHash (take 64 sig)
               then Some (Some SigVerificationFailed)
               else Some None))"

text \<open>\<^verbatim>\<open>int64(tx.Gas())\<close> reinterprets the unsigned gas as a signed number.\<close>

definition EthTx_GetFuelLimit :: "EthTx \<Rightarrow> int" where
  "EthTx_GetFuelLimit t = sint (eth_Gas t)"

definition EthTx_IsPayload :: "EthTx \<Rightarrow> string \<Rightarrow> bool" where
  "EthTx_IsPayload t payload = (if length (eth_Data t) > 0 then eth_Data t = str_bytes payload else False)"

text \<open>The timestamp is the wall clock, passed as \<open>now_ms\<close> in milliseconds.\<close>

definition EthTx_MarshalBinary :: "ext \<Rightarrow> int \<Rightarrow> EthTx \<Rightarrow> pb_Txv1 option" where
  "EthTx_MarshalBinary E now_ms t =
     (case (EthTx_GetChainType t, EthTx_GetSenderPubKey E t, EthTx_GetSender E t,
            encodeSignature t, rlp_Encode E t) of
        (Some ct, Some pk, Some s, Some sig, Some raw) \<Rightarrow>
          Some \<lparr>pbTxType = ucast (EthTx_GetTransactionType t), pbChainType = ucast ct,
                pbSenderPubk = pk, pbSender = s, pbRecepient = EthTx_GetRecipient t,
                pbAmount = Bytes (eth_Value t), pbNonce = eth_Nonce t,
                pbTimestamp = ts_New E (now_ms * 1000000),
                pbFuelLimit = Bytes (EthTx_GetFuelLimit t), pbFuelPrice = Bytes (eth_GasPrice t),
                pbData = Some (eth_Data t), pbSignature = sig, pbRlpEthTx = Some raw\<rparr>
      | _ \<Rightarrow> None)"

definition EthTx_UnmarshalBinary :: "ext \<Rightarrow> pb_Txv1 \<Rightarrow> EthTx option" where
  "EthTx_UnmarshalBinary E p =
     (case pbRlpEthTx p of None \<Rightarrow> None | Some raw \<Rightarrow> rlp_Decode E raw)"

section \<open>The \<^verbatim>\<open>Transaction\<close> interface\<close>

fun GetTransactionType :: "transaction \<Rightarrow> TransactionType" where
  "GetTransactionType (TxV1 t) = Tx_Type t"
| "GetTransactionType (TxEth t) = EthTx_GetTransactionType t"

fun GetChainType :: "transaction \<Rightarrow> ChainType option" where
  "GetChainType (TxV1 t) = Some (Chain_Type t)"
| "GetChainType (TxEth t) = EthTx_GetChainType t"

fun GetAmount :: "transaction \<Rightarrow> int" where
  "GetAmount (TxV1 t) = Txv1_GetAmount t"
| "GetAmount (TxEth t) = eth_Value t"

fun GetFuelLimit :: "transaction \<Rightarrow> int" where
  "GetFuelLimit (TxV1 t) = Txv1_GetFuelLimit t"
| "GetFuelLimit (TxEth t) = EthTx_GetFuelLimit t"

fun GetFuelPrice :: "transaction \<Rightarrow> int" where
  "GetFuelPrice (TxV1 t) = Txv1_GetFuelPrice t"
| "GetFuelPrice (TxEth t) = eth_GasPrice t"

fun GetSender :: "ext \<Rightarrow> transaction \<Rightarrow> bytes option" where
  "GetSender E (TxV1 t) = Some (Sender t)"
| "GetSender E (TxEth t) = EthTx_GetSender E t"

fun GetRecipient :: "transaction \<Rightarrow> bytes" where
  "GetRecipient (TxV1 t) = Recepient t"
| "GetRecipient (TxEth t) = EthTx_GetRecipient t"

fun GetNonce :: "transaction \<Rightarrow> 64 word" where
  "GetNonce (TxV1 t) = Nonce t"
| "GetNonce (TxEth t) = eth_Nonce t"

fun GetData :: "transaction \<Rightarrow> bytes option" where
  "GetData (TxV1 t) = Data t"
| "GetData (TxEth t) = Some (eth_Data t)"

fun GetSignature :: "transaction \<Rightarrow> bytes option" where
  "GetSignature (TxV1 t) = Some (Signature t)"
| "GetSignature (TxEth t) = encodeSignature t"

fun GetHash :: "ext \<Rightarrow> transaction \<Rightarrow> bytes option" where
  "GetHash E (TxV1 t) = Txv1_Hash E t"
| "GetHash E (TxEth t) = Some (eth_Hash t)"

text \<open>
  \<^verbatim>\<open>VerifySignature\<close>: the outer option is a panic, the boolean says that no error was returned; the
  verified transaction is returned because \<^verbatim>\<open>Txv1.Verify\<close> writes to it.
\<close>

fun VerifySignature :: "ext \<Rightarrow> transaction \<Rightarrow> (bool \<times> transaction) option" where
  "VerifySignature E (TxV1 t) = (let (e, t') = Txv1_Verify E t in Some (e = None, TxV1 t'))"
| "VerifySignature E (TxEth t) =
     map_option (\<lambda>e. (e = None, TxEth t)) (EthTx_VerifySignature E t)"

fun MarshalBinary :: "ext \<Rightarrow> int \<Rightarrow> transaction \<Rightarrow> pb_Txv1 option" where
  "MarshalBinary E now_ms (TxV1 t) = Some (Txv1_MarshalBinary E t)"
| "MarshalBinary E now_ms (TxEth t) = EthTx_MarshalBinary E now_ms t"

fun IsService :: "transaction \<Rightarrow> bool" where
  "IsService (TxV1 t) = Txv1_IsService t"
| "IsService (TxEth t) = False"

fun IsPayload :: "transaction \<Rightarrow> string \<Rightarrow> bool" where
  "IsPayload (TxV1 t) payload = Txv1_IsPayload t payload"
| "IsPayload (TxEth t) payload = EthTx_IsPayload t payload"

fun GetType :: "transaction \<Rightarrow> int" where
  "GetType (TxV1 t) = 0"
| "GetType (TxEth t) = 1"

definition UnmarshalBinary :: "ext \<Rightarrow> pb_Txv1 \<Rightarrow> transaction option" where
  "UnmarshalBinary E p =
     (case pbRlpEthTx p of
        Some _ \<Rightarrow> map_option TxEth (EthTx_UnmarshalBinary E p)
      | None \<Rightarrow> Some (TxV1 (Txv1_UnmarshalBinary E p)))"

text \<open>\<^verbatim>\<open>ParseTransaction\<close>: RLP first, then protobuf; \<open>None\<close> is its error.\<close>

definition ParseTransaction :: "ext \<Rightarrow> bytes \<Rightarrow> transaction option" where
  "ParseTransaction E txBytes =
     (case rlp_Decode E txBytes of
        Some ethTx \<Rightarrow> Some (TxEth ethTx)
      | None \<Rightarrow>
          (case proto_Unmarshal E txBytes of
             None \<Rightarrow> None
           | Some p \<Rightarrow> Some (TxV1 (Txv1_UnmarshalBinary E p))))"

section \<open>Wrappers\<close>

datatype Status = Failed | Successful

record ConfirmedTx =
  ct_Transaction :: transaction
  UsedFuel :: int
  StatusMessage :: string
  ct_Status :: Status
  PinTxNumber :: int
  PinTxHash :: string
  TxIndex :: int
  CumulativeGasUsed :: int

record UnifiedTx =
  ut_confirmed :: "ConfirmedTx option"
  ut_unconfirmed :: "transaction option"

definition ConfirmedTx_ToUnified :: "ConfirmedTx \<Rightarrow> UnifiedTx" where
  "ConfirmedTx_ToUnified c = \<lparr>ut_confirmed = Some c, ut_unconfirmed = None\<rparr>"

definition IdentifiableTx_ToUnified :: "transaction \<Rightarrow> UnifiedTx" where
  "IdentifiableTx_ToUnified t = \<lparr>ut_confirmed = None, ut_unconfirmed = Some t\<rparr>"

definition GetRawTx :: "UnifiedTx \<Rightarrow> transaction option" where
  "GetRawTx u =
     (case ut_confirmed u of
        Some c \<Rightarrow> Some (ct_Transaction c)
      | None \<Rightarrow> ut_unconfirmed u)"

definition IsConfirmed :: "UnifiedTx \<Rightarrow> bool" where
  "IsConfirmed u \<longleftrightarrow> ut_confirmed u \<noteq> None"

definition GetConfirmed :: "UnifiedTx \<Rightarrow> ConfirmedTx option" where
  "GetConfirmed u = ut_confirmed u"

definition GetUnconfirmed :: "UnifiedTx \<Rightarrow> transaction option" where
  "GetUnconfirmed u = ut_unconfirmed u"

definition NewUnifiedConfirmedTxRaw :: "transaction \<Rightarrow> int \<Rightarrow> string \<Rightarrow> int \<Rightarrow> int \<Rightarrow> UnifiedTx" where
  "NewUnifiedConfirmedTxRaw t pinTxNumber pinTxHash txIndex usedGas =
     \<lparr>ut_confirmed = Some \<lparr>ct_Transaction = t, UsedFuel = usedGas, StatusMessage = ''Executed'',
        ct_Status = Successful, PinTxNumber = pinTxNumber, PinTxHash = pinTxHash,
        TxIndex = txIndex, CumulativeGasUsed = 0\<rparr>,
      ut_unconfirmed = None\<rparr>"

definition NewPaymentConfirmedTx :: "transaction \<Rightarrow> int \<Rightarrow> string \<Rightarrow> int \<Rightarrow> ConfirmedTx option" where
  "NewPaymentConfirmedTx t pinTxNumber pinTxHash txIndex =
     (if GetTransactionType t \<noteq> PAYMENT then None
      else Some \<lparr>ct_Transaction = t, UsedFuel = 0, StatusMessage = ''Executed'',
             ct_Status = Successful, PinTxNumber = pinTxNumber, PinTxHash = pinTxHash,
             TxIndex = txIndex, CumulativeGasUsed = 0\<rparr>)"

definition IdentifiableTx_Id :: "ext \<Rightarrow> transaction \<Rightarrow> string option" where
  "IdentifiableTx_Id E t = map_option (\<lambda>h. Hex_String (Some h)) (GetHash E t)"

section \<open>Lemmas\<close>

lemma goCopy_zeros [simp]: "length src = n \<Longrightarrow> goCopy (replicate n 0) src = src"
  by (simp add: goCopy_def)

lemma length_goCopy [simp]: "length (goCopy dst src) = length dst"
  by (simp add: goCopy_def)

lemma ucast_enum_roundtrip [simp]: "ucast (ucast (x :: 8 word) :: 32 word) = x"
  by (rule bit_word_eqI) (auto simp: bit_simps)

lemma ext_okD:
  assumes "ext_ok E"
  shows "uuid_FromBytes E (uuid_MarshalBinary E u) = Some u"
    and "uuid_FromBytes E (uuid_slice u) = Some u"
    and "uuid_String E u = uuid_String E v \<longleftrightarrow> u = v"
    and "ts_AsTime E (ts_New E t) = t"
    and "proto_Marshal E m = Some b \<Longrightarrow> proto_Unmarshal E b = Some m"
    and "rlp_Encode E x = Some c \<Longrightarrow> rlp_Decode E c = Some x"
    and "length (sha256 E b) = 32"
  using assms unfolding ext_ok_def inj_def by (blast | metis)+

lemma Txv1_unmarshal_marshal:
  "ext_ok E \<Longrightarrow> Txv1_UnmarshalBinary E (Txv1_MarshalBinary E t) = t"
  by (simp add: Txv1_UnmarshalBinary_def Txv1_MarshalBinary_def ext_okD)

lemma Txv1_Hash_len: "ext_ok E \<Longrightarrow> Txv1_Hash E t = Some h \<Longrightarrow> length h = 32"
  by (auto simp: Txv1_Hash_def ext_okD)

lemma resliceAt_zeros: "(\<forall>b \<in> set bs. b = 0) \<Longrightarrow> resliceAt w i bs = w"
  by (induction bs arbitrary: i) auto

lemma resliceAt_split: "b \<noteq> 0 \<Longrightarrow> resliceAt w i (replicate n 0 @ b # rest) = drop (i + n + 1) w"
  by (induction n arbitrary: i) auto

lemma resliceAt_less:
  assumes "\<exists>b \<in> set bs. b \<noteq> 0"
  shows "SetBytes (resliceAt bs 0 bs) < SetBytes bs"
proof -
  from assms obtain zs b rest where zs: "bs = zs @ b # rest" "b \<noteq> 0" "\<forall>z \<in> set zs. z = 0"
    using split_list_first_prop [of bs "\<lambda>b. b \<noteq> 0"] by blast
  then obtain n where bs: "bs = replicate n 0 @ b # rest"
    using replicate_length_same [of zs 0] by metis
  have "resliceAt bs 0 bs = rest"
    using resliceAt_split [OF zs(2), of bs 0 n rest] by (simp add: bs)
  moreover have "SetBytes bs = uint b * 256 ^ length rest + SetBytes rest"
    by (simp add: bs SetBytes_Cons)
  moreover have "0 < uint b"
    using zs(2) uint_ge_0 [of b] uint_0_iff [of b] by linarith
  ultimately show ?thesis by simp
qed

lemma encodeSignature_parts:
  assumes "encodeSignature t = Some sig"
  shows "length sig = 65" "SetBytes (take 32 sig) = \<bar>eth_R t\<bar>"
    "SetBytes (take 32 (drop 32 sig)) = \<bar>eth_S t\<bar>"
  using assms by (auto simp: encodeSignature_def Let_def SetBytes_Bytes split: if_splits)

section \<open>A concrete instance of the third-party functions\<close>

text \<open>
  \<open>demo_ext\<close> satisfies \<open>ext_ok\<close>; it encodes one transaction, and is what the witnesses of the
  properties run on.
\<close>

definition demo_tx :: Txv1 where
  "demo_tx =
     \<lparr>Tx_Type = PAYMENT, Chain_Type = PRIVATE_TESTNET, Sender_Pubk = [1], Sender = replicate 20 1,
      Recepient = replicate 20 2, Amount = [7], Nonce = 3, Timestamp = 5, Fuel_Limit = [],
      Fuel_Price = [], Data = None, Signature = []\<rparr>"

definition demo_pb :: pb_Txv1 where
  "demo_pb =
     \<lparr>pbTxType = 0, pbChainType = 2, pbSenderPubk = [1], pbSender = replicate 20 1,
      pbRecepient = replicate 20 2, pbAmount = [7], pbNonce = 3, pbTimestamp = (5, 0),
      pbFuelLimit = [], pbFuelPrice = [], pbData = None, pbSignature = [], pbRlpEthTx = None\<rparr>"

definition demo_ext :: ext where
  "demo_ext =
     \<lparr>uuid_String = (\<lambda>u. hexEncode (Bytes (uint u))),
      uuid_MarshalBinary = uuid_slice,
      uuid_FromBytes = (\<lambda>b. if length b = 16 then Some (word_of_int (SetBytes b)) else None),
      ts_New = (\<lambda>t. (t, 0)), ts_AsTime = fst,
      proto_Marshal = (\<lambda>m. if m = demo_pb then Some [1] else None),
      proto_Unmarshal = (\<lambda>b. if b = [1] then Some demo_pb else None),
      sha256 = (\<lambda>b. replicate 32 (of_nat (length b))),
      ed25519_Sign = (\<lambda>seed m. Some (replicate 64 9)),
      ed25519_Verify = (\<lambda>pub m s. s = replicate 64 9),
      rlp_Encode = (\<lambda>t. None), rlp_Decode = (\<lambda>b. None),
      eth_Sender = (\<lambda>t. None), eth_SignerHash = (\<lambda>t. []),
      eth_Ecrecover = (\<lambda>m s. None), eth_VerifySignature = (\<lambda>p m s. False)\<rparr>"

lemma demo_uuid_inj: "inj (\<lambda>u :: uuid. hexEncode (Bytes (uint u)))"
proof (rule injI)
  fix u v :: uuid
  assume "hexEncode (Bytes (uint u)) = hexEncode (Bytes (uint v))"
  then have "SetBytes (Bytes (uint u)) = SetBytes (Bytes (uint v))" by simp
  then show "u = v" by (simp add: word_uint_eqI)
qed

lemma demo_ext_ok [simp]: "ext_ok demo_ext"
  by (simp add: ext_ok_def demo_ext_def SetBytes_uuid_slice demo_uuid_inj)

lemma demo_key_pair [simp]: "pub \<noteq> [] \<Longrightarrow> key_pair demo_ext seed pub"
  by (simp add: key_pair_def demo_ext_def)

lemma demo_tx_simps:
  "Sender_Pubk demo_tx = [1]" "Signature demo_tx = []" "Sender demo_tx = replicate 20 1"
  "Recepient demo_tx = replicate 20 2" "Amount demo_tx = [7]"
  by (simp_all add: demo_tx_def)

lemma demo_ext_simps:
  "ed25519_Verify demo_ext pub m s \<longleftrightarrow> s = replicate 64 9"
  "uuid_String demo_ext u = hexEncode (Bytes (uint u))"
  by (simp_all add: demo_ext_def)

lemma demo_marshal [simp]: "Txv1_MarshalBinary demo_ext demo_tx = demo_pb"
  by (simp add: Txv1_MarshalBinary_def demo_tx_def demo_pb_def demo_ext_def)

lemma demo_hash [simp]: "Txv1_Hash demo_ext demo_tx = Some (replicate 32 1)"
  by (simp add: Txv1_Hash_def) (simp add: demo_ext_def)

lemma BytesToAddress_len: "length b = 20 \<Longrightarrow> AddressToBytes (''0x'' @ hexEncode b) = Inr b"
  by (cases b) (simp_all add: AddressToBytes_def Let_def TrimPrefix_def nibbles_byte)

section \<open>Properties\<close>

text \<open>
  C22. Signing and verifying agree. A transaction signed with the private key that belongs to its
  public key verifies without an error, verification leaves it unchanged, and signing changes
  nothing but the signature.
\<close>
theorem sign_then_verify:
  assumes "ext_ok E" and "key_pair E seed (Sender_Pubk t)"
    and "Txv1_Hash E (t\<lparr>Signature := []\<rparr>) \<noteq> None"
  shows "\<exists>t'. Txv1_Sign E seed t = Some t' \<and> Txv1_Verify E t' = (None, t') \<and>
              t'\<lparr>Signature := Signature t\<rparr> = t"
proof -
  obtain h where h: "Txv1_Hash E (t\<lparr>Signature := []\<rparr>) = Some h" using assms(3) by auto
  then have hl: "h \<noteq> []" using Txv1_Hash_len [OF assms(1)] by fastforce
  obtain s where s: "ed25519_Sign E seed h = Some s" "length s = 64"
      "ed25519_Verify E (Sender_Pubk t) h s"
    using assms(2) unfolding key_pair_def by blast
  have pk: "Sender_Pubk t \<noteq> []" using assms(2) by (simp add: key_pair_def)
  have "Txv1_Sign E seed t = Some (t\<lparr>Signature := s\<rparr>)"
    by (simp add: Txv1_Sign_def generateSignature_def h DSA_Sign_def s)
  moreover have "Txv1_Verify E (t\<lparr>Signature := s\<rparr>) = (None, t\<lparr>Signature := s\<rparr>)"
    using s(2) by (auto simp: Txv1_Verify_def Let_def h DSA_Verify_def s(3) pk hl)
  ultimately show ?thesis by simp
qed

theorem sign_then_verify_witness:
  "\<exists>t'. Txv1_Sign demo_ext [4] demo_tx = Some t' \<and> Txv1_Verify demo_ext t' = (None, t')"
  using sign_then_verify [of demo_ext "[4]" demo_tx] demo_hash
  by (auto simp: demo_tx_def)



text \<open>
  C36. Transactions survive the wire. Whatever kind of transaction is marshalled into the protobuf
  message, the dispatching \<^verbatim>\<open>UnmarshalBinary\<close> rebuilds the same transaction of the same kind.
\<close>
theorem wire_roundtrip:
  assumes "ext_ok E" and "MarshalBinary E now_ms t = Some p"
  shows "UnmarshalBinary E p = Some t"
proof (cases t)
  case (TxV1 x)
  with assms have "p = Txv1_MarshalBinary E x" by simp
  moreover have "pbRlpEthTx (Txv1_MarshalBinary E x) = None" by (simp add: Txv1_MarshalBinary_def)
  ultimately show ?thesis
    using TxV1 by (simp add: UnmarshalBinary_def Txv1_unmarshal_marshal [OF assms(1)])
next
  case (TxEth x)
  with assms(2) obtain raw where "pbRlpEthTx p = Some raw" "rlp_Encode E x = Some raw"
    by (auto simp: EthTx_MarshalBinary_def split: option.splits)
  then show ?thesis
    using TxEth assms(1) by (simp add: UnmarshalBinary_def EthTx_UnmarshalBinary_def ext_okD)
qed

theorem wire_roundtrip_witness:
  "UnmarshalBinary demo_ext (Txv1_MarshalBinary demo_ext demo_tx) = Some (TxV1 demo_tx)"
  using wire_roundtrip [of demo_ext 0 "TxV1 demo_tx" "Txv1_MarshalBinary demo_ext demo_tx"]
  by simp

text \<open>
  What the JSON form keeps. Marshalling a transaction with 20-byte addresses and 64-bit
  quantities and reading it back keeps the type, chain, addresses, nonce, time, data, amount and
  fuel limit (quantities in canonical form); the fuel price is replaced by the fuel limit, the
  public key by the characters of its hexadecimal form, and the signature is not transferred.
\<close>
lemma json_roundtrip:
  assumes "length (Sender t) = 20" and "length (Recepient t) = 20"
    and "SetBytes (Amount t) < 2 ^ 64" and "SetBytes (Fuel_Limit t) < 2 ^ 64"
    and "Txv1_MarshalJSON t = Inr j"
  shows "Txv1_UnmarshalJSON j t0 =
           Inr (t\<lparr>Amount := Bytes (SetBytes (Amount t)),
                  Fuel_Limit := Bytes (SetBytes (Fuel_Limit t)),
                  Fuel_Price := Bytes (SetBytes (Fuel_Limit t)),
                  Sender_Pubk := str_bytes (hexEncode (Sender_Pubk t)),
                  Signature := Signature t0\<rparr>)"
proof -
  have u: "uint (word_of_int i :: 64 word) = i" if "0 \<le> i" "i < 2 ^ 64" for i
    using that by (simp add: uint_word_of_int take_bit_int_eq_self)
  from assms(1,2,5) have j:
    "j_sender j = ''0x'' @ hexEncode (Sender t)" "j_recepient j = ''0x'' @ hexEncode (Recepient t)"
    "j_amount j = word_of_int (SetBytes (Amount t))"
    "j_fuel_limit j = word_of_int (SetBytes (Fuel_Limit t))"
    "j_nonce j = Nonce t" "j_timestamp j = Timestamp t" "j_data j = Data t"
    "j_tx_type j = Tx_Type t" "j_chain_type j = Chain_Type t"
    "j_sender_pubk j = hexEncode (Sender_Pubk t)"
    by (auto simp: Txv1_MarshalJSON_def ZeroBytesToAddress_def split: if_splits)
  show ?thesis
    using assms(3,4) BytesToAddress_len [OF assms(1)] BytesToAddress_len [OF assms(2)]
    by (simp add: Txv1_UnmarshalJSON_def j u)
qed

text \<open>
  Signature encoding of Ethereum transactions. The 65-byte signature holds \<open>R\<close> and \<open>S\<close> as
  big-endian 32-byte numbers, but \<^verbatim>\<open>DecodeSignature\<close> does not invert it: for every signature with a
  non-zero \<open>R\<close> the first component it returns is a strictly smaller number, because the reslicing
  skips the first non-zero byte.
\<close>
lemma signature_encoding:
  assumes "encodeSignature t = Some sig"
  shows "length sig = 65 \<and> SetBytes (take 32 sig) = \<bar>eth_R t\<bar> \<and>
         SetBytes (take 32 (drop 32 sig)) = \<bar>eth_S t\<bar> \<and>
         (eth_R t \<noteq> 0 \<longrightarrow>
            (\<exists>r s v. DecodeSignature sig c = Some (r, s, v) \<and> SetBytes r < \<bar>eth_R t\<bar>))"
proof -
  note parts = encodeSignature_parts [OF assms]
  have "\<exists>b \<in> set (take 32 sig). b \<noteq> 0" if "eth_R t \<noteq> 0"
  proof (rule ccontr)
    assume "\<not> (\<exists>b \<in> set (take 32 sig). b \<noteq> 0)"
    then have "replicate (length (take 32 sig)) 0 = take 32 sig"
      by (intro replicate_length_same) blast
    then have "SetBytes (take 32 sig) = 0" by (metis SetBytes_Nil SetBytes_zeros append_Nil2)
    with parts(2) that show False by simp
  qed
  then show ?thesis
    using parts resliceAt_less [of "take 32 sig"] by (simp add: DecodeSignature_def Let_def)
qed

end
