(* ===== verification/Messages.thy ===== *)
theory Messages
  imports Transactions
begin

text \<open>
  The messages peers exchange: \<^verbatim>\<open>src/tx/ids.go\<close>, \<^verbatim>\<open>src/tx/edge.go\<close>, \<^verbatim>\<open>src/tx/vertex.go\<close>,
  \<^verbatim>\<open>src/tx/grapetx.go\<close> and \<^verbatim>\<open>src/tx/sync.go\<close>, with their conversions to and from the protobuf
  messages. Floating-point weights are carried as their bit patterns.
\<close>

type_synonym float64 = "64 word"

section \<open>\<^verbatim>\<open>Ids\<close>\<close>

record UuidSlice =
  Is_empty :: bool
  us_Id :: uuid

record Ids =
  IDs :: "UuidSlice list"
  Signatures :: "string \<rightharpoonup> bytes"

record pb_UuidSlice =
  pb_IsEmpty :: bool
  pb_Uuid :: bytes

record pb_Ids =
  pb_Ids_Ids :: "pb_UuidSlice list"
  pb_Signatures :: "string \<rightharpoonup> bytes"

definition Ids_MarshalBinary :: "Ids \<Rightarrow> pb_Ids" where
  "Ids_MarshalBinary ids =
     \<lparr>pb_Ids_Ids = map (\<lambda>s. \<lparr>pb_IsEmpty = Is_empty s, pb_Uuid = uuid_slice (us_Id s)\<rparr>) (IDs ids),
      pb_Signatures = Signatures ids\<rparr>"

definition UuidSlice_from :: "ext \<Rightarrow> pb_UuidSlice \<Rightarrow> UuidSlice" where
  "UuidSlice_from E pbid =
     (if \<not> pb_IsEmpty pbid then
        (case uuid_FromBytes E (pb_Uuid pbid) of
           None \<Rightarrow> \<lparr>Is_empty = True, us_Id = uuid_Nil\<rparr>
         | Some u \<Rightarrow> \<lparr>Is_empty = False, us_Id = u\<rparr>)
      else \<lparr>Is_empty = True, us_Id = uuid_Nil\<rparr>)"

text \<open>Unmarshalling appends to what the receiver already holds.\<close>

definition Ids_UnmarshalBinary :: "ext \<Rightarrow> pb_Ids \<Rightarrow> Ids \<Rightarrow> Ids" where
  "Ids_UnmarshalBinary E p ids =
     \<lparr>IDs = fold (\<lambda>pbid acc. acc @ [UuidSlice_from E pbid]) (pb_Ids_Ids p) (IDs ids),
      Signatures = pb_Signatures p\<rparr>"

section \<open>\<^verbatim>\<open>Edge\<close> and \<^verbatim>\<open>Vertex\<close>\<close>

record Edge =
  Edge_Vertex :: uuid
  Edges :: "uuid list"

record pb_Edge =
  pb_Edge_Tx :: bytes
  pb_Edges :: "bytes list"

definition Edge_MarshalBinary :: "ext \<Rightarrow> Edge \<Rightarrow> pb_Edge" where
  "Edge_MarshalBinary E e =
     \<lparr>pb_Edge_Tx = uuid_MarshalBinary E (Edge_Vertex e),
      pb_Edges = map (uuid_MarshalBinary E) (Edges e)\<rparr>"

text \<open>
  \<^verbatim>\<open>uuid.UnmarshalBinary\<close> leaves its receiver alone on an error; \<^verbatim>\<open>uuid.FromBytes\<close>, whose error is
  ignored here, yields the nil identifier.
\<close>

definition uuid_assign :: "ext \<Rightarrow> bytes \<Rightarrow> uuid \<Rightarrow> uuid" where
  "uuid_assign E b u = (case uuid_FromBytes E b of None \<Rightarrow> u | Some v \<Rightarrow> v)"

definition Edge_UnmarshalBinary :: "ext \<Rightarrow> pb_Edge \<Rightarrow> Edge \<Rightarrow> Edge" where
  "Edge_UnmarshalBinary E p e =
     \<lparr>Edge_Vertex = uuid_assign E (pb_Edge_Tx p) (Edge_Vertex e),
      Edges = fold (\<lambda>b acc. acc @ [uuid_assign E b uuid_Nil]) (pb_Edges p) (Edges e)\<rparr>"

record VertexId =
  vi_Id :: uuid
  vi_Address :: string
  vi_IdMajor :: "64 word"
  vi_IdMinor :: "32 word"

record pb_VertexId =
  pb_vi_Id :: bytes
  pb_vi_Address :: string
  pb_vi_IdMajor :: "64 word"
  pb_vi_IdMinor :: "32 word"

definition VertexId_MarshalBinary :: "ext \<Rightarrow> VertexId \<Rightarrow> pb_VertexId" where
  "VertexId_MarshalBinary E v =
     \<lparr>pb_vi_Id = uuid_MarshalBinary E (vi_Id v), pb_vi_Address = vi_Address v,
      pb_vi_IdMajor = vi_IdMajor v, pb_vi_IdMinor = vi_IdMinor v\<rparr>"

definition VertexId_UnmarshalBinary :: "ext \<Rightarrow> pb_VertexId \<Rightarrow> VertexId" where
  "VertexId_UnmarshalBinary E p =
     \<lparr>vi_Id = uuid_assign E (pb_vi_Id p) uuid_Nil, vi_Address = pb_vi_Address p,
      vi_IdMajor = pb_vi_IdMajor p, vi_IdMinor = pb_vi_IdMinor p\<rparr>"

record Vertex =
  v_Id :: VertexId
  v_CumWeight :: float64
  v_TxWeight :: float64
  v_Timestamp :: time
  v_Tx :: transaction

record pb_Vertex =
  pb_v_VertexId :: pb_VertexId
  pb_v_CumWeight :: float64
  pb_v_TxWeight :: float64
  pb_v_Tx :: pb_Txv1

definition Vertex_MarshalBinary :: "ext \<Rightarrow> int \<Rightarrow> Vertex \<Rightarrow> pb_Vertex option" where
  "Vertex_MarshalBinary E now_ms v =
     map_option (\<lambda>p. \<lparr>pb_v_VertexId = VertexId_MarshalBinary E (v_Id v),
                     pb_v_CumWeight = v_CumWeight v, pb_v_TxWeight = v_TxWeight v, pb_v_Tx = p\<rparr>)
       (MarshalBinary E now_ms (v_Tx v))"

text \<open>
  The method call on the receiver's transaction keeps the receiver's dynamic type, and the
  timestamp is not part of the message.
\<close>

fun Transaction_UnmarshalInto :: "ext \<Rightarrow> pb_Txv1 \<Rightarrow> transaction \<Rightarrow> transaction option" where
  "Transaction_UnmarshalInto E p (TxV1 _) = Some (TxV1 (Txv1_UnmarshalBinary E p))"
| "Transaction_UnmarshalInto E p (TxEth _) = map_option TxEth (EthTx_UnmarshalBinary E p)"

definition Vertex_UnmarshalBinary :: "ext \<Rightarrow> pb_Vertex \<Rightarrow> Vertex \<Rightarrow> Vertex option" where
  "Vertex_UnmarshalBinary E p v =
     map_option (\<lambda>t. v\<lparr>v_Id := VertexId_UnmarshalBinary E (pb_v_VertexId p),
                       v_CumWeight := pb_v_CumWeight p, v_TxWeight := pb_v_TxWeight p, v_Tx := t\<rparr>)
       (Transaction_UnmarshalInto E (pb_v_Tx p) (v_Tx v))"

section \<open>\<^verbatim>\<open>GrapeTx\<close>\<close>

text \<open>Peer identifiers, base-58 and multi-addresses are third-party; multi-addresses are their bytes.\<close>

record net_ext =
  peer_MarshalBinary :: "string \<Rightarrow> bytes option"
  peer_UnmarshalText :: "bytes \<Rightarrow> string option"
  base58_Encode :: "bytes \<Rightarrow> string"
  base58_Decode :: "string \<Rightarrow> bytes"
  multiaddr_valid :: "bytes \<Rightarrow> bool"

abbreviation (input) TVX1 :: "8 word" where "TVX1 \<equiv> 1"

record GrapeTx =
  PeerID :: string
  Seq :: "64 word"
  gt_Tx :: bytes
  Addrs :: "bytes list"
  Version :: "8 word"
  gt_Ids :: Ids
  gt_Transaction :: "transaction option"
  TxIdMajor :: "64 word"
  TxIdMinor :: "32 word"
  TxIdId :: uuid

record pb_GrapeTxRecord =
  pb_PeerId :: bytes
  pb_Tx :: string
  pb_Addresses :: "bytes list"
  pb_Seq :: "64 word"
  pb_Version :: "32 word"
  pb_GIds :: pb_Ids
  pb_GTxv1 :: pb_Txv1
  pb_Txidmajor :: "64 word"
  pb_Txidminor :: "32 word"
  pb_Txidid :: bytes

text \<open>
  The timestamp-based sequence number: the wall clock, or one more than the last value handed out.
  The result is both the number and the new state.
\<close>

definition TimestampSeq :: "64 word \<Rightarrow> 64 word \<Rightarrow> 64 word" where
  "TimestampSeq lastTimestamp now = (if now \<le> lastTimestamp then lastTimestamp + 1 else now)"

definition NewGrapeTx :: "string \<Rightarrow> bytes list \<Rightarrow> 64 word \<Rightarrow> GrapeTx" where
  "NewGrapeTx hostId listenAddrs seq =
     \<lparr>PeerID = hostId, Seq = seq, gt_Tx = [], Addrs = listenAddrs, Version = TVX1,
      gt_Ids = \<lparr>IDs = [], Signatures = Map.empty\<rparr>,
      gt_Transaction = Some (TxV1 (NewTxv1 PRIVATE_TESTNET)),
      TxIdMajor = 0, TxIdMinor = 0, TxIdId = uuid_Nil\<rparr>"

definition ConvertToGrapeTx :: "string \<Rightarrow> bytes list \<Rightarrow> 64 word \<Rightarrow> transaction \<Rightarrow> GrapeTx" where
  "ConvertToGrapeTx hostId listenAddrs seq txvx =
     (NewGrapeTx hostId listenAddrs seq)\<lparr>gt_Transaction := Some txvx\<rparr>"

fun addrsFromProtobuf :: "net_ext \<Rightarrow> bytes list \<Rightarrow> bytes list" where
  "addrsFromProtobuf N [] = []"
| "addrsFromProtobuf N (a # as) =
     (if multiaddr_valid N a then a # addrsFromProtobuf N as else addrsFromProtobuf N as)"

definition addrsToProtobuf :: "bytes list \<Rightarrow> bytes list" where
  "addrsToProtobuf addrs = map (\<lambda>a. a) addrs"

text \<open>\<open>None\<close> is an error or a panic (a record without a transaction panics).\<close>

definition GrapeTx_ToProtobuf :: "ext \<Rightarrow> net_ext \<Rightarrow> int \<Rightarrow> GrapeTx \<Rightarrow> pb_GrapeTxRecord option" where
  "GrapeTx_ToProtobuf E N now_ms r =
     (case (peer_MarshalBinary N (PeerID r), gt_Transaction r) of
        (Some idBytes, Some t) \<Rightarrow>
          map_option (\<lambda>p. \<lparr>pb_PeerId = idBytes, pb_Tx = base58_Encode N (gt_Tx r),
              pb_Addresses = addrsToProtobuf (Addrs r), pb_Seq = Seq r,
              pb_Version = ucast (Version r), pb_GIds = Ids_MarshalBinary (gt_Ids r),
              pb_GTxv1 = p, pb_Txidmajor = TxIdMajor r, pb_Txidminor = TxIdMinor r,
              pb_Txidid = uuid_MarshalBinary E (TxIdId r)\<rparr>)
            (MarshalBinary E now_ms t)
      | _ \<Rightarrow> None)"

definition GrapeTxFromProtobuf :: "ext \<Rightarrow> net_ext \<Rightarrow> pb_GrapeTxRecord \<Rightarrow> GrapeTx option" where
  "GrapeTxFromProtobuf E N msg =
     (let v = (ucast (pb_Version msg) :: 8 word);
          rec = \<lparr>PeerID = (case peer_UnmarshalText N (pb_PeerId msg) of None \<Rightarrow> [] | Some i \<Rightarrow> i),
                 Seq = pb_Seq msg, gt_Tx = base58_Decode N (pb_Tx msg),
                 Addrs = addrsFromProtobuf N (pb_Addresses msg), Version = v,
                 gt_Ids = Ids_UnmarshalBinary E (pb_GIds msg) \<lparr>IDs = [], Signatures = Map.empty\<rparr>,
                 gt_Transaction = None, TxIdMajor = pb_Txidmajor msg,
                 TxIdMinor = pb_Txidminor msg,
                 TxIdId = uuid_assign E (pb_Txidid msg) uuid_Nil\<rparr> in
      if v = TVX1
      then map_option (\<lambda>t. rec\<lparr>gt_Transaction := Some t\<rparr>) (UnmarshalBinary E (pb_GTxv1 msg))
      else Some rec)"

fun addrs_equal :: "bytes list \<Rightarrow> bytes list \<Rightarrow> bool" where
  "addrs_equal (a # as) (b # bs) = (if a \<noteq> b then False else addrs_equal as bs)"
| "addrs_equal _ _ = True"

definition GrapeTx_Equal :: "GrapeTx \<Rightarrow> GrapeTx \<Rightarrow> bool" where
  "GrapeTx_Equal r other =
     (if PeerID r \<noteq> PeerID other then False
      else if Seq r \<noteq> Seq other then False
      else if length (Addrs r) \<noteq> length (Addrs other) then False
      else addrs_equal (Addrs r) (Addrs other))"

section \<open>\<^verbatim>\<open>Syncv1\<close>\<close>

abbreviation (input) INITIAL :: "8 word" where "INITIAL \<equiv> 0"
abbreviation (input) SITE :: "8 word" where "SITE \<equiv> 1"
abbreviation (input) CURRENT :: "8 word" where "CURRENT \<equiv> 2"
abbreviation (input) GENESIS :: "8 word" where "GENESIS \<equiv> 3"
abbreviation (input) SYNC_ALL :: "8 word" where "SYNC_ALL \<equiv> 4"
abbreviation (input) LATEST :: "8 word" where "LATEST \<equiv> 5"
abbreviation (input) MISSING :: "8 word" where "MISSING \<equiv> 6"

abbreviation (input) STX_REQUEST :: "8 word" where "STX_REQUEST \<equiv> 0"
abbreviation (input) STX_RESPONSE :: "8 word" where "STX_RESPONSE \<equiv> 1"
abbreviation (input) STX_VOTE_REQUEST :: "8 word" where "STX_VOTE_REQUEST \<equiv> 2"
abbreviation (input) STX_VOTE_RESPONSE :: "8 word" where "STX_VOTE_RESPONSE \<equiv> 3"
abbreviation (input) STX_ANNOUNCE :: "8 word" where "STX_ANNOUNCE \<equiv> 4"
abbreviation (input) STX_UPDATE :: "8 word" where "STX_UPDATE \<equiv> 5"
abbreviation (input) STX_STOP :: "8 word" where "STX_STOP \<equiv> 6"
abbreviation (input) STX_PIN_REQUEST :: "8 word" where "STX_PIN_REQUEST \<equiv> 7"
abbreviation (input) STX_PIN_RESPONSE :: "8 word" where "STX_PIN_RESPONSE \<equiv> 8"
abbreviation (input) STX_SITE_REQUEST :: "8 word" where "STX_SITE_REQUEST \<equiv> 9"
abbreviation (input) STX_SITE_RESPONSE :: "8 word" where "STX_SITE_RESPONSE \<equiv> 10"
abbreviation (input) STX_SNAPSHOT_BALANCE_REQUEST :: "8 word" where "STX_SNAPSHOT_BALANCE_REQUEST \<equiv> 11"
abbreviation (input) STX_SNAPSHOT_BALANCE_RESPONSE :: "8 word" where "STX_SNAPSHOT_BALANCE_RESPONSE \<equiv> 12"
abbreviation (input) STX_PIN_DOWNLOAD_REQUEST :: "8 word" where "STX_PIN_DOWNLOAD_REQUEST \<equiv> 13"
abbreviation (input) STX_PIN_DOWNLOAD_RESPONSE :: "8 word" where "STX_PIN_DOWNLOAD_RESPONSE \<equiv> 14"

text \<open>Protobuf \<^verbatim>\<open>Any\<close> values: type and payload.\<close>

datatype any = Any string bytes

record Syncv1 =
  Ver_type :: "8 word"
  Sync_Type :: "8 word"
  Msg_Type :: "8 word"
  Tracking_Id :: uuid
  s_Sender_Pubk :: bytes
  s_Timestamp :: time
  s_Data :: bytes
  Details :: "any list"
  SyncHash :: bytes
  s_Signature :: bytes

record pb_Syncv1 =
  pbs_Ver :: "32 word"
  pbs_SyncType :: "32 word"
  pbs_MsgType :: "32 word"
  pbs_TrackingId :: bytes
  pbs_SenderPubk :: bytes
  pbs_Timestamp :: pb_timestamp
  pbs_Data :: bytes
  pbs_Details :: "any list"
  pbs_SyncHash :: bytes
  pbs_Signature :: bytes

definition NewSyncv1 :: "uuid \<Rightarrow> time \<Rightarrow> Syncv1" where
  "NewSyncv1 fresh now =
     \<lparr>Ver_type = 0, Sync_Type = 0, Msg_Type = 0, Tracking_Id = fresh, s_Sender_Pubk = [],
      s_Timestamp = now, s_Data = [], Details = [], SyncHash = [], s_Signature = []\<rparr>"

definition NewSyncv1Stop :: "uuid \<Rightarrow> time \<Rightarrow> Syncv1" where
  "NewSyncv1Stop fresh now = (NewSyncv1 fresh now)\<lparr>Msg_Type := STX_STOP\<rparr>"

definition Syncv1_MarshalBinary :: "ext \<Rightarrow> Syncv1 \<Rightarrow> pb_Syncv1" where
  "Syncv1_MarshalBinary E t =
     \<lparr>pbs_Ver = ucast (Ver_type t), pbs_SyncType = ucast (Sync_Type t),
      pbs_MsgType = ucast (Msg_Type t), pbs_TrackingId = uuid_MarshalBinary E (Tracking_Id t),
      pbs_SenderPubk = s_Sender_Pubk t, pbs_Timestamp = ts_New E (s_Timestamp t),
      pbs_Data = s_Data t, pbs_Details = Details t, pbs_SyncHash = SyncHash t,
      pbs_Signature = s_Signature t\<rparr>"

definition Syncv1_UnmarshalBinary :: "ext \<Rightarrow> pb_Syncv1 \<Rightarrow> Syncv1" where
  "Syncv1_UnmarshalBinary E p =
     \<lparr>Ver_type = ucast (pbs_Ver p), Sync_Type = ucast (pbs_SyncType p),
      Msg_Type = ucast (pbs_MsgType p), Tracking_Id = uuid_assign E (pbs_TrackingId p) uuid_Nil,
      s_Sender_Pubk = pbs_SenderPubk p, s_Timestamp = ts_AsTime E (pbs_Timestamp p),
      s_Data = pbs_Data p, Details = pbs_Details p, SyncHash = pbs_SyncHash p,
      s_Signature = pbs_Signature p\<rparr>"

definition Syncv1_ToProtobuf :: "ext \<Rightarrow> Syncv1 \<Rightarrow> pb_Syncv1" where
  "Syncv1_ToProtobuf E r =
     \<lparr>pbs_Ver = ucast (Ver_type r), pbs_SyncType = ucast (Sync_Type r),
      pbs_MsgType = ucast (Msg_Type r), pbs_TrackingId = uuid_MarshalBinary E (Tracking_Id r),
      pbs_SenderPubk = s_Sender_Pubk r, pbs_Timestamp = ts_New E (s_Timestamp r),
      pbs_Data = s_Data r, pbs_Details = Details r, pbs_SyncHash = [],
      pbs_Signature = s_Signature r\<rparr>"

definition Syncv1FromProtobuf :: "ext \<Rightarrow> pb_Syncv1 \<Rightarrow> Syncv1" where
  "Syncv1FromProtobuf E msg =
     \<lparr>Ver_type = ucast (pbs_Ver msg), Sync_Type = ucast (pbs_SyncType msg),
      Msg_Type = ucast (pbs_MsgType msg),
      Tracking_Id = uuid_assign E (pbs_TrackingId msg) uuid_Nil,
      s_Sender_Pubk = pbs_SenderPubk msg, s_Timestamp = ts_AsTime E (pbs_Timestamp msg),
      s_Data = pbs_Data msg, Details = pbs_Details msg, SyncHash = [],
      s_Signature = pbs_Signature msg\<rparr>"

text \<open>The envelope signature covers the SHA-256 digest of the data field only.\<close>

definition Syncv1_GenerateSignature :: "ext \<Rightarrow> (bytes \<Rightarrow> bytes option) \<Rightarrow> Syncv1 \<Rightarrow> bytes option \<times> Syncv1" where
  "Syncv1_GenerateSignature E pkSign t =
     (case pkSign (sha256 E (s_Data t)) of
        None \<Rightarrow> (None, t\<lparr>s_Signature := []\<rparr>)
      | Some sig \<Rightarrow> (Some sig, t\<lparr>s_Signature := sig\<rparr>))"

definition Syncv1_VerifySignature :: "ext \<Rightarrow> (bytes \<Rightarrow> bytes \<Rightarrow> bool option) \<Rightarrow> Syncv1 \<Rightarrow> bool option" where
  "Syncv1_VerifySignature E pkVerify t = pkVerify (sha256 E (s_Data t)) (s_Signature t)"

section \<open>Lemmas\<close>

lemma fold_snoc_map: "fold (\<lambda>x acc. acc @ [f x]) xs acc = acc @ map f xs"
  by (induction xs arbitrary: acc) auto

lemma uuid_assign_marshal [simp]:
  "ext_ok E \<Longrightarrow> uuid_assign E (uuid_MarshalBinary E u) v = u"
  "ext_ok E \<Longrightarrow> uuid_assign E (uuid_slice u) v = u"
  by (simp_all add: uuid_assign_def ext_okD)

definition normal_slice :: "UuidSlice \<Rightarrow> UuidSlice" where
  "normal_slice s = (if Is_empty s then \<lparr>Is_empty = True, us_Id = uuid_Nil\<rparr> else s)"

lemma UuidSlice_from_marshal:
  assumes "ext_ok E"
  shows "UuidSlice_from E \<lparr>pb_IsEmpty = Is_empty s, pb_Uuid = uuid_slice (us_Id s)\<rparr> = normal_slice s"
  using assms by (simp add: UuidSlice_from_def normal_slice_def ext_okD)

lemma Ids_roundtrip:
  "ext_ok E \<Longrightarrow> Ids_UnmarshalBinary E (Ids_MarshalBinary ids) ids0 =
     \<lparr>IDs = IDs ids0 @ map normal_slice (IDs ids), Signatures = Signatures ids\<rparr>"
  by (simp add: Ids_UnmarshalBinary_def Ids_MarshalBinary_def fold_snoc_map
      UuidSlice_from_marshal comp_def)

lemma addrs_equal_iff: "length as = length bs \<Longrightarrow> addrs_equal as bs \<longleftrightarrow> as = bs"
  by (induction as bs rule: list_induct2) auto

lemma addrs_roundtrip: "list_all (multiaddr_valid N) as \<Longrightarrow> addrsFromProtobuf N (addrsToProtobuf as) = as"
  by (induction as) (auto simp: addrsToProtobuf_def)

lemma Transaction_UnmarshalInto_self:
  assumes "ext_ok E" "MarshalBinary E n t = Some p"
  shows "Transaction_UnmarshalInto E p t = Some t"
  using assms
  by (cases t) (auto simp: Txv1_unmarshal_marshal EthTx_UnmarshalBinary_def
      EthTx_MarshalBinary_def ext_okD split: option.splits)

section \<open>Properties\<close>

text \<open>
  Edges and vertices survive the wire: unmarshalling a marshalled edge into a fresh one, and a
  marshalled vertex into itself, gives the edge and the vertex back.
\<close>
lemma edge_vertex_roundtrip:
  assumes "ext_ok E" and "Vertex_MarshalBinary E now_ms v = Some pv"
  shows "Edge_UnmarshalBinary E (Edge_MarshalBinary E e) \<lparr>Edge_Vertex = u, Edges = []\<rparr> = e \<and>
         Vertex_UnmarshalBinary E pv v = Some v"
proof
  show "Edge_UnmarshalBinary E (Edge_MarshalBinary E e) \<lparr>Edge_Vertex = u, Edges = []\<rparr> = e"
    using assms(1)
    by (simp add: Edge_UnmarshalBinary_def Edge_MarshalBinary_def fold_snoc_map comp_def)
  from assms(2) obtain p where p: "MarshalBinary E now_ms (v_Tx v) = Some p"
    and pv: "pv = \<lparr>pb_v_VertexId = VertexId_MarshalBinary E (v_Id v),
                  pb_v_CumWeight = v_CumWeight v, pb_v_TxWeight = v_TxWeight v, pb_v_Tx = p\<rparr>"
    by (auto simp: Vertex_MarshalBinary_def)
  show "Vertex_UnmarshalBinary E pv v = Some v"
    using assms(1) Transaction_UnmarshalInto_self [OF assms(1) p]
    by (simp add: Vertex_UnmarshalBinary_def pv VertexId_UnmarshalBinary_def
        VertexId_MarshalBinary_def)
qed

text \<open>
  A published transaction record is rebuilt by its receiver: sequence number, payload,
  addresses, identifiers (an empty one normalised to the nil identifier), transaction and
  transaction identifiers are those of the sender. The peer identifier is whatever the text decoder
  makes of the binary identifier.
\<close>
lemma grapetx_roundtrip:
  assumes "ext_ok E" and "\<And>b. base58_Decode N (base58_Encode N b) = b"
    and "list_all (multiaddr_valid N) (Addrs r)" and "Version r = TVX1"
    and "GrapeTx_ToProtobuf E N now_ms r = Some msg"
    and "peer_MarshalBinary N (PeerID r) = Some idb"
  shows "GrapeTxFromProtobuf E N msg =
           Some (r\<lparr>PeerID := (case peer_UnmarshalText N idb of None \<Rightarrow> [] | Some i \<Rightarrow> i),
                   gt_Ids := \<lparr>IDs = map normal_slice (IDs (gt_Ids r)),
                              Signatures = Signatures (gt_Ids r)\<rparr>\<rparr>)"
proof -
  from assms(5,6) obtain t p where t: "gt_Transaction r = Some t"
    and p: "MarshalBinary E now_ms t = Some p"
    and msg: "msg = \<lparr>pb_PeerId = idb, pb_Tx = base58_Encode N (gt_Tx r),
              pb_Addresses = addrsToProtobuf (Addrs r), pb_Seq = Seq r,
              pb_Version = ucast (Version r), pb_GIds = Ids_MarshalBinary (gt_Ids r),
              pb_GTxv1 = p, pb_Txidmajor = TxIdMajor r, pb_Txidminor = TxIdMinor r,
              pb_Txidid = uuid_MarshalBinary E (TxIdId r)\<rparr>"
    by (auto simp: GrapeTx_ToProtobuf_def split: option.splits)
  have "UnmarshalBinary E p = Some t"
    using assms(1) p by (cases t)
      (auto simp: UnmarshalBinary_def Txv1_unmarshal_marshal EthTx_UnmarshalBinary_def
        Txv1_MarshalBinary_def EthTx_MarshalBinary_def ext_okD split: option.splits
        dest: Txv1_unmarshal_marshal [of E, unfolded Txv1_MarshalBinary_def])
  then show ?thesis
    using assms(1,2,3,4) t
    by (simp add: GrapeTxFromProtobuf_def msg Let_def Ids_roundtrip addrs_roundtrip)
qed

text \<open>
  Sequence numbers strictly increase: each call returns a number above every number handed out
  before, as long as the 64-bit counter is not exhausted, and never a number below the clock.
\<close>
lemma TimestampSeq_increasing:
  assumes "lastTimestamp \<noteq> - 1"
  shows "lastTimestamp < TimestampSeq lastTimestamp now \<and> now \<le> TimestampSeq lastTimestamp now"
proof -
  from assms have "lastTimestamp < lastTimestamp + 1"
    by (rule word_less_succ)
  then show ?thesis by (auto simp: TimestampSeq_def)
qed

text \<open>
  Synchronisation messages: the binary form is a faithful round trip, while the record form used
  when a message is sealed into an envelope keeps every field except the hash, which comes back
  empty.
\<close>
lemma sync_message_roundtrip:
  assumes "ext_ok E"
  shows "Syncv1_UnmarshalBinary E (Syncv1_MarshalBinary E s) = s \<and>
         Syncv1FromProtobuf E (Syncv1_ToProtobuf E s) = s\<lparr>SyncHash := []\<rparr>"
  using assms
  by (simp add: Syncv1_UnmarshalBinary_def Syncv1_MarshalBinary_def Syncv1FromProtobuf_def
      Syncv1_ToProtobuf_def ext_okD uuid_assign_def)

end
