(* ===== verification/Vm_Storage.thy ===== *)
theory Vm_Storage
  imports Transactions
begin

text \<open>
  The state store of the smart-contract machine: \<^verbatim>\<open>src/vm/server.go\<close>. The record \<open>Storage\<close> is the
  struct of the same name; the methods of \<^verbatim>\<open>Storage\<close>, of the gRPC server and the package functions
  are state transformers on it. Each server method holds the server's mutex for its whole body and
  is one atomic step. \<open>None\<close> is a panic. The wall clock is an argument where the source reads it.

  The second half shows that the undo log is correct: a checkpoint followed by any well-bracketed
  sequence of operations and a revert restores accounts and contract storage, nested checkpoints
  included, and the captured differences always describe the current store.
\<close>

section \<open>Data\<close>

record StoredAccount =
  sa_Address :: string
  sa_PublicKey :: string
  sa_Balance :: string
  sa_Nonce :: string
  sa_CodeHash :: string
  sa_Code :: string
  sa_Created :: time

definition StoredAccount_IsEmpty :: "StoredAccount \<Rightarrow> bool" where
  "StoredAccount_IsEmpty sa \<longleftrightarrow> sa_Nonce sa = []"

definition StoredAccount_AddressBytes :: "StoredAccount \<Rightarrow> bytes option" where
  "StoredAccount_AddressBytes sa =
     (case hexDecode (sa_Address sa) of (bs, None) \<Rightarrow> Some bs | (_, Some _) \<Rightarrow> None)"

record Log =
  l_ContractAddress :: bytes
  l_Topics :: "bytes list"
  l_Data :: bytes
  l_PinTxNumber :: int
  l_TransactionHash :: bytes

record Mapping =
  m_Address :: bytes
  m_Key :: bytes
  m_Value :: bytes

text \<open>A difference or a modification holds exactly one of its two pointers.\<close>

datatype Diff = DiffAccount StoredAccount | DiffMapping Mapping
datatype Modification = ModMapping string string bytes | ModAccount StoredAccount

fun HasAccount :: "Diff \<Rightarrow> bool" where
  "HasAccount (DiffAccount _) = True"
| "HasAccount (DiffMapping _) = False"

record Diffs =
  accountDiffs :: "string \<rightharpoonup> StoredAccount"
  mappingDiffs :: "string \<rightharpoonup> Mapping"

record Storage =
  mappings :: "string \<rightharpoonup> (string \<rightharpoonup> bytes)"
  accounts :: "string \<rightharpoonup> StoredAccount"
  logs :: "string \<rightharpoonup> Log list"
  checkPoints :: "nat list"
  modifications :: "Modification list"
  collectDiffs :: bool
  diffs :: Diffs

definition emptyArray :: bytes where
  "emptyArray = replicate 32 0"

definition emptyDiffs :: Diffs where
  "emptyDiffs = \<lparr>accountDiffs = Map.empty, mappingDiffs = Map.empty\<rparr>"

definition NewStorage :: Storage where
  "NewStorage =
     \<lparr>mappings = Map.empty, accounts = Map.empty, logs = Map.empty, checkPoints = [],
      modifications = [], collectDiffs = False, diffs = emptyDiffs\<rparr>"

section \<open>\<^verbatim>\<open>Diffs\<close>\<close>

definition mappingKey :: "bytes \<Rightarrow> bytes \<Rightarrow> string" where
  "mappingKey address key = hexEncode address @ '':'' @ hexEncode key"

definition Diffs_reset :: "Diffs \<Rightarrow> Diffs" where
  "Diffs_reset d =
     d\<lparr>accountDiffs := (\<lambda>k. if k \<in> dom (accountDiffs d) then None else accountDiffs d k),
       mappingDiffs := (\<lambda>k. if k \<in> dom (mappingDiffs d) then None else mappingDiffs d k)\<rparr>"

definition Diffs_putAccount :: "StoredAccount \<Rightarrow> Diffs \<Rightarrow> Diffs" where
  "Diffs_putAccount s d = d\<lparr>accountDiffs := (accountDiffs d)(sa_Address s \<mapsto> s)\<rparr>"

definition Diffs_removeAccount :: "StoredAccount \<Rightarrow> Diffs \<Rightarrow> Diffs" where
  "Diffs_removeAccount s d = d\<lparr>accountDiffs := (accountDiffs d)(sa_Address s := None)\<rparr>"

definition Diffs_removeMapping :: "bytes \<Rightarrow> bytes \<Rightarrow> Diffs \<Rightarrow> Diffs" where
  "Diffs_removeMapping address key d =
     d\<lparr>mappingDiffs := (mappingDiffs d)(mappingKey address key := None)\<rparr>"

definition Diffs_putMapping :: "bytes \<Rightarrow> bytes \<Rightarrow> bytes \<Rightarrow> Diffs \<Rightarrow> Diffs" where
  "Diffs_putMapping address key value d =
     d\<lparr>mappingDiffs := (mappingDiffs d)(mappingKey address key \<mapsto>
          \<lparr>m_Address = address, m_Key = key, m_Value = value\<rparr>)\<rparr>"

definition toDiffSlice :: "string visit_order \<Rightarrow> Diffs \<Rightarrow> Diff list" where
  "toDiffSlice ord d =
     map (\<lambda>k. DiffAccount (the (accountDiffs d k))) (ord (dom (accountDiffs d))) @
     map (\<lambda>k. DiffMapping (the (mappingDiffs d k))) (ord (dom (mappingDiffs d)))"

section \<open>\<^verbatim>\<open>Storage\<close>\<close>

definition Storage_getAccount :: "Storage \<Rightarrow> bytes \<Rightarrow> StoredAccount option" where
  "Storage_getAccount s address = accounts s (hexEncode address)"

definition Storage_getValue :: "Storage \<Rightarrow> bytes \<Rightarrow> bytes \<Rightarrow> bytes \<times> bool" where
  "Storage_getValue s address key =
     (case accounts s (hexEncode address) of
        None \<Rightarrow> (emptyArray, False)
      | Some account \<Rightarrow>
          (case mappings s (sa_Address account) of
             None \<Rightarrow> (emptyArray, False)
           | Some accountStore \<Rightarrow>
               (case accountStore (hexEncode key) of
                  None \<Rightarrow> (emptyArray, False)
                | Some value \<Rightarrow> (value, True))))"

definition Storage_putAccount :: "StoredAccount \<Rightarrow> Storage \<Rightarrow> Storage" where
  "Storage_putAccount account0 s =
     (let account = account0\<lparr>sa_Address := TrimPrefix (sa_Address account0) ''0x''\<rparr>;
          a = sa_Address account;
          modification =
            (case accounts s a of
               Some existingAccc \<Rightarrow> ModAccount existingAccc
             | None \<Rightarrow> ModAccount \<lparr>sa_Address = a, sa_PublicKey = [], sa_Balance = [],
                         sa_Nonce = [], sa_CodeHash = [], sa_Code = [],
                         sa_Created = goZeroTime\<rparr>);
          s1 = s\<lparr>accounts := (accounts s)(a \<mapsto> account)\<rparr>;
          s2 = (if collectDiffs s1 then s1\<lparr>diffs := Diffs_putAccount account (diffs s1)\<rparr> else s1);
          s3 = s2\<lparr>modifications := modification # modifications s2\<rparr> in
      if mappings s3 a = None
      then s3\<lparr>mappings := (mappings s3)(a \<mapsto> Map.empty), logs := (logs s3)(a \<mapsto> [])\<rparr>
      else s3)"

definition Storage_putValue :: "bytes \<Rightarrow> bytes \<Rightarrow> bytes \<Rightarrow> Storage \<Rightarrow> Storage" where
  "Storage_putValue address key value s =
     (let hexAddress = hexEncode address;
          keyHex = hexEncode key;
          s1 = (if accounts s hexAddress = None
                then Storage_putAccount
                       \<lparr>sa_Address = hexAddress, sa_PublicKey = [], sa_Balance = ''0'',
                        sa_Nonce = ''0'', sa_CodeHash = [], sa_Code = [],
                        sa_Created = goZeroTime\<rparr> s
                else s);
          s2 = (if mappings s1 hexAddress = None
                then s1\<lparr>mappings := (mappings s1)(hexAddress \<mapsto> Map.empty)\<rparr> else s1);
          accountStore = the (mappings s2 hexAddress);
          preValue = (case accountStore keyHex of None \<Rightarrow> emptyArray | Some v \<Rightarrow> v);
          s3 = s2\<lparr>modifications := ModMapping hexAddress keyHex preValue # modifications s2\<rparr>;
          s4 = s3\<lparr>mappings := (mappings s3)(hexAddress \<mapsto> accountStore(keyHex \<mapsto> value))\<rparr> in
      if collectDiffs s4 then s4\<lparr>diffs := Diffs_putMapping address key value (diffs s4)\<rparr> else s4)"

definition Storage_checkpoint :: "Storage \<Rightarrow> Storage" where
  "Storage_checkpoint s = s\<lparr>checkPoints := length (modifications s) # checkPoints s\<rparr>"

text \<open>One iteration of the loop of \<^verbatim>\<open>revert\<close>; writing to a missing inner map panics.\<close>

fun revert_one :: "Modification \<Rightarrow> Storage \<Rightarrow> Storage option" where
  "revert_one (ModMapping address key value) s =
     (case mappings s address of
        None \<Rightarrow> None
      | Some m \<Rightarrow>
          (let s1 = s\<lparr>mappings := (mappings s)(address \<mapsto> m(key \<mapsto> value))\<rparr> in
           Some (if collectDiffs s1 then
                   (let addressBytes = fst (hexDecode address); keyBytes = fst (hexDecode key) in
                    if value = emptyArray
                    then s1\<lparr>diffs := Diffs_removeMapping addressBytes keyBytes (diffs s1)\<rparr>
                    else s1\<lparr>diffs := Diffs_putMapping addressBytes keyBytes value (diffs s1)\<rparr>)
                 else s1)))"
| "revert_one (ModAccount acc) s =
     (if StoredAccount_IsEmpty acc then
        (let s1 = s\<lparr>accounts := (accounts s)(sa_Address acc := None)\<rparr> in
         Some (if collectDiffs s1 then s1\<lparr>diffs := Diffs_removeAccount acc (diffs s1)\<rparr> else s1))
      else
        (let s1 = s\<lparr>accounts := (accounts s)(sa_Address acc \<mapsto> acc)\<rparr> in
         Some (if collectDiffs s1 then s1\<lparr>diffs := Diffs_putAccount acc (diffs s1)\<rparr> else s1)))"

fun revert_all :: "Modification list \<Rightarrow> Storage \<Rightarrow> Storage option" where
  "revert_all [] s = Some s"
| "revert_all (m # ms) s =
     (case revert_one m s of None \<Rightarrow> None | Some s' \<Rightarrow> revert_all ms s')"

definition Storage_revert :: "Storage \<Rightarrow> Storage option" where
  "Storage_revert s =
     (case checkPoints s of
        [] \<Rightarrow> None
      | c # cs \<Rightarrow>
          if c > length (modifications s) then None
          else
            let n = length (modifications s) - c in
            map_option (\<lambda>s'. s'\<lparr>modifications := drop n (modifications s'), checkPoints := cs\<rparr>)
              (revert_all (take n (modifications s)) s))"

definition Storage_commit :: "Storage \<Rightarrow> Storage option" where
  "Storage_commit s = (case checkPoints s of [] \<Rightarrow> None | _ # cs \<Rightarrow> Some (s\<lparr>checkPoints := cs\<rparr>))"

text \<open>
  \<^verbatim>\<open>putLogs\<close>: the hash of the transaction being executed is an argument (\<open>None\<close> when there is none,
  whose use panics). The result is the error, if any, next to the state; logs stored before the
  failing one stay.
\<close>

record pb_Log =
  pbl_ContractAddress :: bytes
  pbl_Topics :: "bytes list"
  pbl_Data :: bytes
  pbl_Block :: int

definition Log_fromPb :: "bytes \<Rightarrow> pb_Log \<Rightarrow> Log" where
  "Log_fromPb execHash pbl =
     \<lparr>l_ContractAddress = pbl_ContractAddress pbl, l_Topics = pbl_Topics pbl,
      l_Data = pbl_Data pbl, l_PinTxNumber = pbl_Block pbl, l_TransactionHash = execHash\<rparr>"

datatype log_error = NoLogs | NoLogAccount string

fun putLogs_loop :: "bytes option \<Rightarrow> pb_Log list \<Rightarrow> Storage \<Rightarrow> (log_error option \<times> Storage) option" where
  "putLogs_loop h [] s = Some (None, s)"
| "putLogs_loop h (l # ls) s =
     (let addressString = hexEncode (pbl_ContractAddress l) in
      if accounts s addressString = None then Some (Some (NoLogAccount addressString), s)
      else
        (case h of
           None \<Rightarrow> None
         | Some execHash \<Rightarrow>
             let s1 = (if logs s addressString = None
                       then s\<lparr>logs := (logs s)(addressString \<mapsto> [])\<rparr> else s);
                 s2 = s1\<lparr>logs := (logs s1)(addressString \<mapsto>
                          the (logs s1 addressString) @ [Log_fromPb execHash l])\<rparr> in
             putLogs_loop h ls s2))"

definition Storage_putLogs :: "bytes option \<Rightarrow> pb_Log list \<Rightarrow> Storage \<Rightarrow> (log_error option \<times> Storage) option" where
  "Storage_putLogs h ls s = (if length ls = 0 then Some (Some NoLogs, s) else putLogs_loop h ls s)"

section \<open>The gRPC server and the package functions\<close>

text \<open>
  A string that is not a number leaves an undefined value in \<^verbatim>\<open>big.Int.SetString\<close>; it is read as 0
  here, and the invariant below shows that stored balances and nonces are always numbers.
\<close>

definition bigOf :: "string \<Rightarrow> int" where
  "bigOf s = (case parseInt s of Some i \<Rightarrow> i | None \<Rightarrow> 0)"

datatype vm_error = AccountMissing | NotEnoughFunds

text \<open>\<^verbatim>\<open>GetAccount\<close>: a nonce outside 64 bits or a malformed address panics (\<open>None\<close>).\<close>

record pb_Account =
  pba_Address :: bytes
  pba_Balance :: string
  pba_Nonce :: int
  pba_CodeHash :: string

definition Server_GetAccount :: "bytes \<Rightarrow> Storage \<Rightarrow> (vm_error + pb_Account) option" where
  "Server_GetAccount addr s =
     (case Storage_getAccount s addr of
        None \<Rightarrow> Some (Inl AccountMissing)
      | Some acc \<Rightarrow>
          (case (parseInt (sa_Nonce acc), StoredAccount_AddressBytes acc) of
             (Some n, Some ab) \<Rightarrow>
               if - (2 ^ 63) \<le> n \<and> n < 2 ^ 63
               then Some (Inr \<lparr>pba_Address = ab, pba_Balance = sa_Balance acc, pba_Nonce = n,
                               pba_CodeHash = sa_CodeHash acc\<rparr>)
               else None
           | _ \<Rightarrow> None))"

definition Storage_putAccountPb :: "pb_Account \<Rightarrow> Storage \<Rightarrow> Storage" where
  "Storage_putAccountPb account s =
     Storage_putAccount \<lparr>sa_Address = hexEncode (pba_Address account), sa_PublicKey = [],
       sa_Balance = pba_Balance account, sa_Nonce = intString (pba_Nonce account),
       sa_CodeHash = pba_CodeHash account, sa_Code = [], sa_Created = goZeroTime\<rparr> s"

definition Server_CreateAccount :: "time \<Rightarrow> bytes \<Rightarrow> Storage \<Rightarrow> Storage" where
  "Server_CreateAccount now addr s =
     Storage_putAccount \<lparr>sa_Address = hexEncode addr, sa_PublicKey = [], sa_Balance = ''0'',
       sa_Nonce = ''0'', sa_CodeHash = [], sa_Code = [], sa_Created = now\<rparr> s"

definition Server_PutContractCode ::
  "(bytes \<Rightarrow> bytes) \<Rightarrow> bytes \<Rightarrow> bytes \<Rightarrow> Storage \<Rightarrow> vm_error option \<times> Storage" where
  "Server_PutContractCode keccak256 addr bytecode s =
     (case Storage_getAccount s addr of
        None \<Rightarrow> (Some AccountMissing, s)
      | Some acc \<Rightarrow> (None, Storage_putAccount
           (acc\<lparr>sa_Code := hexEncode bytecode,
                sa_CodeHash := hexEncode (keccak256Hasher_Digest keccak256 bytecode NewSHA3Hasher)\<rparr>) s))"

definition Server_AddBalance :: "bytes \<Rightarrow> string \<Rightarrow> Storage \<Rightarrow> vm_error option \<times> Storage" where
  "Server_AddBalance addr amount s =
     (case Storage_getAccount s addr of
        None \<Rightarrow> (Some AccountMissing, s)
      | Some acc \<Rightarrow> (None, Storage_putAccount
           (acc\<lparr>sa_Balance := intString (bigOf (sa_Balance acc) + bigOf amount)\<rparr>) s))"

definition Server_SubBalance :: "bytes \<Rightarrow> string \<Rightarrow> Storage \<Rightarrow> vm_error option \<times> Storage" where
  "Server_SubBalance addr amount s =
     (case Storage_getAccount s addr of
        None \<Rightarrow> (Some AccountMissing, s)
      | Some acc \<Rightarrow> (None, Storage_putAccount
           (acc\<lparr>sa_Balance := intString (bigOf (sa_Balance acc) - bigOf amount)\<rparr>) s))"

definition Server_GetContractCode :: "bytes \<Rightarrow> Storage \<Rightarrow> bytes option" where
  "Server_GetContractCode addr s =
     map_option (\<lambda>acc. fst (hexDecode (sa_Code acc))) (Storage_getAccount s addr)"

definition Server_SetNonce :: "bytes \<Rightarrow> 64 word \<Rightarrow> Storage \<Rightarrow> vm_error option \<times> Storage" where
  "Server_SetNonce addr nonce s =
     (case Storage_getAccount s addr of
        None \<Rightarrow> (Some AccountMissing, s)
      | Some acc \<Rightarrow> (None, Storage_putAccount (acc\<lparr>sa_Nonce := intString (sint nonce)\<rparr>) s))"

definition NonceIncr :: "time \<Rightarrow> bytes \<Rightarrow> Storage \<Rightarrow> Storage" where
  "NonceIncr now account s =
     (case Storage_getAccount s account of
        None \<Rightarrow> Storage_putAccount \<lparr>sa_Address = hexEncode account, sa_PublicKey = [],
                  sa_Balance = ''0'', sa_Nonce = ''1'', sa_CodeHash = [], sa_Code = [],
                  sa_Created = now\<rparr> s
      | Some acc \<Rightarrow> Storage_putAccount (acc\<lparr>sa_Nonce := intString (bigOf (sa_Nonce acc) + 1)\<rparr>) s)"

definition CaptureStateStoreDiffs :: "Storage \<Rightarrow> Storage option" where
  "CaptureStateStoreDiffs s = (if collectDiffs s then None else Some (s\<lparr>collectDiffs := True\<rparr>))"

definition GetStateStoreDiffs :: "string visit_order \<Rightarrow> Storage \<Rightarrow> Diff list option" where
  "GetStateStoreDiffs ord s = (if \<not> collectDiffs s then None else Some (toDiffSlice ord (diffs s)))"

definition ResetCaptureStateStoreDiffs :: "Storage \<Rightarrow> Storage" where
  "ResetCaptureStateStoreDiffs s = s\<lparr>collectDiffs := False, diffs := Diffs_reset (diffs s)\<rparr>"

definition vm_SubBalance ::
  "(bytes \<Rightarrow> bytes) \<Rightarrow> bytes \<Rightarrow> int \<Rightarrow> Storage \<Rightarrow> (vm_error option \<times> Storage) option" where
  "vm_SubBalance keccak256 pubKey amount s =
     (case AddressFromPulicKey keccak256 pubKey of
        Inl _ \<Rightarrow> None
      | Inr address \<Rightarrow>
          (case AddressToBytes address of
             Inl _ \<Rightarrow> None
           | Inr ab \<Rightarrow>
               (case Storage_getAccount s ab of
                  None \<Rightarrow> Some (Some AccountMissing, s)
                | Some acc \<Rightarrow>
                    let balance = bigOf (sa_Balance acc) in
                    if balance < amount then Some (Some NotEnoughFunds, s)
                    else Some (None, Storage_putAccount
                           (acc\<lparr>sa_PublicKey := hexEncode pubKey,
                                sa_Balance := intString (balance - amount)\<rparr>) s))))"

definition IncrementNonce :: "string \<Rightarrow> Storage \<Rightarrow> (vm_error option \<times> Storage) option" where
  "IncrementNonce address s =
     (case AddressToBytes address of
        Inl _ \<Rightarrow> None
      | Inr ab \<Rightarrow>
          (case Storage_getAccount s ab of
             None \<Rightarrow> Some (Some AccountMissing, s)
           | Some acc \<Rightarrow> Some (None, Storage_putAccount
               (acc\<lparr>sa_Nonce := intString (bigOf (sa_Nonce acc) + 1)\<rparr>) s)))"

record LnAccount =
  ln_Id :: string
  ln_Balance :: int
  ln_Created :: time
  ln_Nonce :: int
  ln_PublicKey :: string

definition mapToLnAccount :: "StoredAccount \<Rightarrow> LnAccount" where
  "mapToLnAccount acc =
     \<lparr>ln_Id = sa_Address acc, ln_Balance = bigOf (sa_Balance acc), ln_Created = sa_Created acc,
      ln_Nonce = bigOf (sa_Nonce acc), ln_PublicKey = sa_PublicKey acc\<rparr>"

text \<open>The outer option is a panic on a malformed address, the inner one a missing account.\<close>

definition SearchAccount :: "Storage \<Rightarrow> string \<Rightarrow> LnAccount option option" where
  "SearchAccount s address =
     (case AddressToBytes address of
        Inl _ \<Rightarrow> None
      | Inr ab \<Rightarrow> Some (map_option mapToLnAccount (Storage_getAccount s ab)))"

definition keccak256NullHash :: string where
  "keccak256NullHash = ''c5d2460186f7233c927e7db2dcc703c0e500b653ca82273b7bfad8045d85a470''"

definition GetCodeHash :: "Storage \<Rightarrow> string \<Rightarrow> string option" where
  "GetCodeHash s address =
     (case AddressToBytes address of
        Inl _ \<Rightarrow> None
      | Inr ab \<Rightarrow> Some (case Storage_getAccount s ab of
                         None \<Rightarrow> keccak256NullHash | Some acc \<Rightarrow> sa_CodeHash acc))"

definition vm_GetContractCode :: "Storage \<Rightarrow> string \<Rightarrow> string option" where
  "vm_GetContractCode s address =
     (case AddressToBytes address of
        Inl _ \<Rightarrow> None
      | Inr ab \<Rightarrow> Some (case Storage_getAccount s ab of None \<Rightarrow> [] | Some acc \<Rightarrow> sa_Code acc))"

definition GetStorageAt :: "Storage \<Rightarrow> string \<Rightarrow> string \<Rightarrow> string option" where
  "GetStorageAt s address key =
     (case (AddressToBytes address, AddressToBytes key) of
        (Inr ab, Inr kb) \<Rightarrow>
          (case Storage_getValue s ab (LeftPadTo 32 kb) of
             (_, False) \<Rightarrow> Some (ZeroHex 32)
           | (value, True) \<Rightarrow> Some (''0x'' @ hexEncode value))
      | _ \<Rightarrow> None)"

definition IsSCAccount :: "Storage \<Rightarrow> string \<Rightarrow> bool option" where
  "IsSCAccount s walletId =
     (case hexDecode (TrimPrefix walletId ''0x'') of
        (_, Some _) \<Rightarrow> None
      | (idBytes, None) \<Rightarrow>
          Some (case Storage_getAccount s idBytes of
                  None \<Rightarrow> False | Some acc \<Rightarrow> sa_CodeHash acc \<noteq> []))"

text \<open>\<^verbatim>\<open>SyncBalances\<close>: one visit per wallet of the map, in any order.\<close>

definition syncBalance_one :: "time \<Rightarrow> string \<Rightarrow> bytes \<Rightarrow> Storage \<Rightarrow> Storage option" where
  "syncBalance_one now key value s =
     (case AddressToBytes key of
        Inl _ \<Rightarrow> None
      | Inr address \<Rightarrow>
          (let newBalance = intString (SetBytes value) in
           case Storage_getAccount s address of
             None \<Rightarrow> Some (Storage_putAccount
                \<lparr>sa_Address = key, sa_PublicKey = [], sa_Balance = newBalance, sa_Nonce = ''0'',
                 sa_CodeHash = [], sa_Code = [], sa_Created = now\<rparr> s)
           | Some account \<Rightarrow> Some (Storage_putAccount (account\<lparr>sa_Balance := newBalance\<rparr>) s)))"

fun syncBalances_loop :: "time \<Rightarrow> (string \<rightharpoonup> bytes) \<Rightarrow> string list \<Rightarrow> Storage \<Rightarrow> Storage option" where
  "syncBalances_loop now balances [] s = Some s"
| "syncBalances_loop now balances (k # ks) s =
     (case syncBalance_one now k (the (balances k)) s of
        None \<Rightarrow> None
      | Some s' \<Rightarrow> syncBalances_loop now balances ks s')"

definition SyncBalances ::
  "string visit_order \<Rightarrow> time \<Rightarrow> (string \<rightharpoonup> bytes) \<Rightarrow> Storage \<Rightarrow> Storage option" where
  "SyncBalances ord now balances s = syncBalances_loop now balances (ord (dom balances)) s"

definition DumpMappingDiffs :: "bytes \<Rightarrow> bytes \<Rightarrow> bytes \<Rightarrow> Storage \<Rightarrow> Storage option" where
  "DumpMappingDiffs address key value s =
     (case mappings s (hexEncode address) of
        None \<Rightarrow> None
      | Some m \<Rightarrow> Some (s\<lparr>mappings := (mappings s)(hexEncode address \<mapsto> m(hexEncode key \<mapsto> value))\<rparr>))"

section \<open>Log search\<close>

record SearchLogRequest =
  slr_Address :: string
  slr_Topics :: "string list"
  slr_Limit :: int
  slr_Offset :: int
  slr_PinFrom :: int
  slr_PinTo :: int

fun topics_match :: "string list \<Rightarrow> bytes list \<Rightarrow> bool" where
  "topics_match [] ts = True"
| "topics_match (r # rs) ts =
     (if r = ''null'' then topics_match rs (drop 1 ts)
      else (case ts of
              [] \<Rightarrow> False
            | t # ts' \<Rightarrow> if TrimPrefix r ''0x'' \<noteq> hexEncode t then False else topics_match rs ts'))"

definition log_matches :: "SearchLogRequest \<Rightarrow> Log \<Rightarrow> bool" where
  "log_matches r l =
     (if l_PinTxNumber l > slr_PinTo r \<or> l_PinTxNumber l < slr_PinFrom r then False
      else topics_match (slr_Topics r) (l_Topics l))"

text \<open>Slicing with a negative offset or limit panics.\<close>

definition paginate :: "int \<Rightarrow> int \<Rightarrow> 'a list \<Rightarrow> 'a list option" where
  "paginate offset limit xs =
     (if int (length xs) \<le> offset then Some []
      else if offset < 0 then None
      else
        let ys = drop (nat offset) xs in
        if int (length ys) < limit then Some ys
        else if limit < 0 then None
        else Some (take (nat limit) ys))"

definition SearchLogs :: "Storage \<Rightarrow> SearchLogRequest \<Rightarrow> Log list option" where
  "SearchLogs s r =
     (case logs s (TrimPrefix (slr_Address r) ''0x'') of
        None \<Rightarrow> Some []
      | Some logsForContract \<Rightarrow>
          paginate (slr_Offset r) (slr_Limit r) (filter (log_matches r) (rev logsForContract)))"

definition GetLogsForTx :: "string visit_order \<Rightarrow> Storage \<Rightarrow> bytes \<Rightarrow> Log list" where
  "GetLogsForTx ord s hash =
     concat (map (\<lambda>k. filter (\<lambda>l. l_TransactionHash l = hash) (the (logs s k))) (ord (dom (logs s))))"

text \<open>
  \<^verbatim>\<open>SearchAccounts\<close>: all accounts in creation order (or the reverse), then a page of them. The sort
  is stable.
\<close>

definition SearchAccounts ::
  "string visit_order \<Rightarrow> Storage \<Rightarrow> int \<Rightarrow> int \<Rightarrow> bool \<Rightarrow> LnAccount list option" where
  "SearchAccounts ord s limit offset ascSort =
     (let accsArray = map (\<lambda>k. mapToLnAccount (the (accounts s k))) (ord (dom (accounts s)));
          sorted = (if ascSort then sort_key ln_Created accsArray
                    else sort_key (\<lambda>a. - ln_Created a) accsArray) in
      paginate offset limit sorted)"

section \<open>Well-formed stores\<close>

text \<open>
  The invariant: an account is stored under its own address, its balance and nonce are numbers (so
  it is never mistaken for the empty account), it has a contract storage, and every recorded
  modification refers to an existing contract storage.
\<close>

definition account_ok :: "StoredAccount \<Rightarrow> bool" where
  "account_ok acc \<longleftrightarrow> parseInt (sa_Nonce acc) \<noteq> None \<and> parseInt (sa_Balance acc) \<noteq> None"

definition accounts_ok :: "Storage \<Rightarrow> bool" where
  "accounts_ok s \<longleftrightarrow>
     (\<forall>a acc. accounts s a = Some acc \<longrightarrow>
        sa_Address acc = a \<and> account_ok acc \<and> mappings s a \<noteq> None)"

fun mod_ok :: "Storage \<Rightarrow> Modification \<Rightarrow> bool" where
  "mod_ok s (ModMapping a k v) \<longleftrightarrow> mappings s a \<noteq> None"
| "mod_ok s (ModAccount acc) \<longleftrightarrow>
     (StoredAccount_IsEmpty acc \<or> account_ok acc) \<and> mappings s (sa_Address acc) \<noteq> None"

definition storage_ok :: "Storage \<Rightarrow> bool" where
  "storage_ok s \<longleftrightarrow> accounts_ok s \<and> (\<forall>m \<in> set (modifications s). mod_ok s m)"

lemma storage_ok_New [simp]: "storage_ok NewStorage"
  by (simp add: storage_ok_def accounts_ok_def NewStorage_def)

lemma account_ok_not_empty: "account_ok acc \<Longrightarrow> \<not> StoredAccount_IsEmpty acc"
  by (auto simp: account_ok_def StoredAccount_IsEmpty_def parseInt_def)

lemma TrimPrefix_hexEncode [simp]: "TrimPrefix (hexEncode b) ''0x'' = hexEncode b"
proof (cases b)
  case Nil
  then show ?thesis by (simp add: TrimPrefix_def)
next
  case (Cons x xs)
  have "\<not> lowerHexChar CHR ''x''" by (simp add: lowerHexChar_def)
  then have "hexDigit (unat x mod 16) \<noteq> CHR ''x''"
    using lowerHexChar_hexDigit [OF nibbles_byte(2) [of x]] by metis
  then show ?thesis using Cons by (auto simp: TrimPrefix_def)
qed

text \<open>The parts of the store a put touches.\<close>

definition blankAccount :: "string \<Rightarrow> StoredAccount" where
  "blankAccount a = \<lparr>sa_Address = a, sa_PublicKey = [], sa_Balance = [], sa_Nonce = [],
     sa_CodeHash = [], sa_Code = [], sa_Created = goZeroTime\<rparr>"

lemma blankAccount_simps [simp]:
  "sa_Address (blankAccount a) = a" "StoredAccount_IsEmpty (blankAccount a)"
  by (simp_all add: blankAccount_def StoredAccount_IsEmpty_def)

abbreviation (input) trimmed :: "StoredAccount \<Rightarrow> string" where
  "trimmed acc \<equiv> TrimPrefix (sa_Address acc) ''0x''"

lemma putAccount_fields:
  "modifications (Storage_putAccount acc s) =
     ModAccount (case accounts s (trimmed acc) of Some old \<Rightarrow> old
                   | None \<Rightarrow> blankAccount (trimmed acc)) # modifications s"
  "checkPoints (Storage_putAccount acc s) = checkPoints s"
  "accounts (Storage_putAccount acc s) =
     (accounts s)(trimmed acc \<mapsto> acc\<lparr>sa_Address := trimmed acc\<rparr>)"
  "mappings (Storage_putAccount acc s) =
     (if mappings s (trimmed acc) = None
      then (mappings s)(trimmed acc \<mapsto> Map.empty) else mappings s)"
  "collectDiffs (Storage_putAccount acc s) = collectDiffs s"
  "diffs (Storage_putAccount acc s) =
     (if collectDiffs s then Diffs_putAccount (acc\<lparr>sa_Address := trimmed acc\<rparr>) (diffs s)
      else diffs s)"
  by (auto simp: Storage_putAccount_def Let_def blankAccount_def split: option.splits)

text \<open>A modification stays well-formed while contract storages are only added or updated.\<close>

lemma mod_ok_mono: "mod_ok s m \<Longrightarrow> dom (mappings s) \<subseteq> dom (mappings s') \<Longrightarrow> mod_ok s' m"
  by (cases m) (auto simp: dom_def)

lemma putAccount_dom: "dom (mappings s) \<subseteq> dom (mappings (Storage_putAccount acc s))"
  by (auto simp: putAccount_fields)

lemma putAccount_ok [inv_intros]:
  assumes "storage_ok s" and "account_ok acc"
  shows "storage_ok (Storage_putAccount acc s)"
proof -
  have acc: "accounts_ok (Storage_putAccount acc s)"
    using assms by (auto simp: storage_ok_def accounts_ok_def account_ok_def putAccount_fields)
  have "mod_ok (Storage_putAccount acc s) m" if "m \<in> set (modifications s)" for m
    using assms(1) that mod_ok_mono [OF _ putAccount_dom] by (auto simp: storage_ok_def)
  moreover have "mod_ok (Storage_putAccount acc s)
      (ModAccount (case accounts s (trimmed acc) of Some old \<Rightarrow> old | None \<Rightarrow> blankAccount (trimmed acc)))"
    using assms(1)
    by (auto simp: storage_ok_def accounts_ok_def putAccount_fields split: option.splits)
  ultimately show ?thesis using acc by (simp add: storage_ok_def putAccount_fields(1))
qed

section \<open>Checkpoints: the undo log implements a stack of snapshots\<close>

text \<open>
  What a client of the store can read: the accounts, and the contract storage with unset slots
  reading as 32 zero bytes.
\<close>

type_synonym store_view = "(string \<rightharpoonup> StoredAccount) \<times> (string \<Rightarrow> string \<Rightarrow> bytes)"

definition readMap :: "Storage \<Rightarrow> string \<Rightarrow> string \<Rightarrow> bytes" where
  "readMap s a k =
     (case mappings s a of
        None \<Rightarrow> emptyArray
      | Some m \<Rightarrow> (case m k of None \<Rightarrow> emptyArray | Some v \<Rightarrow> v))"

definition view :: "Storage \<Rightarrow> store_view" where
  "view s = (accounts s, readMap s)"

fun undo1 :: "Modification \<Rightarrow> store_view \<Rightarrow> store_view" where
  "undo1 (ModMapping a k v) (A, R) = (A, R(a := (R a)(k := v)))"
| "undo1 (ModAccount acc) (A, R) =
     (if StoredAccount_IsEmpty acc then A(sa_Address acc := None) else A(sa_Address acc \<mapsto> acc), R)"

definition undo :: "Modification list \<Rightarrow> store_view \<Rightarrow> store_view" where
  "undo ms = fold undo1 ms"

definition snapshot :: "Storage \<Rightarrow> nat \<Rightarrow> store_view" where
  "snapshot s c = undo (take (length (modifications s) - c) (modifications s)) (view s)"

definition snapshots :: "Storage \<Rightarrow> store_view list" where
  "snapshots s = map (snapshot s) (checkPoints s)"

definition checkpoints_ok :: "Storage \<Rightarrow> bool" where
  "checkpoints_ok s \<longleftrightarrow>
     (\<forall>c \<in> set (checkPoints s). c \<le> length (modifications s)) \<and> sorted_wrt (\<ge>) (checkPoints s)"

definition store_inv :: "Storage \<Rightarrow> bool" where
  "store_inv s \<longleftrightarrow> storage_ok s \<and> checkpoints_ok s"

text \<open>The two operations that write, and when they are used as the server uses them.\<close>

datatype store_update = PutAccount StoredAccount | PutValue bytes bytes bytes

fun update_ok :: "store_update \<Rightarrow> bool" where
  "update_ok (PutAccount acc) \<longleftrightarrow> account_ok acc"
| "update_ok (PutValue a k v) \<longleftrightarrow> True"

fun apply_update :: "store_update \<Rightarrow> Storage \<Rightarrow> Storage" where
  "apply_update (PutAccount acc) s = Storage_putAccount acc s"
| "apply_update (PutValue a k v) s = Storage_putValue a k v s"

text \<open>Operation sequences over any store with checkpoints, and the well-bracketed ones.\<close>

datatype 'o store_op = Update 'o | Checkpoint | Commit | Revert

fun run_ops :: "('o \<Rightarrow> 's \<Rightarrow> 's) \<Rightarrow> ('s \<Rightarrow> 's) \<Rightarrow> ('s \<Rightarrow> 's option) \<Rightarrow> ('s \<Rightarrow> 's option) \<Rightarrow>
    'o store_op list \<Rightarrow> 's \<Rightarrow> 's option" where
  "run_ops upd cp com rvt [] s = Some s"
| "run_ops upd cp com rvt (Update u # ops) s = run_ops upd cp com rvt ops (upd u s)"
| "run_ops upd cp com rvt (Checkpoint # ops) s = run_ops upd cp com rvt ops (cp s)"
| "run_ops upd cp com rvt (Commit # ops) s = Option.bind (com s) (run_ops upd cp com rvt ops)"
| "run_ops upd cp com rvt (Revert # ops) s = Option.bind (rvt s) (run_ops upd cp com rvt ops)"

inductive bracketed :: "('o \<Rightarrow> bool) \<Rightarrow> 'o store_op list \<Rightarrow> bool" for ok where
  bracketed_Nil: "bracketed ok []"
| bracketed_update: "ok u \<Longrightarrow> bracketed ok [Update u]"
| bracketed_commit: "bracketed ok ops \<Longrightarrow> bracketed ok (Checkpoint # ops @ [Commit])"
| bracketed_revert: "bracketed ok ops \<Longrightarrow> bracketed ok (Checkpoint # ops @ [Revert])"
| bracketed_append: "bracketed ok ops \<Longrightarrow> bracketed ok ops' \<Longrightarrow> bracketed ok (ops @ ops')"

lemma run_ops_append:
  "run_ops upd cp com rvt (ops @ ops') s =
     Option.bind (run_ops upd cp com rvt ops s) (run_ops upd cp com rvt ops')"
  by (induction upd cp com rvt ops s rule: run_ops.induct) (auto split: bind_splits)

text \<open>
  The contract of a store with nested checkpoints: a stack of snapshots, pushed by a checkpoint,
  dropped by a commit and restored by a revert, and untouched by updates.
\<close>

locale snapshot_store =
  fixes inv :: "'s \<Rightarrow> bool" and see :: "'s \<Rightarrow> 'v" and stack :: "'s \<Rightarrow> 'v list"
    and ok :: "'o \<Rightarrow> bool" and upd :: "'o \<Rightarrow> 's \<Rightarrow> 's" and cp :: "'s \<Rightarrow> 's"
    and com :: "'s \<Rightarrow> 's option" and rvt :: "'s \<Rightarrow> 's option"
  assumes update_law: "inv s \<Longrightarrow> ok u \<Longrightarrow> inv (upd u s) \<and> stack (upd u s) = stack s"
    and checkpoint_law: "inv s \<Longrightarrow> inv (cp s) \<and> see (cp s) = see s \<and> stack (cp s) = see s # stack s"
    and commit_law: "inv s \<Longrightarrow> stack s = w # ws \<Longrightarrow>
        \<exists>s'. com s = Some s' \<and> inv s' \<and> see s' = see s \<and> stack s' = ws"
    and revert_law: "inv s \<Longrightarrow> stack s = w # ws \<Longrightarrow>
        \<exists>s'. rvt s = Some s' \<and> inv s' \<and> see s' = w \<and> stack s' = ws"
begin

lemma bracketed_keeps_stack:
  assumes "bracketed ok ops" and "inv s"
  shows "\<exists>s'. run_ops upd cp com rvt ops s = Some s' \<and> inv s' \<and> stack s' = stack s"
  using assms
proof (induction arbitrary: s rule: bracketed.induct)
  case bracketed_Nil
  then show ?case by simp
next
  case (bracketed_update u)
  then show ?case using update_law by auto
next
  case (bracketed_commit ops)
  obtain t where t: "run_ops upd cp com rvt ops (cp s) = Some t" "inv t" "stack t = see s # stack s"
    using bracketed_commit.IH [of "cp s"] checkpoint_law [OF bracketed_commit.prems] by auto
  then show ?case using commit_law [OF t(2,3)] by (auto simp: run_ops_append)
next
  case (bracketed_revert ops)
  obtain t where t: "run_ops upd cp com rvt ops (cp s) = Some t" "inv t" "stack t = see s # stack s"
    using bracketed_revert.IH [of "cp s"] checkpoint_law [OF bracketed_revert.prems] by auto
  then show ?case using revert_law [OF t(2,3)] by (auto simp: run_ops_append)
next
  case (bracketed_append ops ops')
  then show ?case by (fastforce simp: run_ops_append)
qed

lemma revert_restores_view:
  assumes "bracketed ok ops" and "inv s"
  shows "\<exists>s'. run_ops upd cp com rvt (Checkpoint # ops @ [Revert]) s = Some s' \<and> inv s' \<and>
              see s' = see s \<and> stack s' = stack s"
proof -
  obtain t where t: "run_ops upd cp com rvt ops (cp s) = Some t" "inv t" "stack t = see s # stack s"
    using bracketed_keeps_stack [OF assms(1), of "cp s"] checkpoint_law [OF assms(2)] by auto
  then show ?thesis using revert_law [OF t(2,3)] by (auto simp: run_ops_append)
qed

end

section \<open>The store fulfils the contract\<close>

lemma undo_append: "undo (ms @ ms') v = undo ms' (undo ms v)"
  by (simp add: undo_def)

lemma undo_Cons: "undo (m # ms) v = undo ms (undo1 m v)"
  by (simp add: undo_def)

lemma readMap_putAccount [simp]: "readMap (Storage_putAccount acc s) = readMap s"
  by (intro ext) (auto simp: readMap_def putAccount_fields)

lemma undo_putAccount:
  assumes "accounts_ok s"
  shows "undo1 (ModAccount (case accounts s (trimmed acc) of Some old \<Rightarrow> old
             | None \<Rightarrow> blankAccount (trimmed acc))) (view (Storage_putAccount acc s)) = view s"
proof (cases "accounts s (trimmed acc)")
  case None
  then show ?thesis by (auto simp: view_def putAccount_fields)
next
  case (Some old)
  with assms have "sa_Address old = trimmed acc" "account_ok old" by (auto simp: accounts_ok_def)
  with Some show ?thesis
    by (auto simp: view_def putAccount_fields account_ok_not_empty)
qed

text \<open>The state \<^verbatim>\<open>putValue\<close> works on once the account exists.\<close>

definition with_account :: "bytes \<Rightarrow> Storage \<Rightarrow> Storage" where
  "with_account address s =
     (if accounts s (hexEncode address) = None
      then Storage_putAccount \<lparr>sa_Address = hexEncode address, sa_PublicKey = [],
             sa_Balance = ''0'', sa_Nonce = ''0'', sa_CodeHash = [], sa_Code = [],
             sa_Created = goZeroTime\<rparr> s
      else s)"

lemma zero_account_ok: "account_ok (acc\<lparr>sa_Balance := ''0'', sa_Nonce := ''0''\<rparr>)"
  by (simp add: account_ok_def parseInt_def parseNat_def decValue_def)

lemma with_account_ok: "storage_ok s \<Longrightarrow> storage_ok (with_account address s)"
  unfolding with_account_def
  by (auto intro!: putAccount_ok simp: account_ok_def parseInt_def parseNat_def decValue_def)

lemma with_account_exists:
  "storage_ok s \<Longrightarrow> \<exists>acc m. accounts (with_account address s) (hexEncode address) = Some acc \<and>
     mappings (with_account address s) (hexEncode address) = Some m"
  using with_account_ok [of s address]
  by (cases "accounts s (hexEncode address)")
    (auto simp: with_account_def putAccount_fields storage_ok_def accounts_ok_def)

lemma putValue_eq:
  assumes "mappings (with_account address s) (hexEncode address) = Some m"
  shows "Storage_putValue address key value s =
    (let w = with_account address s in
     w\<lparr>modifications := ModMapping (hexEncode address) (hexEncode key)
           (readMap w (hexEncode address) (hexEncode key)) # modifications w,
       mappings := (mappings w)(hexEncode address \<mapsto> m(hexEncode key \<mapsto> value)),
       diffs := (if collectDiffs w then Diffs_putMapping address key value (diffs w) else diffs w)\<rparr>)"
  using assms
  by (simp add: Storage_putValue_def Let_def with_account_def [symmetric] readMap_def)

text \<open>An operation \<^emph>\<open>logs its undo\<close> when the modifications it prepends take the view back.\<close>

definition logs_undo :: "Storage \<Rightarrow> Storage \<Rightarrow> bool" where
  "logs_undo s s' \<longleftrightarrow>
     checkPoints s' = checkPoints s \<and>
     (\<exists>new. modifications s' = new @ modifications s \<and> undo new (view s') = view s)"

lemma logs_undo_refl: "logs_undo s s"
  by (simp add: logs_undo_def undo_def)

lemma logs_undo_trans:
  assumes "logs_undo s s'" and "logs_undo s' s''"
  shows "logs_undo s s''"
proof -
  obtain n1 n2 where "modifications s' = n1 @ modifications s" "undo n1 (view s') = view s"
    "modifications s'' = n2 @ modifications s'" "undo n2 (view s'') = view s'"
    using assms unfolding logs_undo_def by blast
  then have "modifications s'' = (n2 @ n1) @ modifications s" "undo (n2 @ n1) (view s'') = view s"
    by (simp_all add: undo_append)
  then show ?thesis using assms unfolding logs_undo_def by metis
qed

lemma putAccount_logs_undo: "accounts_ok s \<Longrightarrow> logs_undo s (Storage_putAccount acc s)"
  unfolding logs_undo_def
  by (intro conjI exI [of _ "[ModAccount (case accounts s (trimmed acc) of Some old \<Rightarrow> old
        | None \<Rightarrow> blankAccount (trimmed acc))]"])
    (simp_all add: putAccount_fields undo_Cons undo_putAccount undo_def)

lemma with_account_logs_undo: "accounts_ok s \<Longrightarrow> logs_undo s (with_account a s)"
  by (auto simp: with_account_def intro: putAccount_logs_undo logs_undo_refl)

lemma putValue_logs_undo:
  assumes "storage_ok s"
  shows "logs_undo s (Storage_putValue address key value s)"
proof -
  let ?w = "with_account address s"
  obtain m where m: "mappings ?w (hexEncode address) = Some m"
    using with_account_exists [OF assms] by blast
  have "logs_undo ?w (Storage_putValue address key value s)"
    unfolding logs_undo_def putValue_eq [OF m] Let_def
    by (intro conjI exI [of _ "[ModMapping (hexEncode address) (hexEncode key)
          (readMap ?w (hexEncode address) (hexEncode key))]"])
      (auto simp: undo_def view_def readMap_def m fun_eq_iff)
  moreover have "logs_undo s ?w"
    using assms by (simp add: with_account_logs_undo storage_ok_def)
  ultimately show ?thesis by (blast intro: logs_undo_trans)
qed

lemma putValue_ok [inv_intros]:
  assumes "storage_ok s"
  shows "storage_ok (Storage_putValue address key value s)"
proof -
  let ?w = "with_account address s"
  obtain m where m: "mappings ?w (hexEncode address) = Some m"
    using with_account_exists [OF assms] by blast
  have w: "storage_ok ?w" using with_account_ok [OF assms] .
  have dom: "dom (mappings ?w) \<subseteq> dom (mappings (Storage_putValue address key value s))"
    by (auto simp: putValue_eq [OF m] Let_def)
  have "accounts_ok (Storage_putValue address key value s)"
    using w dom by (auto simp: storage_ok_def accounts_ok_def putValue_eq [OF m] Let_def)
  moreover have "mod_ok (Storage_putValue address key value s) md"
    if "md \<in> set (modifications (Storage_putValue address key value s))" for md
    using that w mod_ok_mono [OF _ dom]
    by (auto simp: storage_ok_def putValue_eq [OF m] Let_def m)
  ultimately show ?thesis by (simp add: storage_ok_def)
qed

lemma apply_update_ok [inv_intros]:
  "storage_ok s \<Longrightarrow> update_ok u \<Longrightarrow> storage_ok (apply_update u s)"
  by (cases u) (simp_all add: putAccount_ok putValue_ok)

lemma apply_update_logs_undo: "storage_ok s \<Longrightarrow> logs_undo s (apply_update u s)"
  by (cases u) (simp_all add: putAccount_logs_undo putValue_logs_undo storage_ok_def)

lemma logs_undo_snapshots:
  assumes "logs_undo s s'" and "checkpoints_ok s"
  shows "snapshots s' = snapshots s" and "checkpoints_ok s'"
proof -
  obtain new where new: "modifications s' = new @ modifications s" "undo new (view s') = view s"
    and cp: "checkPoints s' = checkPoints s"
    using assms(1) unfolding logs_undo_def by blast
  have "snapshot s' c = snapshot s c" if "c \<in> set (checkPoints s)" for c
  proof -
    have c: "c \<le> length (modifications s)" using assms(2) that by (simp add: checkpoints_ok_def)
    then have "take (length (modifications s') - c) (modifications s') =
               new @ take (length (modifications s) - c) (modifications s)"
      by (simp add: new)
    then show ?thesis by (simp add: snapshot_def undo_append new(2))
  qed
  then show "snapshots s' = snapshots s" by (simp add: snapshots_def cp)
  show "checkpoints_ok s'" using assms(2) by (auto simp: checkpoints_ok_def cp new)
qed

lemma revert_one_view:
  assumes "mod_ok s m" and "accounts_ok s"
  shows "\<exists>s'. revert_one m s = Some s' \<and> view s' = undo1 m (view s) \<and> accounts_ok s' \<and>
              modifications s' = modifications s \<and> checkPoints s' = checkPoints s \<and>
              dom (mappings s') = dom (mappings s)"
proof (cases m)
  case (ModMapping a k v)
  with assms(1) obtain mp where mp: "mappings s a = Some mp" by auto
  then obtain s' where s': "revert_one m s = Some s'" "accounts s' = accounts s"
    "mappings s' = (mappings s)(a \<mapsto> mp(k \<mapsto> v))" "modifications s' = modifications s"
    "checkPoints s' = checkPoints s"
    using ModMapping by (auto simp: Let_def)
  have "view s' = undo1 m (view s)"
    using mp by (auto simp: ModMapping view_def readMap_def s' fun_eq_iff)
  moreover have "accounts_ok s'" using assms(2) by (auto simp: accounts_ok_def s')
  moreover have "dom (mappings s') = dom (mappings s)" using mp by (auto simp: s')
  ultimately show ?thesis using s' by blast
next
  case (ModAccount acc)
  with assms show ?thesis
    by (auto simp: Let_def view_def readMap_def [abs_def] accounts_ok_def dom_def)
qed

lemma revert_all_view:
  assumes "\<forall>m \<in> set ms. mod_ok s m" and "accounts_ok s"
  shows "\<exists>s'. revert_all ms s = Some s' \<and> view s' = undo ms (view s) \<and> accounts_ok s' \<and>
              modifications s' = modifications s \<and> checkPoints s' = checkPoints s \<and>
              dom (mappings s') = dom (mappings s)"
  using assms
proof (induction ms arbitrary: s)
  case Nil
  then show ?case by (simp add: undo_def)
next
  case (Cons m ms)
  obtain t where t: "revert_one m s = Some t" "view t = undo1 m (view s)" "accounts_ok t"
    "modifications t = modifications s" "checkPoints t = checkPoints s"
    "dom (mappings t) = dom (mappings s)"
    using revert_one_view [of s m] Cons.prems by auto
  have "\<forall>x \<in> set ms. mod_ok t x"
    using Cons.prems(1) t(6) by (metis list.set_intros(2) mod_ok_mono order_refl)
  from Cons.IH [OF this t(3)] t show ?case by (auto simp: undo_Cons)
qed

lemma Storage_revert_spec:
  assumes inv: "store_inv s" and st: "snapshots s = w # ws"
  shows "\<exists>s'. Storage_revert s = Some s' \<and> store_inv s' \<and> view s' = w \<and> snapshots s' = ws"
proof -
  obtain c cs where cp: "checkPoints s = c # cs" and w: "w = snapshot s c"
    and ws: "ws = map (snapshot s) cs"
    using st by (cases "checkPoints s") (auto simp: snapshots_def)
  let ?M = "modifications s"
  have c: "c \<le> length ?M" and cs: "\<forall>d \<in> set cs. d \<le> c" "sorted_wrt (\<ge>) cs"
    using inv cp by (auto simp: store_inv_def checkpoints_ok_def)
  obtain t where t: "revert_all (take (length ?M - c) ?M) s = Some t"
    "view t = w" "accounts_ok t" "modifications t = ?M" "checkPoints t = checkPoints s"
    "dom (mappings t) = dom (mappings s)"
    using revert_all_view [of "take (length ?M - c) ?M" s] inv w
    by (auto simp: store_inv_def storage_ok_def snapshot_def dest: in_set_takeD)
  let ?s' = "t\<lparr>modifications := drop (length ?M - c) ?M, checkPoints := cs\<rparr>"
  have vt: "view ?s' = w" using t(2) by (simp add: view_def readMap_def [abs_def])
  have "snapshot ?s' d = snapshot s d" if "d \<in> set cs" for d
  proof -
    have "d \<le> c" using cs(1) that by blast
    with c have "take (length ?M - d) ?M =
        take (length ?M - c) ?M @ take (c - d) (drop (length ?M - c) ?M)"
      by (simp add: take_add [symmetric])
    then show ?thesis using c vt w by (simp add: snapshot_def undo_append)
  qed
  then have "snapshots ?s' = ws" by (simp add: snapshots_def ws)
  moreover have "mod_ok ?s' m" if "m \<in> set (modifications ?s')" for m
  proof (rule mod_ok_mono)
    show "mod_ok s m"
      using that inv by (auto simp: store_inv_def storage_ok_def dest: in_set_dropD)
    show "dom (mappings s) \<subseteq> dom (mappings ?s')" using t(6) by simp
  qed
  then have "storage_ok ?s'" using t(3) by (simp add: storage_ok_def accounts_ok_def)
  moreover have "checkpoints_ok ?s'" using c cs by (auto simp: checkpoints_ok_def)
  moreover have "Storage_revert s = Some ?s'"
    using c by (simp add: Storage_revert_def cp t(1,4) Let_def)
  ultimately show ?thesis using vt by (auto simp: store_inv_def)
qed

interpretation vm_store: snapshot_store store_inv view snapshots update_ok apply_update
  Storage_checkpoint Storage_commit Storage_revert
proof
  show "store_inv (apply_update u s) \<and> snapshots (apply_update u s) = snapshots s"
    if "store_inv s" "update_ok u" for s u
    using that apply_update_ok logs_undo_snapshots [OF apply_update_logs_undo]
    by (auto simp: store_inv_def)
  show "store_inv (Storage_checkpoint s) \<and> view (Storage_checkpoint s) = view s \<and>
        snapshots (Storage_checkpoint s) = view s # snapshots s" if "store_inv s" for s
  proof -
    have "mod_ok (Storage_checkpoint s) m = mod_ok s m" for m
      by (cases m) (simp_all add: Storage_checkpoint_def)
    then show ?thesis
      using that
      by (auto simp: store_inv_def storage_ok_def accounts_ok_def checkpoints_ok_def
          Storage_checkpoint_def view_def readMap_def [abs_def] snapshots_def snapshot_def undo_def)
  qed
  show "\<exists>s'. Storage_commit s = Some s' \<and> store_inv s' \<and> view s' = view s \<and> snapshots s' = ws"
    if inv: "store_inv s" and st: "snapshots s = w # ws" for s w ws
  proof -
    obtain c cs where cp: "checkPoints s = c # cs" "ws = map (snapshot s) cs"
      using st by (cases "checkPoints s") (auto simp: snapshots_def)
    have "mod_ok (s\<lparr>checkPoints := cs\<rparr>) m = mod_ok s m" for m by (cases m) simp_all
    then show ?thesis
      using inv cp
      by (auto simp: Storage_commit_def store_inv_def storage_ok_def accounts_ok_def
          checkpoints_ok_def view_def readMap_def [abs_def] snapshots_def snapshot_def)
  qed
  show "\<exists>s'. Storage_revert s = Some s' \<and> store_inv s' \<and> view s' = w \<and> snapshots s' = ws"
    if "store_inv s" "snapshots s = w # ws" for s w ws
    using Storage_revert_spec [OF that] .
qed

section \<open>Captured differences describe the store\<close>

text \<open>
  A captured account is the stored account; a captured slot is filed under its own key and holds
  the stored value; and the undo log only names hexadecimal addresses and keys.
\<close>

definition mdiffs_ok :: "(string \<rightharpoonup> (string \<rightharpoonup> bytes)) \<Rightarrow> (string \<rightharpoonup> Mapping) \<Rightarrow> bool" where
  "mdiffs_ok M D \<longleftrightarrow>
     (\<forall>key m. D key = Some m \<longrightarrow>
        key = mappingKey (m_Address m) (m_Key m) \<and>
        (\<exists>mp. M (hexEncode (m_Address m)) = Some mp \<and>
              mp (hexEncode (m_Key m)) = Some (m_Value m)))"

fun mod_hex :: "Modification \<Rightarrow> bool" where
  "mod_hex (ModMapping a k v) \<longleftrightarrow> (\<exists>ab kb. a = hexEncode ab \<and> k = hexEncode kb)"
| "mod_hex (ModAccount acc) \<longleftrightarrow> True"

definition diffs_ok :: "Storage \<Rightarrow> bool" where
  "diffs_ok s \<longleftrightarrow>
     (\<not> collectDiffs s \<longrightarrow> diffs s = emptyDiffs) \<and>
     (\<forall>a acc. accountDiffs (diffs s) a = Some acc \<longrightarrow> accounts s a = Some acc) \<and>
     mdiffs_ok (mappings s) (mappingDiffs (diffs s)) \<and>
     (\<forall>md \<in> set (modifications s). mod_hex md)"

lemma colon_not_hex: "CHR '':'' \<notin> set (hexEncode b)"
  using hexEncode_lower [of b] by (auto simp: list_all_iff lowerHexChar_def)

lemma mappingKey_inject [simp]: "mappingKey a k = mappingKey a' k' \<longleftrightarrow> a = a' \<and> k = k'"
proof
  assume "mappingKey a k = mappingKey a' k'"
  then have eq: "hexEncode a @ CHR '':'' # hexEncode k = hexEncode a' @ CHR '':'' # hexEncode k'"
    by (simp add: mappingKey_def)
  have tw: "takeWhile (\<lambda>c. c \<noteq> CHR '':'') (hexEncode x @ CHR '':'' # ys) = hexEncode x" for x ys
    using colon_not_hex [of x] by (subst takeWhile_append2) auto
  have "hexEncode a = hexEncode a'" using arg_cong [OF eq, of "takeWhile (\<lambda>c. c \<noteq> CHR '':'')"] tw by simp
  with eq show "a = a' \<and> k = k'" by simp
qed simp

lemmas Diffs_defs = Diffs_putAccount_def Diffs_removeAccount_def Diffs_putMapping_def
  Diffs_removeMapping_def emptyDiffs_def

lemma mdiffs_ok_empty [simp]: "mdiffs_ok M Map.empty"
  by (simp add: mdiffs_ok_def)

lemma mdiffs_ok_new_account: "mdiffs_ok M D \<Longrightarrow> M a = None \<Longrightarrow> mdiffs_ok (M(a \<mapsto> m)) D"
  by (fastforce simp: mdiffs_ok_def)

lemma mdiffs_ok_put:
  assumes "mdiffs_ok M D" and "M (hexEncode a) = Some mp"
  shows "mdiffs_ok (M(hexEncode a \<mapsto> mp(hexEncode k \<mapsto> v)))
           (D(mappingKey a k \<mapsto> \<lparr>m_Address = a, m_Key = k, m_Value = v\<rparr>))"
  unfolding mdiffs_ok_def
proof (intro allI impI)
  fix key m
  assume d: "(D(mappingKey a k \<mapsto> \<lparr>m_Address = a, m_Key = k, m_Value = v\<rparr>)) key = Some m"
  show "key = mappingKey (m_Address m) (m_Key m) \<and>
    (\<exists>mp'. (M(hexEncode a \<mapsto> mp(hexEncode k \<mapsto> v))) (hexEncode (m_Address m)) = Some mp' \<and>
           mp' (hexEncode (m_Key m)) = Some (m_Value m))"
  proof (cases "key = mappingKey a k")
    case True
    with d show ?thesis by auto
  next
    case False
    with d assms show ?thesis by (fastforce simp: mdiffs_ok_def)
  qed
qed

lemma mdiffs_ok_remove:
  assumes "mdiffs_ok M D" and "M (hexEncode a) = Some mp"
  shows "mdiffs_ok (M(hexEncode a \<mapsto> mp(hexEncode k \<mapsto> v))) (D(mappingKey a k := None))"
  using mdiffs_ok_put [OF assms, of k v] unfolding mdiffs_ok_def by (auto split: if_splits)

lemma diffs_ok_New [simp]: "diffs_ok NewStorage"
  by (simp add: diffs_ok_def NewStorage_def emptyDiffs_def)

lemma putAccount_diffs_ok [inv_intros]:
  assumes "diffs_ok s"
  shows "diffs_ok (Storage_putAccount acc s)"
proof -
  have "mdiffs_ok (mappings (Storage_putAccount acc s)) (mappingDiffs (diffs s))"
    using assms by (simp add: diffs_ok_def putAccount_fields mdiffs_ok_new_account)
  then show ?thesis
    using assms by (auto simp: diffs_ok_def putAccount_fields(1,3,5,6) Diffs_defs)
qed

lemma putValue_diffs_ok [inv_intros]:
  assumes "storage_ok s" and "diffs_ok s"
  shows "diffs_ok (Storage_putValue address key val s)"
proof -
  let ?w = "with_account address s"
  obtain m where m: "mappings ?w (hexEncode address) = Some m"
    using with_account_exists [OF assms(1)] by blast
  have w: "diffs_ok ?w" using assms(2) by (simp add: with_account_def putAccount_diffs_ok)
  then have D: "mdiffs_ok (mappings ?w) (mappingDiffs (diffs ?w))" by (simp add: diffs_ok_def)
  show ?thesis
    using w mdiffs_ok_put [OF D m, of key val]
    by (auto simp: diffs_ok_def putValue_eq [OF m] Let_def Diffs_defs)
qed

lemma revert_one_diffs_ok:
  assumes "diffs_ok s" and "m \<in> set (modifications s)" and "revert_one m s = Some s'"
  shows "diffs_ok s'"
proof (cases m)
  case (ModMapping a k v)
  then obtain ab kb where hex: "a = hexEncode ab" "k = hexEncode kb"
    using assms(1,2) unfolding diffs_ok_def by fastforce
  obtain mp where mp: "mappings s (hexEncode ab) = Some mp"
    using assms(3) ModMapping hex by (auto split: option.splits)
  have D: "mdiffs_ok (mappings s) (mappingDiffs (diffs s))" using assms(1) by (simp add: diffs_ok_def)
  show ?thesis
    using assms(1,3) mdiffs_ok_put [OF D mp, of kb v] mdiffs_ok_remove [OF D mp, of kb v]
    by (auto simp: diffs_ok_def ModMapping hex mp Let_def Diffs_defs split: if_splits)
next
  case (ModAccount acc)
  then show ?thesis
    using assms(1,3) by (auto simp: diffs_ok_def Let_def Diffs_defs split: if_splits)
qed

lemma revert_one_mods: "revert_one m s = Some s' \<Longrightarrow> modifications s' = modifications s"
  by (cases m) (auto simp: Let_def split: if_splits option.splits)

lemma revert_all_diffs_ok:
  assumes "diffs_ok s" and "set ms \<subseteq> set (modifications s)" and "revert_all ms s = Some s'"
  shows "diffs_ok s' \<and> modifications s' = modifications s"
  using assms
proof (induction ms arbitrary: s)
  case Nil
  then show ?case by simp
next
  case (Cons m ms)
  then obtain t where t: "revert_one m s = Some t" "revert_all ms t = Some s'"
    by (auto split: option.splits)
  have "diffs_ok t" using revert_one_diffs_ok [OF Cons.prems(1) _ t(1)] Cons.prems(2) by simp
  then show ?case
    using Cons.IH [of t] Cons.prems(2) t(2) revert_one_mods [OF t(1)] by simp
qed

lemma Storage_revert_diffs_ok [inv_intros]:
  assumes "diffs_ok s" and "Storage_revert s = Some s'"
  shows "diffs_ok s'"
proof -
  obtain c cs t where t: "revert_all (take (length (modifications s) - c) (modifications s)) s = Some t"
    "s' = t\<lparr>modifications := drop (length (modifications s) - c) (modifications t), checkPoints := cs\<rparr>"
    using assms(2) by (auto simp: Storage_revert_def Let_def split: list.splits if_splits)
  have "diffs_ok t \<and> modifications t = modifications s"
    by (rule revert_all_diffs_ok [OF assms(1) set_take_subset t(1)])
  then show ?thesis by (auto simp: diffs_ok_def t(2) dest: in_set_dropD)
qed

section \<open>Reachable stores\<close>

text \<open>
  One step of the state server: a call of one of its methods or of a package function, as the
  virtual machine and the pinning stage issue them.
\<close>

inductive server_step :: "Storage \<Rightarrow> Storage \<Rightarrow> bool" where
  step_create: "server_step s (Server_CreateAccount now addr s)"
| step_code: "server_step s (snd (Server_PutContractCode keccak addr code s))"
| step_add: "server_step s (snd (Server_AddBalance addr amount s))"
| step_sub: "server_step s (snd (Server_SubBalance addr amount s))"
| step_put: "server_step s (Storage_putValue addr key value s)"
| step_nonce: "server_step s (snd (Server_SetNonce addr nonce s))"
| step_incr: "server_step s (NonceIncr now addr s)"
| step_sync: "syncBalance_one now key value s = Some s' \<Longrightarrow> server_step s s'"
| step_checkpoint: "server_step s (Storage_checkpoint s)"
| step_commit: "Storage_commit s = Some s' \<Longrightarrow> server_step s s'"
| step_revert: "Storage_revert s = Some s' \<Longrightarrow> server_step s s'"
| step_logs: "Storage_putLogs h ls s = Some (e, s') \<Longrightarrow> server_step s s'"
| step_capture: "CaptureStateStoreDiffs s = Some s' \<Longrightarrow> server_step s s'"
| step_reset: "server_step s (ResetCaptureStateStoreDiffs s)"

inductive server_reachable :: "Storage \<Rightarrow> bool" where
  reach_new: "server_reachable NewStorage"
| reach_step: "server_reachable s \<Longrightarrow> server_step s s' \<Longrightarrow> server_reachable s'"

definition server_inv :: "Storage \<Rightarrow> bool" where
  "server_inv s \<longleftrightarrow> store_inv s \<and> diffs_ok s"

lemma putAccount_inv [inv_intros]:
  "server_inv s \<Longrightarrow> account_ok acc \<Longrightarrow> server_inv (Storage_putAccount acc s)"
  using vm_store.update_law [of s "PutAccount acc"] putAccount_diffs_ok [of s acc]
  by (auto simp: server_inv_def)

lemma putValue_inv [inv_intros]: "server_inv s \<Longrightarrow> server_inv (Storage_putValue a k v s)"
  using vm_store.update_law [of s "PutValue a k v"] putValue_diffs_ok [of s a k v]
  by (auto simp: server_inv_def store_inv_def)

lemma getAccount_ok: "server_inv s \<Longrightarrow> Storage_getAccount s a = Some acc \<Longrightarrow> account_ok acc"
  by (auto simp: server_inv_def store_inv_def storage_ok_def accounts_ok_def Storage_getAccount_def)

lemma revert_inv: "server_inv s \<Longrightarrow> Storage_revert s = Some s' \<Longrightarrow> server_inv s'"
proof -
  assume inv: "server_inv s" and r: "Storage_revert s = Some s'"
  then obtain c cs where "checkPoints s = c # cs"
    by (auto simp: Storage_revert_def split: list.splits)
  then have "\<exists>w ws. snapshots s = w # ws" by (simp add: snapshots_def)
  then have "store_inv s'" using Storage_revert_spec [of s] inv r by (auto simp: server_inv_def)
  then show "server_inv s'" using Storage_revert_diffs_ok [OF _ r] inv by (simp add: server_inv_def)
qed

lemma inv_cong:
  assumes "server_inv s" "accounts s' = accounts s" "mappings s' = mappings s"
    "modifications s' = modifications s" "checkpoints_ok s'" "diffs_ok s'"
  shows "server_inv s'"
proof -
  have "mod_ok s' m" if "mod_ok s m" for m using mod_ok_mono [OF that] assms(3) by simp
  then show ?thesis
    using assms by (auto simp: server_inv_def store_inv_def storage_ok_def accounts_ok_def)
qed

lemma putLogs_loop_fields:
  "putLogs_loop h ls s = Some (e, s') \<Longrightarrow> \<exists>lg. s' = s\<lparr>logs := lg\<rparr>"
proof (induction h ls s arbitrary: rule: putLogs_loop.induct)
  case (1 h s)
  then show ?case by (auto intro: exI [of _ "logs s"])
next
  case (2 h l ls s)
  show ?case
  proof (cases "accounts s (hexEncode (pbl_ContractAddress l)) = None")
    case True
    with 2 show ?thesis by (auto intro: exI [of _ "logs s"])
  next
    case False
    with 2 show ?thesis by (fastforce simp: Let_def split: option.splits if_splits)
  qed
qed

lemma zero_numbers [simp]: "parseInt ''0'' = Some 0" "parseInt ''1'' = Some 1"
  by (simp_all add: parseInt_def parseNat_def decValue_def)

lemma account_ok_simps [simp]:
  "account_ok acc \<Longrightarrow> account_ok (acc\<lparr>sa_Code := c, sa_CodeHash := h\<rparr>)"
  "account_ok acc \<Longrightarrow> account_ok (acc\<lparr>sa_Balance := intString i\<rparr>)"
  "account_ok acc \<Longrightarrow> account_ok (acc\<lparr>sa_Nonce := intString i\<rparr>)"
  by (simp_all add: account_ok_def)

lemma account_ok_new [simp]:
  "parseInt b = Some i \<Longrightarrow> parseInt n = Some j \<Longrightarrow>
     account_ok \<lparr>sa_Address = a, sa_PublicKey = p, sa_Balance = b, sa_Nonce = n, sa_CodeHash = h,
       sa_Code = c, sa_Created = t\<rparr>"
  by (simp add: account_ok_def)

lemma server_ops_inv [inv_intros]:
  assumes "server_inv s"
  shows "server_inv (Server_CreateAccount now addr s)"
    and "server_inv (snd (Server_PutContractCode keccak addr code s))"
    and "server_inv (snd (Server_AddBalance addr amount s))"
    and "server_inv (snd (Server_SubBalance addr amount s))"
    and "server_inv (snd (Server_SetNonce addr nonce s))"
    and "server_inv (NonceIncr now addr s)"
proof -
  show "server_inv (Server_CreateAccount now addr s)"
    unfolding Server_CreateAccount_def by (rule putAccount_inv [OF assms]) simp
  show "server_inv (snd (Server_PutContractCode keccak addr code s))"
    using assms getAccount_ok [OF assms, of addr]
    by (cases "Storage_getAccount s addr") (simp_all add: Server_PutContractCode_def putAccount_inv)
  show "server_inv (snd (Server_AddBalance addr amount s))"
    using assms getAccount_ok [OF assms, of addr]
    by (cases "Storage_getAccount s addr") (simp_all add: Server_AddBalance_def putAccount_inv)
  show "server_inv (snd (Server_SubBalance addr amount s))"
    using assms getAccount_ok [OF assms, of addr]
    by (cases "Storage_getAccount s addr") (simp_all add: Server_SubBalance_def putAccount_inv)
  show "server_inv (snd (Server_SetNonce addr nonce s))"
    using assms getAccount_ok [OF assms, of addr]
    by (cases "Storage_getAccount s addr") (simp_all add: Server_SetNonce_def putAccount_inv)
  show "server_inv (NonceIncr now addr s)"
    using assms getAccount_ok [OF assms, of addr]
    by (cases "Storage_getAccount s addr") (simp_all add: NonceIncr_def putAccount_inv)
qed

lemma syncBalance_one_inv [inv_intros]:
  assumes "server_inv s" and "syncBalance_one now key v s = Some s'"
  shows "server_inv s'"
proof -
  obtain ab where ab: "AddressToBytes key = Inr ab"
    using assms(2) by (auto simp: syncBalance_one_def split: sum.splits)
  show ?thesis
    using assms getAccount_ok [OF assms(1), of ab]
    by (cases "Storage_getAccount s ab") (auto simp: syncBalance_one_def ab intro!: putAccount_inv)
qed

lemma putLogs_inv [inv_intros]:
  assumes "server_inv s" and "Storage_putLogs h ls s = Some (e, s')"
  shows "server_inv s'"
proof -
  have "\<exists>lg. s' = s\<lparr>logs := lg\<rparr>"
    using putLogs_loop_fields [of h ls s e s'] assms(2) exI [of "\<lambda>lg. s = s\<lparr>logs := lg\<rparr>" "logs s"]
    by (auto simp: Storage_putLogs_def split: if_splits)
  then obtain lg where s': "s' = s\<lparr>logs := lg\<rparr>" by blast
  have "checkpoints_ok s" and "diffs_ok s"
    using assms(1) by (simp_all add: server_inv_def store_inv_def)
  then show ?thesis
    by (intro inv_cong [OF assms(1)]) (simp_all add: s' checkpoints_ok_def diffs_ok_def)
qed

lemma Diffs_reset_empty [simp]: "Diffs_reset d = emptyDiffs"
  by (auto simp: Diffs_reset_def emptyDiffs_def fun_eq_iff dom_def)

lemma bookkeeping_inv [inv_intros]:
  assumes "server_inv s"
  shows "server_inv (Storage_checkpoint s)"
    and "Storage_commit s = Some s' \<Longrightarrow> server_inv s'"
    and "CaptureStateStoreDiffs s = Some s' \<Longrightarrow> server_inv s'"
    and "server_inv (ResetCaptureStateStoreDiffs s)"
proof -
  have cp: "checkpoints_ok s" and d: "diffs_ok s"
    using assms by (simp_all add: server_inv_def store_inv_def)
  show "server_inv (Storage_checkpoint s)"
    by (rule inv_cong [OF assms])
      (use cp d in \<open>simp_all add: Storage_checkpoint_def checkpoints_ok_def diffs_ok_def\<close>)
  show "server_inv s'" if "Storage_commit s = Some s'"
    by (rule inv_cong [OF assms])
      (use that cp d in \<open>auto simp: Storage_commit_def checkpoints_ok_def diffs_ok_def split: list.splits\<close>)
  show "server_inv s'" if "CaptureStateStoreDiffs s = Some s'"
    by (rule inv_cong [OF assms])
      (use that cp d in \<open>auto simp: CaptureStateStoreDiffs_def checkpoints_ok_def diffs_ok_def
        split: if_splits\<close>)
  show "server_inv (ResetCaptureStateStoreDiffs s)"
    by (rule inv_cong [OF assms])
      (use cp d in \<open>simp_all add: ResetCaptureStateStoreDiffs_def checkpoints_ok_def diffs_ok_def
        emptyDiffs_def\<close>)
qed

lemma server_step_inv:
  assumes "server_step s s'" and "server_inv s"
  shows "server_inv s'"
  using assms
proof (induction rule: server_step.induct)
  case (step_sync now key v s s')
  then show ?case by (blast intro: syncBalance_one_inv)
next
  case (step_logs h ls s e s')
  then show ?case by (blast intro: putLogs_inv)
next
  case (step_revert s s')
  then show ?case by (blast intro: revert_inv)
qed (blast intro: server_ops_inv bookkeeping_inv putValue_inv)+

section \<open>Behaviour of the operations\<close>

lemma server_invD:
  assumes "server_inv s"
  shows "accounts s a = Some acc \<Longrightarrow> sa_Address acc = a"
    and "accounts s a = Some acc \<Longrightarrow> account_ok acc"
    and "accounts s a = Some acc \<Longrightarrow> \<exists>m. mappings s a = Some m"
  using assms by (auto simp: server_inv_def store_inv_def storage_ok_def accounts_ok_def)

lemma getValue_readMap:
  assumes "accounts_ok s"
  shows "fst (Storage_getValue s a k) =
    (case accounts s (hexEncode a) of None \<Rightarrow> emptyArray
       | Some acc \<Rightarrow> readMap s (hexEncode a) (hexEncode k))"
  using assms
  by (auto simp: Storage_getValue_def readMap_def accounts_ok_def split: option.splits)

lemma bigOf_intString [simp]: "bigOf (intString i) = i"
  by (simp add: bigOf_def)

lemma putAccount_existing:
  assumes "server_inv s" and "accounts s (hexEncode b) = Some acc" and "sa_Address acc' = sa_Address acc"
  shows "accounts (Storage_putAccount acc' s) = (accounts s)(hexEncode b \<mapsto> acc')"
proof -
  have "sa_Address acc' = hexEncode b" using server_invD(1) [OF assms(1,2)] assms(3) by simp
  then show ?thesis by (cases acc') (simp add: putAccount_fields)
qed

lemma server_inv_New [simp]: "server_inv NewStorage"
  by (simp add: server_inv_def store_inv_def checkpoints_ok_def) (simp add: NewStorage_def)

lemma CreateAccount_accounts:
  "accounts (Server_CreateAccount now b s) = (accounts s)(hexEncode b \<mapsto>
     \<lparr>sa_Address = hexEncode b, sa_PublicKey = [], sa_Balance = ''0'', sa_Nonce = ''0'',
      sa_CodeHash = [], sa_Code = [], sa_Created = now\<rparr>)"
  by (simp add: Server_CreateAccount_def putAccount_fields)

lemma AddressToBytes_address: "length b = 20 \<Longrightarrow> AddressToBytes (''0x'' @ hexEncode b) = Inr b"
  by (rule BytesToAddress_len)

lemma syncBalance_one_address:
  assumes "server_inv s" and "length b = 20"
  shows "\<exists>s' acc. syncBalance_one now (''0x'' @ hexEncode b) v s = Some s' \<and> server_inv s' \<and>
           accounts s' = (accounts s)(hexEncode b \<mapsto> acc) \<and> bigOf (sa_Balance acc) = SetBytes v"
proof (cases "Storage_getAccount s b")
  case None
  let ?acc = "\<lparr>sa_Address = ''0x'' @ hexEncode b, sa_PublicKey = [], sa_Balance = intString (SetBytes v),
    sa_Nonce = ''0'', sa_CodeHash = [], sa_Code = [], sa_Created = now\<rparr>"
  have "syncBalance_one now (''0x'' @ hexEncode b) v s = Some (Storage_putAccount ?acc s)"
    using None AddressToBytes_address [OF assms(2)] by (simp add: syncBalance_one_def)
  moreover have "trimmed ?acc = hexEncode b" using TrimPrefix_append [of "''0x''"] by simp
  ultimately show ?thesis
    using syncBalance_one_inv [OF assms(1)] by (auto simp: putAccount_fields)
next
  case (Some acc)
  have "syncBalance_one now (''0x'' @ hexEncode b) v s =
      Some (Storage_putAccount (acc\<lparr>sa_Balance := intString (SetBytes v)\<rparr>) s)"
    using Some AddressToBytes_address [OF assms(2)] by (simp add: syncBalance_one_def)
  moreover have "accounts s (hexEncode b) = Some acc" using Some by (simp add: Storage_getAccount_def)
  ultimately show ?thesis
    using syncBalance_one_inv [OF assms(1)] putAccount_existing [OF assms(1)] by fastforce
qed

lemma syncBalances_loop_spec:
  assumes "server_inv s" and "distinct ks"
    and "\<forall>k \<in> set ks. \<exists>b. length b = 20 \<and> k = ''0x'' @ hexEncode b"
  shows "\<exists>s'. syncBalances_loop now balances ks s = Some s' \<and> server_inv s' \<and>
    (\<forall>b. length b = 20 \<longrightarrow>
       (if ''0x'' @ hexEncode b \<in> set ks
        then \<exists>acc. accounts s' (hexEncode b) = Some acc \<and>
                   bigOf (sa_Balance acc) = SetBytes (the (balances (''0x'' @ hexEncode b)))
        else accounts s' (hexEncode b) = accounts s (hexEncode b)))"
  using assms
proof (induction ks arbitrary: s)
  case Nil
  then show ?case by simp
next
  case (Cons k ks)
  then obtain b where b: "length b = 20" "k = ''0x'' @ hexEncode b" by auto
  obtain t acc where t: "syncBalance_one now k (the (balances k)) s = Some t" "server_inv t"
    "accounts t = (accounts s)(hexEncode b \<mapsto> acc)" "bigOf (sa_Balance acc) = SetBytes (the (balances k))"
    using syncBalance_one_address [OF Cons.prems(1) b(1)] b(2) by metis
  obtain s' where s': "syncBalances_loop now balances ks t = Some s'" "server_inv s'"
    "\<forall>c. length c = 20 \<longrightarrow>
       (if ''0x'' @ hexEncode c \<in> set ks
        then \<exists>acc. accounts s' (hexEncode c) = Some acc \<and>
                   bigOf (sa_Balance acc) = SetBytes (the (balances (''0x'' @ hexEncode c)))
        else accounts s' (hexEncode c) = accounts t (hexEncode c))"
    using Cons.IH [OF t(2)] Cons.prems(2,3) by auto
  have "k \<notin> set ks" using Cons.prems(2) by simp
  with s' t b show ?case by (fastforce split: if_splits)
qed

section \<open>Properties\<close>

text \<open>
  C8. Reverting restores the store. After a checkpoint, any well-bracketed sequence of writes and
  nested checkpoints, commits and reverts runs without a panic, and the revert that closes it leaves
  every account and every readable contract slot as it was at the checkpoint.
\<close>
theorem revert_restores:
  assumes "server_inv s" and "bracketed update_ok ops"
  shows "\<exists>s'. run_ops apply_update Storage_checkpoint Storage_commit Storage_revert
                (Checkpoint # ops @ [Revert]) s = Some s' \<and>
              accounts s' = accounts s \<and>
              (\<forall>a k. fst (Storage_getValue s' a k) = fst (Storage_getValue s a k))"
proof -
  have "store_inv s" using assms(1) by (simp add: server_inv_def)
  then obtain s' where s': "run_ops apply_update Storage_checkpoint Storage_commit Storage_revert
      (Checkpoint # ops @ [Revert]) s = Some s'" "store_inv s'" "view s' = view s"
    using vm_store.revert_restores_view [OF assms(2)] by blast
  then have "accounts s' = accounts s" "readMap s' = readMap s" by (simp_all add: view_def)
  moreover have "accounts_ok s'" "accounts_ok s"
    using s'(2) \<open>store_inv s\<close> by (simp_all add: store_inv_def storage_ok_def)
  ultimately show ?thesis using s'(1) by (auto simp: getValue_readMap split: option.split)
qed

theorem revert_restores_witness:
  "\<exists>s'. run_ops apply_update Storage_checkpoint Storage_commit Storage_revert
     (Checkpoint # ([Update (PutValue [1] [2] [3])] @ (Checkpoint # [Update (PutValue [1] [2] [4])] @ [Commit]))
        @ [Revert]) NewStorage = Some s' \<and> accounts s' = Map.empty"
proof -
  have "bracketed update_ok ([Update (PutValue [1] [2] [3])] @ (Checkpoint # [Update (PutValue [1] [2] [4])] @ [Commit]))"
    by (intro bracketed_append bracketed_commit bracketed_update) simp_all
  from revert_restores [OF server_inv_New this] show ?thesis by (auto simp: NewStorage_def)
qed



text \<open>
  Contract storage behaves as a memory: a slot reads back the value last put into it, marked as
  present, and a put leaves every other slot of an existing account, and every slot of another
  account, unchanged.
\<close>
lemma storage_put_get:
  assumes "server_inv s"
  shows "Storage_getValue (Storage_putValue a k v s) a k = (v, True) \<and>
         ((a', k') \<noteq> (a, k) \<and> (a' \<noteq> a \<or> accounts s (hexEncode a) \<noteq> None) \<longrightarrow>
            fst (Storage_getValue (Storage_putValue a k v s) a' k') = fst (Storage_getValue s a' k'))"
proof -
  let ?w = "with_account a s" and ?p = "Storage_putValue a k v s"
  have st: "storage_ok s" using assms by (simp add: server_inv_def store_inv_def)
  obtain acc m where m: "mappings ?w (hexEncode a) = Some m" "accounts ?w (hexEncode a) = Some acc"
    using with_account_exists [OF st] by blast
  have "accounts_ok ?w" "accounts_ok s" "accounts_ok ?p"
    using with_account_ok [OF st] putValue_ok [OF st] st by (simp_all add: storage_ok_def)
  moreover have "accounts ?p = accounts ?w" by (simp add: putValue_eq [OF m(1)] Let_def)
  moreover have "accounts ?w (hexEncode a') = accounts s (hexEncode a')"
    if "a' \<noteq> a \<or> accounts s (hexEncode a) \<noteq> None"
    using that by (auto simp: with_account_def putAccount_fields)
  moreover have "readMap ?p (hexEncode a') (hexEncode k') = readMap s (hexEncode a') (hexEncode k')"
    if "(a', k') \<noteq> (a, k)"
    using that m(1) readMap_putAccount
    by (auto simp: putValue_eq [OF m(1)] Let_def readMap_def with_account_def fun_eq_iff
        putAccount_fields split: if_splits)
  ultimately have "(a', k') \<noteq> (a, k) \<and> (a' \<noteq> a \<or> accounts s (hexEncode a) \<noteq> None) \<longrightarrow>
      fst (Storage_getValue ?p a' k') = fst (Storage_getValue s a' k')"
    by (auto simp: getValue_readMap split: option.split)
  moreover have "sa_Address acc = hexEncode a"
    using \<open>accounts_ok ?w\<close> m(2) by (simp add: accounts_ok_def)
  then have "Storage_getValue ?p a k = (v, True)"
    using m by (simp add: putValue_eq [OF m(1)] Let_def Storage_getValue_def)
  ultimately show ?thesis by blast
qed

text \<open>
  Balance arithmetic of the state server: adding an amount to an existing account and subtracting
  it again are accepted, the balance in between is the exact sum, afterwards it is the old balance,
  and no other account changes.
\<close>
lemma add_sub_balance:
  assumes "server_inv s" and "Storage_getAccount s b = Some acc" and "parseInt amount = Some n"
  shows "\<exists>s1 s2 acc1 acc2.
           Server_AddBalance b amount s = (None, s1) \<and> Server_SubBalance b amount s1 = (None, s2) \<and>
           accounts s1 = (accounts s)(hexEncode b \<mapsto> acc1) \<and>
           bigOf (sa_Balance acc1) = bigOf (sa_Balance acc) + n \<and>
           accounts s2 = (accounts s)(hexEncode b \<mapsto> acc2) \<and>
           bigOf (sa_Balance acc2) = bigOf (sa_Balance acc)"
proof -
  let ?acc1 = "acc\<lparr>sa_Balance := intString (bigOf (sa_Balance acc) + n)\<rparr>"
  let ?s1 = "Storage_putAccount ?acc1 s"
  have n: "bigOf amount = n" using assms(3) by (simp add: bigOf_def)
  have a: "accounts s (hexEncode b) = Some acc" using assms(2) by (simp add: Storage_getAccount_def)
  have add: "Server_AddBalance b amount s = (None, ?s1)"
    by (simp add: Server_AddBalance_def assms(2) n)
  have s1: "accounts ?s1 = (accounts s)(hexEncode b \<mapsto> ?acc1)"
    by (rule putAccount_existing [OF assms(1) a]) simp
  have inv1: "server_inv ?s1" using server_ops_inv(3) [OF assms(1), of b amount] add by simp
  let ?acc2 = "?acc1\<lparr>sa_Balance := intString (bigOf (sa_Balance acc))\<rparr>"
  have sub: "Server_SubBalance b amount ?s1 = (None, Storage_putAccount ?acc2 ?s1)"
    by (simp add: Server_SubBalance_def Storage_getAccount_def s1 n)
  have "accounts (Storage_putAccount ?acc2 ?s1) = (accounts ?s1)(hexEncode b \<mapsto> ?acc2)"
    by (rule putAccount_existing [OF inv1, of b ?acc1]) (simp_all add: s1)
  then show ?thesis using add sub s1 by (auto simp: intro!: exI)
qed

text \<open>
  Synchronising the pinned balances into the state store never panics on wallet addresses, gives
  every wallet of the map exactly its pinned balance whatever the order of the visit, and leaves all
  other accounts unchanged.
\<close>
lemma SyncBalances_exact:
  assumes "server_inv s" and "range_order ord" and "finite (dom balances)"
    and "\<forall>k \<in> dom balances. \<exists>b. length b = 20 \<and> k = ''0x'' @ hexEncode b"
  shows "\<exists>s'. SyncBalances ord now balances s = Some s' \<and>
    (\<forall>b. length b = 20 \<longrightarrow>
      (case balances (''0x'' @ hexEncode b) of
         Some v \<Rightarrow> \<exists>acc. accounts s' (hexEncode b) = Some acc \<and> bigOf (sa_Balance acc) = SetBytes v
       | None \<Rightarrow> accounts s' (hexEncode b) = accounts s (hexEncode b)))"
proof -
  have set: "set (ord (dom balances)) = dom balances" and d: "distinct (ord (dom balances))"
    using assms(2,3) by (simp_all add: map_iter)
  obtain s' where s': "syncBalances_loop now balances (ord (dom balances)) s = Some s'"
    "\<forall>b. length b = 20 \<longrightarrow>
       (if ''0x'' @ hexEncode b \<in> dom balances
        then \<exists>acc. accounts s' (hexEncode b) = Some acc \<and>
                   bigOf (sa_Balance acc) = SetBytes (the (balances (''0x'' @ hexEncode b)))
        else accounts s' (hexEncode b) = accounts s (hexEncode b))"
    using syncBalances_loop_spec [OF assms(1) d, of now balances] assms(4) unfolding set by blast
  have "case balances (''0x'' @ hexEncode b) of
      Some v \<Rightarrow> \<exists>acc. accounts s' (hexEncode b) = Some acc \<and> bigOf (sa_Balance acc) = SetBytes v
    | None \<Rightarrow> accounts s' (hexEncode b) = accounts s (hexEncode b)" if "length b = 20" for b
    using s'(2) [rule_format, OF that] by (cases "balances (''0x'' @ hexEncode b)") (auto simp: dom_def)
  then show ?thesis using s'(1) by (auto simp: SyncBalances_def)
qed

text \<open>
  The stored code hash does not depend on the code: deploying any two contracts records the same
  code hash, the digest of the empty input, because the hasher's \<^verbatim>\<open>Digest\<close> ignores its argument.
\<close>
lemma code_hash_constant:
  assumes "server_inv s" and "Storage_getAccount s b = Some acc"
  shows "\<exists>s' acc'. Server_PutContractCode keccak256 b code s = (None, s') \<and>
           Storage_getAccount s' b = Some acc' \<and> sa_Code acc' = hexEncode code \<and>
           sa_CodeHash acc' = hexEncode (keccak256 [])"
proof -
  have a: "accounts s (hexEncode b) = Some acc" using assms(2) by (simp add: Storage_getAccount_def)
  show ?thesis
    using putAccount_existing [OF assms(1) a, of "acc\<lparr>sa_Code := hexEncode code,
        sa_CodeHash := hexEncode (keccak256 [])\<rparr>"]
    by (simp add: Server_PutContractCode_def Storage_getAccount_def a
        keccak256Hasher_Digest_def NewSHA3Hasher_def)
qed

end
