(* ===== verification/Vm_Capture.thy ===== *)
theory Vm_Capture
  imports Vm_Storage
begin

text \<open>
  What the captured differences of the state store are worth. During the smart-contract stage of a
  pin, \<^verbatim>\<open>src/vm/server.go\<close> records every account and slot it writes and drops or rewrites the record
  when a call is reverted; the record goes into the pin and other nodes apply it. Here the requests
  the virtual machine can send to the store are a relation, and the captured accounts are shown to be
  complete with respect to it; captured slots are not.
\<close>

section \<open>Requests of the virtual machine\<close>

inductive vm_request :: "Storage \<Rightarrow> Storage \<Rightarrow> bool" where
  req_create: "vm_request s (Server_CreateAccount now addr s)"
| req_code: "vm_request s (snd (Server_PutContractCode keccak addr code s))"
| req_add: "vm_request s (snd (Server_AddBalance addr amount s))"
| req_sub: "vm_request s (snd (Server_SubBalance addr amount s))"
| req_put: "vm_request s (Storage_putValue addr key value s)"
| req_nonce: "vm_request s (snd (Server_SetNonce addr nonce s))"
| req_checkpoint: "vm_request s (Storage_checkpoint s)"
| req_commit: "Storage_commit s = Some s' \<Longrightarrow> vm_request s s'"
| req_revert: "Storage_revert s = Some s' \<Longrightarrow> vm_request s s'"
| req_logs: "Storage_putLogs h ls s = Some (e, s') \<Longrightarrow> vm_request s s'"

lemma vm_request_server_step: "vm_request s s' \<Longrightarrow> server_step s s'"
  by (induction rule: vm_request.induct) (auto intro: server_step.intros)

lemma vm_requests_inv: "vm_request\<^sup>*\<^sup>* s s' \<Longrightarrow> server_inv s \<Longrightarrow> server_inv s'"
  by (induction rule: rtranclp_induct) (auto dest: vm_request_server_step server_step_inv)

lemma putValue_fields:
  assumes "server_inv s"
  shows "fst (Storage_getValue (Storage_putValue a k v s) a k) = v"
    and "collectDiffs (Storage_putValue a k v s) = collectDiffs s"
proof -
  have st: "storage_ok s" using assms by (simp add: server_inv_def store_inv_def)
  obtain acc m where m: "mappings (with_account a s) (hexEncode a) = Some m"
    "accounts (with_account a s) (hexEncode a) = Some acc"
    using with_account_exists [OF st] by blast
  have "sa_Address acc = hexEncode a"
    using with_account_ok [OF st] m(2) by (simp add: storage_ok_def accounts_ok_def)
  with m show "fst (Storage_getValue (Storage_putValue a k v s) a k) = v"
    by (simp add: putValue_eq [OF m(1)] Let_def Storage_getValue_def)
  show "collectDiffs (Storage_putValue a k v s) = collectDiffs s"
    by (simp add: putValue_eq [OF m(1)] Let_def with_account_def putAccount_fields)
qed

section \<open>Completeness of captured accounts\<close>

text \<open>
  The invariant of a capture that started in \<open>s0\<close>: the undo log has only grown and checkpoints do
  not reach below its start, accounts that existed still exist, every account that differs is
  captured, and reverting can only delete accounts that were not there at the start.
\<close>

definition capture_inv :: "Storage \<Rightarrow> Storage \<Rightarrow> bool" where
  "capture_inv s0 s \<longleftrightarrow>
     collectDiffs s \<and> finite (dom (accountDiffs (diffs s))) \<and>
     (\<exists>ms. modifications s = ms @ modifications s0 \<and>
        (\<forall>acc. ModAccount acc \<in> set ms \<longrightarrow> StoredAccount_IsEmpty acc \<longrightarrow>
           accounts s0 (sa_Address acc) = None)) \<and>
     (\<forall>c \<in> set (checkPoints s). length (modifications s0) \<le> c) \<and>
     dom (accounts s0) \<subseteq> dom (accounts s) \<and>
     (\<forall>a. accounts s a \<noteq> accounts s0 a \<longrightarrow> a \<in> dom (accountDiffs (diffs s)))"

lemma capture_inv_putAccount:
  assumes "server_inv s" and "capture_inv s0 s"
  shows "capture_inv s0 (Storage_putAccount acc s)"
proof -
  let ?a = "trimmed acc"
  let ?m = "case accounts s ?a of Some old \<Rightarrow> old | None \<Rightarrow> blankAccount ?a"
  obtain ms where ms: "modifications s = ms @ modifications s0"
    "\<forall>acc. ModAccount acc \<in> set ms \<longrightarrow> StoredAccount_IsEmpty acc \<longrightarrow> accounts s0 (sa_Address acc) = None"
    using assms(2) by (auto simp: capture_inv_def)
  have "accounts s0 (sa_Address ?m) = None" if "StoredAccount_IsEmpty ?m"
    using that assms account_ok_not_empty [OF server_invD(2) [OF assms(1)]]
    by (fastforce simp: capture_inv_def split: option.splits)
  with ms(2) have "\<forall>acc. ModAccount acc \<in> set (ModAccount ?m # ms) \<longrightarrow> StoredAccount_IsEmpty acc \<longrightarrow>
      accounts s0 (sa_Address acc) = None"
    by auto
  with ms(1) have "\<exists>ms. modifications (Storage_putAccount acc s) = ms @ modifications s0 \<and>
      (\<forall>acc. ModAccount acc \<in> set ms \<longrightarrow> StoredAccount_IsEmpty acc \<longrightarrow> accounts s0 (sa_Address acc) = None)"
    by (intro exI [of _ "ModAccount ?m # ms"]) (simp add: putAccount_fields)
  with assms(2) show ?thesis
    by (auto simp: capture_inv_def putAccount_fields Diffs_putAccount_def)
qed

lemma capture_inv_cong:
  assumes "capture_inv s0 s" and "collectDiffs s' = collectDiffs s" and "accounts s' = accounts s"
    and "accountDiffs (diffs s') = accountDiffs (diffs s)"
    and "modifications s' = modifications s \<or>
         (\<exists>a k v. modifications s' = ModMapping a k v # modifications s)"
    and "\<forall>c \<in> set (checkPoints s'). length (modifications s0) \<le> c"
  shows "capture_inv s0 s'"
proof -
  obtain ms where ms: "modifications s = ms @ modifications s0"
    "\<forall>acc. ModAccount acc \<in> set ms \<longrightarrow> StoredAccount_IsEmpty acc \<longrightarrow> accounts s0 (sa_Address acc) = None"
    using assms(1) by (auto simp: capture_inv_def)
  have "\<exists>ms. modifications s' = ms @ modifications s0 \<and>
      (\<forall>acc. ModAccount acc \<in> set ms \<longrightarrow> StoredAccount_IsEmpty acc \<longrightarrow> accounts s0 (sa_Address acc) = None)"
    using assms(5)
  proof (elim disjE exE)
    fix a k v
    assume "modifications s' = ModMapping a k v # modifications s"
    with ms show ?thesis by (intro exI [of _ "ModMapping a k v # ms"]) simp
  qed (use ms in auto)
  with assms show ?thesis by (simp add: capture_inv_def)
qed

lemma capture_inv_putValue:
  assumes "server_inv s" and "capture_inv s0 s"
  shows "capture_inv s0 (Storage_putValue address key v s)"
proof -
  let ?w = "with_account address s"
  have w: "capture_inv s0 ?w"
    using assms by (simp add: with_account_def capture_inv_putAccount)
  have "storage_ok s" using assms(1) by (simp add: server_inv_def store_inv_def)
  then obtain m where m: "mappings ?w (hexEncode address) = Some m"
    using with_account_exists by blast
  show ?thesis
    unfolding putValue_eq [OF m] Let_def
    by (rule capture_inv_cong [OF w]) (use w in \<open>auto simp: Diffs_putMapping_def capture_inv_def\<close>)
qed

text \<open>Undoing modifications made since the start keeps the capture complete.\<close>

lemma revert_all_capture:
  assumes "collectDiffs s" and "finite (dom (accountDiffs (diffs s)))"
    and "dom (accounts s0) \<subseteq> dom (accounts s)"
    and "\<forall>a. accounts s a \<noteq> accounts s0 a \<longrightarrow> a \<in> dom (accountDiffs (diffs s))"
    and "\<forall>acc. ModAccount acc \<in> set ms \<longrightarrow> StoredAccount_IsEmpty acc \<longrightarrow> accounts s0 (sa_Address acc) = None"
    and "revert_all ms s = Some s'"
  shows "collectDiffs s' \<and> finite (dom (accountDiffs (diffs s'))) \<and>
    dom (accounts s0) \<subseteq> dom (accounts s') \<and>
    (\<forall>a. accounts s' a \<noteq> accounts s0 a \<longrightarrow> a \<in> dom (accountDiffs (diffs s')))"
  using assms
proof (induction ms arbitrary: s)
  case Nil
  then show ?case by simp
next
  case (Cons m ms)
  then obtain t where t: "revert_one m s = Some t" "revert_all ms t = Some s'"
    by (auto split: option.splits)
  have "collectDiffs t" "finite (dom (accountDiffs (diffs t)))" "dom (accounts s0) \<subseteq> dom (accounts t)"
    "\<forall>a. accounts t a \<noteq> accounts s0 a \<longrightarrow> a \<in> dom (accountDiffs (diffs t))"
    using t(1) Cons.prems(1-5)
    by (cases m; fastforce simp: Let_def Diffs_defs split: option.splits if_splits)+
  with Cons.IH [OF _ _ _ _ _ t(2)] Cons.prems(5) show ?case by simp
qed

lemma capture_inv_revert:
  assumes "capture_inv s0 s" and "Storage_revert s = Some s'" and "server_inv s"
  shows "capture_inv s0 s'"
proof -
  obtain ms where ms: "modifications s = ms @ modifications s0"
    "\<forall>acc. ModAccount acc \<in> set ms \<longrightarrow> StoredAccount_IsEmpty acc \<longrightarrow> accounts s0 (sa_Address acc) = None"
    using assms(1) by (auto simp: capture_inv_def)
  obtain c cs t where c: "checkPoints s = c # cs" and
    t: "revert_all (take (length (modifications s) - c) (modifications s)) s = Some t"
    "s' = t\<lparr>modifications := drop (length (modifications s) - c) (modifications t), checkPoints := cs\<rparr>"
    using assms(2) by (auto simp: Storage_revert_def Let_def split: list.splits if_splits)
  have ge: "length (modifications s0) \<le> c" using assms(1) c by (simp add: capture_inv_def)
  define k where "k = length (modifications s) - c"
  have k: "k \<le> length ms" using ge ms(1) by (simp add: k_def)
  then have tk: "take k (modifications s) = take k ms" by (simp add: ms(1))
  have "diffs_ok s" using assms(3) by (simp add: server_inv_def)
  then have mods: "modifications t = modifications s"
    using revert_all_diffs_ok [OF _ set_take_subset t(1)] by blast
  have "collectDiffs t \<and> finite (dom (accountDiffs (diffs t))) \<and> dom (accounts s0) \<subseteq> dom (accounts t) \<and>
    (\<forall>a. accounts t a \<noteq> accounts s0 a \<longrightarrow> a \<in> dom (accountDiffs (diffs t)))"
    using revert_all_capture [OF _ _ _ _ _ t(1), of s0] assms(1) ms(2) tk
    by (auto simp: capture_inv_def k_def dest: in_set_takeD)
  moreover have "modifications s' = drop k ms @ modifications s0"
  proof -
    have "modifications s' = drop k (modifications s)" by (simp add: t(2) mods k_def)
    then show ?thesis using k by (simp add: ms(1))
  qed
  moreover have "\<forall>acc. ModAccount acc \<in> set (drop k ms) \<longrightarrow> StoredAccount_IsEmpty acc \<longrightarrow>
      accounts s0 (sa_Address acc) = None"
    using ms(2) by (auto dest: in_set_dropD)
  ultimately show ?thesis
    using assms(1) c unfolding capture_inv_def by (auto simp: t(2))
qed

lemma capture_inv_request:
  assumes "vm_request s s'" and "server_inv s" and "capture_inv s0 s"
  shows "capture_inv s0 s'"
  using assms
proof (cases rule: vm_request.cases)
  case (req_checkpoint)
  have "length (modifications s0) \<le> length (modifications s)"
    using assms(3) by (auto simp: capture_inv_def)
  with req_checkpoint assms(3) show ?thesis
    by (intro capture_inv_cong [OF assms(3)]) (auto simp: Storage_checkpoint_def capture_inv_def)
next
  case (req_commit)
  with assms(3) show ?thesis
    by (intro capture_inv_cong [OF assms(3)])
      (auto simp: Storage_commit_def capture_inv_def split: list.splits)
next
  case (req_logs h ls e)
  then show ?thesis
    using putLogs_loop_fields [of h ls s e s'] assms(3)
    by (intro capture_inv_cong [OF assms(3)])
      (auto simp: Storage_putLogs_def capture_inv_def split: if_splits)
qed (auto simp: Server_CreateAccount_def Server_PutContractCode_def Server_AddBalance_def
      Server_SubBalance_def Server_SetNonce_def capture_inv_putAccount capture_inv_putValue
      intro: capture_inv_revert split: option.splits)

lemma capture_inv_requests:
  "vm_request\<^sup>*\<^sup>* s s' \<Longrightarrow> server_inv s \<Longrightarrow> capture_inv s0 s \<Longrightarrow> capture_inv s0 s'"
  by (induction rule: rtranclp_induct)
    (auto intro: capture_inv_request dest: vm_requests_inv)

lemma capture_inv_start:
  assumes "server_inv s" and "CaptureStateStoreDiffs s = Some s0" and "checkPoints s = []"
  shows "capture_inv s s0"
  using assms
  by (auto simp: CaptureStateStoreDiffs_def capture_inv_def server_inv_def diffs_ok_def emptyDiffs_def
      split: if_splits)

section \<open>Properties\<close>

text \<open>
  C16. Captured accounts are complete and exact. When capturing starts outside any call and the
  virtual machine then issues any sequence of requests, with nested checkpoints, commits and reverts,
  every account that differs from the start is captured, and every captured account is the stored
  one: the differences published in a pin determine the new accounts.
\<close>
theorem captured_accounts_complete:
  assumes "server_inv s" and "CaptureStateStoreDiffs s = Some s0" and "checkPoints s = []"
    and "vm_request\<^sup>*\<^sup>* s0 s1"
  shows "accounts s1 = accounts s ++ accountDiffs (diffs s1)"
proof
  fix a
  have "server_inv s0" using server_step_inv [OF step_capture [OF assms(2)] assms(1)] .
  then have inv: "server_inv s1" "capture_inv s s1"
    using vm_requests_inv [OF assms(4)] capture_inv_requests [OF assms(4)]
      capture_inv_start [OF assms(1-3)] by blast+
  then show "accounts s1 a = (accounts s ++ accountDiffs (diffs s1)) a"
    by (cases "accountDiffs (diffs s1) a")
      (auto simp: server_inv_def diffs_ok_def capture_inv_def map_add_def domIff)
qed

theorem captured_accounts_complete_witness:
  "accounts (Server_CreateAccount 0 [1] (NewStorage\<lparr>collectDiffs := True\<rparr>)) =
     accounts NewStorage ++
     accountDiffs (diffs (Server_CreateAccount 0 [1] (NewStorage\<lparr>collectDiffs := True\<rparr>)))"
proof (rule captured_accounts_complete [OF server_inv_New])
  show "CaptureStateStoreDiffs NewStorage = Some (NewStorage\<lparr>collectDiffs := True\<rparr>)"
    by (simp add: CaptureStateStoreDiffs_def NewStorage_def)
  show "checkPoints NewStorage = []" by (simp add: NewStorage_def)
qed (auto intro: req_create)

text \<open>
  C40. Captured slots are not complete. Clear a slot that holds a value in one call, then write it in
  a later call that is reverted: the slot stays cleared, but the revert takes the zero value for
  "never written" and removes the slot from the captured differences. A node that applies the
  differences keeps the old value.
\<close>
theorem cleared_slot_lost:
  assumes "server_inv s" and "fst (Storage_getValue s a k) \<noteq> emptyArray"
    and "CaptureStateStoreDiffs s = Some s0"
    and "s1 = Storage_putValue a k emptyArray s0"
    and "s2 = Storage_putValue a k v (Storage_checkpoint s1)"
  shows "\<exists>s3. Storage_revert s2 = Some s3 \<and> fst (Storage_getValue s3 a k) = emptyArray \<and>
           mappingDiffs (diffs s3) (mappingKey a k) = None"
proof -
  obtain acc m where acc: "accounts s (hexEncode a) = Some acc" "mappings s (hexEncode a) = Some m"
    using assms(2) server_invD(3) [OF assms(1)]
    by (auto simp: Storage_getValue_def split: option.splits)
  have s0: "s0 = s\<lparr>collectDiffs := True\<rparr>"
    using assms(3) by (simp add: CaptureStateStoreDiffs_def split: if_splits)
  have w: "with_account a t = t" if "accounts t (hexEncode a) = Some acc" for t
    using that by (simp add: with_account_def)
  have addr: "sa_Address acc = hexEncode a" by (rule server_invD(1) [OF assms(1) acc(1)])
  have m1: "mappings (with_account a s0) (hexEncode a) = Some m" using acc s0 by (simp add: w)
  have s1: "accounts s1 (hexEncode a) = Some acc" "collectDiffs s1"
    "mappings s1 (hexEncode a) = Some (m(hexEncode k \<mapsto> emptyArray))"
    using putValue_eq [OF m1, of k emptyArray] acc s0 by (simp_all add: assms(4) Let_def w)
  have c: "with_account a (Storage_checkpoint s1) = Storage_checkpoint s1"
    using s1(1) by (simp add: w Storage_checkpoint_def)
  have m2: "mappings (with_account a (Storage_checkpoint s1)) (hexEncode a) =
      Some (m(hexEncode k \<mapsto> emptyArray))"
    using s1(3) unfolding c by (simp add: Storage_checkpoint_def)
  have s2: "s2 = s1\<lparr>checkPoints := length (modifications s1) # checkPoints s1,
      modifications := ModMapping (hexEncode a) (hexEncode k) emptyArray # modifications s1,
      mappings := (mappings s1)(hexEncode a \<mapsto> m(hexEncode k \<mapsto> v)),
      diffs := Diffs_putMapping a k v (diffs s1)\<rparr>"
    using putValue_eq [OF m2, of k v] s1 unfolding assms(5) Let_def c
    by (simp add: Storage_checkpoint_def readMap_def)
  show ?thesis
    using s1 addr unfolding Storage_revert_def s2
    by (simp add: Let_def Diffs_removeMapping_def mappingKey_def Storage_getValue_def)
qed

theorem cleared_slot_lost_witness:
  "\<exists>s1 s2 s3. s1 = Storage_putValue [1] [2] emptyArray ((Storage_putValue [1] [2] [3] NewStorage)\<lparr>collectDiffs := True\<rparr>) \<and>
     s2 = Storage_putValue [1] [2] [4] (Storage_checkpoint s1) \<and> Storage_revert s2 = Some s3 \<and>
     fst (Storage_getValue s3 [1] [2]) = emptyArray \<and> mappingDiffs (diffs s3) (mappingKey [1] [2]) = None"
proof -
  let ?s = "Storage_putValue [1] [2] [3] NewStorage"
  have inv: "server_inv ?s" by (rule putValue_inv [OF server_inv_New])
  have get: "fst (Storage_getValue ?s [1] [2]) \<noteq> emptyArray"
    unfolding putValue_fields(1) [OF server_inv_New] emptyArray_def by (simp add: numeral_eq_Suc)
  have "\<not> collectDiffs ?s" unfolding putValue_fields(2) [OF server_inv_New] by (simp add: NewStorage_def)
  then have cap: "CaptureStateStoreDiffs ?s = Some (?s\<lparr>collectDiffs := True\<rparr>)"
    by (simp add: CaptureStateStoreDiffs_def)
  from cleared_slot_lost [OF inv get cap refl refl] show ?thesis by blast
qed

end
