(* ===== verification/Smc_Pool.thy ===== *)
theory Smc_Pool
  imports Vm_Storage
begin

text \<open>
  The pools of smart-contract transactions: \<^verbatim>\<open>src/smc/pool.go\<close> and \<^verbatim>\<open>src/smc/store.go\<close>. A pool is a
  map from identifiers to objects guarded by a lock; its operations are atomic and given on the map.
  \<^verbatim>\<open>RemoveAll\<close> takes the lock and calls \<^verbatim>\<open>Remove\<close>, which takes it again, so these two are also given
  on a pool with an explicit lock. \<open>None\<close> is a panic unless stated otherwise.
\<close>

section \<open>\<^verbatim>\<open>Pool\<close>\<close>

type_synonym 'a objects = "string \<rightharpoonup> 'a"

definition Pool_Get :: "string \<Rightarrow> 'a objects \<Rightarrow> 'a option" where
  "Pool_Get oid p = p oid"

definition Pool_Put :: "string \<Rightarrow> 'a \<Rightarrow> 'a objects \<Rightarrow> 'a option \<times> 'a objects" where
  "Pool_Put objId obj p = (p objId, p(objId \<mapsto> obj))"

definition Pool_Remove :: "string \<Rightarrow> 'a objects \<Rightarrow> 'a option \<times> 'a objects" where
  "Pool_Remove oid p = (p oid, p(oid := None))"

text \<open>\<^verbatim>\<open>Find\<close> with a filter that may keep state between its calls, as the selection below does.\<close>

fun find_loop :: "('a \<Rightarrow> 's \<Rightarrow> (bool \<times> 's) option) \<Rightarrow> 'a list \<Rightarrow> 's \<Rightarrow> 'a list option" where
  "find_loop f [] st = Some []"
| "find_loop f (x # xs) st =
     (case f x st of
        None \<Rightarrow> None
      | Some (keep, st') \<Rightarrow> map_option (\<lambda>r. if keep then x # r else r) (find_loop f xs st'))"

definition Pool_Find ::
  "string visit_order \<Rightarrow> ('a \<Rightarrow> 's \<Rightarrow> (bool \<times> 's) option) \<Rightarrow> 's \<Rightarrow> 'a objects \<Rightarrow> 'a list option" where
  "Pool_Find ord f st p = find_loop f (map (\<lambda>k. the (p k)) (ord (dom p))) st"

text \<open>With the lock explicit, acquiring a held lock blocks for ever: the operation has no result.\<close>

record 'a Pool =
  objects :: "'a objects"
  lock_held :: bool

definition Pool_Lock :: "'a Pool \<Rightarrow> 'a Pool option" where
  "Pool_Lock p = (if lock_held p then None else Some (p\<lparr>lock_held := True\<rparr>))"

definition Pool_Remove_locking :: "string \<Rightarrow> 'a Pool \<Rightarrow> ('a option \<times> 'a Pool) option" where
  "Pool_Remove_locking oid p =
     (case Pool_Lock p of
        None \<Rightarrow> None
      | Some p1 \<Rightarrow>
          Some (objects p1 oid, p1\<lparr>objects := (objects p1)(oid := None), lock_held := False\<rparr>))"

fun removeAll_loop :: "string list \<Rightarrow> 'a list \<Rightarrow> 'a Pool \<Rightarrow> ('a list \<times> 'a Pool) option" where
  "removeAll_loop [] removed p = Some (removed, p)"
| "removeAll_loop (oid # ids) removed p =
     (case Pool_Remove_locking oid p of
        None \<Rightarrow> None
      | Some (obj, p') \<Rightarrow>
          removeAll_loop ids (case obj of None \<Rightarrow> removed | Some x \<Rightarrow> removed @ [x]) p')"

definition Pool_RemoveAll :: "string list \<Rightarrow> 'a Pool \<Rightarrow> ('a list \<times> 'a Pool) option" where
  "Pool_RemoveAll ids p =
     (case Pool_Lock p of
        None \<Rightarrow> None
      | Some p1 \<Rightarrow> map_option (\<lambda>(r, p2). (r, p2\<lparr>lock_held := False\<rparr>)) (removeAll_loop ids [] p1))"

section \<open>The store\<close>

record SmcStore =
  unconfirmedPool :: "transaction objects"
  confirmedPool :: "ConfirmedTx objects"

definition smc_init :: SmcStore where
  "smc_init = \<lparr>unconfirmedPool = Map.empty, confirmedPool = Map.empty\<rparr>"

definition AddConfirmed :: "ext \<Rightarrow> ConfirmedTx \<Rightarrow> SmcStore \<Rightarrow> SmcStore option" where
  "AddConfirmed E c s =
     (case IdentifiableTx_Id E (ct_Transaction c) of
        None \<Rightarrow> None
      | Some oid \<Rightarrow>
          let s1 = s\<lparr>unconfirmedPool := snd (Pool_Remove oid (unconfirmedPool s))\<rparr> in
          Some (s1\<lparr>confirmedPool := snd (Pool_Put oid c (confirmedPool s1))\<rparr>))"

definition RemoveUnconfirmed :: "ext \<Rightarrow> transaction \<Rightarrow> SmcStore \<Rightarrow> SmcStore option" where
  "RemoveUnconfirmed E t s =
     (case IdentifiableTx_Id E t of
        None \<Rightarrow> None
      | Some oid \<Rightarrow> Some (s\<lparr>unconfirmedPool := snd (Pool_Remove oid (unconfirmedPool s))\<rparr>))"

definition AddUnconfirmed :: "ext \<Rightarrow> transaction \<Rightarrow> SmcStore \<Rightarrow> SmcStore option" where
  "AddUnconfirmed E t s =
     (case IdentifiableTx_Id E t of
        None \<Rightarrow> None
      | Some oid \<Rightarrow>
          let s1 = s\<lparr>unconfirmedPool := snd (Pool_Put oid t (unconfirmedPool s))\<rparr> in
          Some (s1\<lparr>confirmedPool := snd (Pool_Remove oid (confirmedPool s1))\<rparr>))"

definition FindConfirmed :: "string \<Rightarrow> SmcStore \<Rightarrow> ConfirmedTx option" where
  "FindConfirmed hash s = Pool_Get hash (confirmedPool s)"

definition FindAny :: "string \<Rightarrow> SmcStore \<Rightarrow> UnifiedTx option" where
  "FindAny hash s =
     (case Pool_Get hash (confirmedPool s) of
        Some c \<Rightarrow> Some (ConfirmedTx_ToUnified c)
      | None \<Rightarrow> map_option IdentifiableTx_ToUnified (Pool_Get hash (unconfirmedPool s)))"

text \<open>
  The selection of transactions for the next pin. The filter's state is the set of senders already
  selected and the fuel left, a 64-bit \<^verbatim>\<open>int\<close>; the fuel limit of a transaction is cut to 64 bits by
  \<^verbatim>\<open>Int64\<close>.
\<close>

definition txFuel64 :: "transaction \<Rightarrow> 64 word" where
  "txFuel64 t = word_of_int (SetBytes (Bytes (GetFuelLimit t)))"

definition select_filter ::
  "ext \<Rightarrow> Storage \<Rightarrow> transaction \<Rightarrow> string set \<times> 64 word \<Rightarrow> (bool \<times> string set \<times> 64 word) option" where
  "select_filter E vm t st =
     (let (selectedSenders, fuelLimitLeft) = st in
      case GetSender E t of
        None \<Rightarrow> None
      | Some sender \<Rightarrow>
          (case BytesToAddress sender of
             Inl _ \<Rightarrow> None
           | Inr accountAddress \<Rightarrow>
               (case SearchAccount vm accountAddress of
                  None \<Rightarrow> None
                | Some None \<Rightarrow> Some (False, st)
                | Some (Some account) \<Rightarrow>
                    if word_of_int (ln_Nonce account) = GetNonce t \<and>
                       accountAddress \<notin> selectedSenders \<and>
                       sint (txFuel64 t) \<le> sint fuelLimitLeft
                    then Some (True, insert accountAddress selectedSenders,
                                     fuelLimitLeft - txFuel64 t)
                    else (case GetHash E t of None \<Rightarrow> None | Some _ \<Rightarrow> Some (False, st)))))"

definition GetAllUncofirmed ::
  "ext \<Rightarrow> string visit_order \<Rightarrow> Storage \<Rightarrow> 64 word \<Rightarrow> SmcStore \<Rightarrow> transaction list option" where
  "GetAllUncofirmed E ord vm fuelLimit s =
     Pool_Find ord (select_filter E vm) ({}, fuelLimit) (unconfirmedPool s)"

definition pure_filter :: "('a \<Rightarrow> bool) \<Rightarrow> 'a \<Rightarrow> unit \<Rightarrow> (bool \<times> unit) option" where
  "pure_filter f x st = Some (f x, ())"

definition FilterConfirmed :: "string visit_order \<Rightarrow> (ConfirmedTx \<Rightarrow> bool) \<Rightarrow> SmcStore \<Rightarrow> ConfirmedTx list" where
  "FilterConfirmed ord f s = the (Pool_Find ord (pure_filter f) () (confirmedPool s))"

definition FilterUnconfirmed :: "string visit_order \<Rightarrow> (transaction \<Rightarrow> bool) \<Rightarrow> SmcStore \<Rightarrow> transaction list" where
  "FilterUnconfirmed ord f s = the (Pool_Find ord (pure_filter f) () (unconfirmedPool s))"

definition FilterAny ::
  "string visit_order \<Rightarrow> (ConfirmedTx \<Rightarrow> bool) \<Rightarrow> (transaction \<Rightarrow> bool) \<Rightarrow> SmcStore \<Rightarrow> UnifiedTx list" where
  "FilterAny ord fc fu s =
     map ConfirmedTx_ToUnified (FilterConfirmed ord fc s) @
     map IdentifiableTx_ToUnified (FilterUnconfirmed ord fu s)"

section \<open>Lemmas\<close>

lemmas Pool_defs = Pool_Get_def Pool_Put_def Pool_Remove_def

text \<open>Both pools file their objects under the objects' identifiers and have none in common.\<close>

definition smc_inv :: "ext \<Rightarrow> SmcStore \<Rightarrow> bool" where
  "smc_inv E s \<longleftrightarrow>
     (\<forall>oid t. unconfirmedPool s oid = Some t \<longrightarrow> IdentifiableTx_Id E t = Some oid) \<and>
     (\<forall>oid c. confirmedPool s oid = Some c \<longrightarrow> IdentifiableTx_Id E (ct_Transaction c) = Some oid) \<and>
     (\<forall>oid. unconfirmedPool s oid = None \<or> confirmedPool s oid = None)"

lemma smc_inv_ops [inv_intros]:
  assumes "smc_inv E s"
  shows "AddConfirmed E c s = Some s' \<Longrightarrow> smc_inv E s'"
    and "AddUnconfirmed E t s = Some s' \<Longrightarrow> smc_inv E s'"
    and "RemoveUnconfirmed E t s = Some s' \<Longrightarrow> smc_inv E s'"
  using assms
  by (auto simp: AddConfirmed_def AddUnconfirmed_def RemoveUnconfirmed_def smc_inv_def Pool_defs
      Let_def split: option.splits if_splits)

lemma find_loop_pure: "find_loop (pure_filter f) xs () = Some (filter f xs)"
  by (induction xs) (auto simp: pure_filter_def)

lemma sint_diff_le:
  fixes a b :: "64 word"
  assumes "0 \<le> sint b" and "sint b \<le> sint a"
  shows "sint (a - b) = sint a - sint b"
proof -
  have "sint a < 2 ^ 63" using sint_lt [of a] by simp
  with assms show ?thesis
    by (simp add: sint_word_ariths signed_take_bit_int_eq_self)
qed

text \<open>The sender address as the selection computes it.\<close>

definition sender_address :: "ext \<Rightarrow> transaction \<Rightarrow> string" where
  "sender_address E t = ''0x'' @ hexEncode (the (GetSender E t))"

lemma select_filter_True:
  assumes "select_filter E vm t (ss, left) = Some (True, st')"
  shows "st' = (insert (sender_address E t) ss, left - txFuel64 t)"
    and "sender_address E t \<notin> ss" and "sint (txFuel64 t) \<le> sint left"
    and "\<exists>acc. SearchAccount vm (sender_address E t) = Some (Some acc) \<and>
               word_of_int (ln_Nonce acc) = GetNonce t"
  using assms
  by (auto simp: select_filter_def sender_address_def BytesToAddress_def
      split: option.splits sum.splits if_splits)

lemma select_filter_False:
  "select_filter E vm t st = Some (False, st') \<Longrightarrow> st' = st"
  by (auto simp: select_filter_def split: option.splits sum.splits if_splits prod.splits)

lemma find_loop_select:
  assumes "find_loop (select_filter E vm) xs (ss, left) = Some r"
  shows "set r \<subseteq> set xs" and "distinct (map (sender_address E) r)"
    and "\<forall>t \<in> set r. sender_address E t \<notin> ss"
    and "\<forall>t \<in> set r. \<exists>acc. SearchAccount vm (sender_address E t) = Some (Some acc) \<and>
               word_of_int (ln_Nonce acc) = GetNonce t"
    and "\<forall>t \<in> set xs. 0 \<le> GetFuelLimit t \<and> GetFuelLimit t < 2 ^ 63 \<Longrightarrow> 0 \<le> sint left \<Longrightarrow>
           sum_list (map GetFuelLimit r) \<le> sint left"
proof -
  have "set r \<subseteq> set xs \<and> distinct (map (sender_address E) r) \<and>
      (\<forall>t \<in> set r. sender_address E t \<notin> ss) \<and>
      (\<forall>t \<in> set r. \<exists>acc. SearchAccount vm (sender_address E t) = Some (Some acc) \<and>
               word_of_int (ln_Nonce acc) = GetNonce t) \<and>
      ((\<forall>t \<in> set xs. 0 \<le> GetFuelLimit t \<and> GetFuelLimit t < 2 ^ 63) \<longrightarrow> 0 \<le> sint left \<longrightarrow>
         sum_list (map GetFuelLimit r) \<le> sint left)"
    using assms
  proof (induction xs arbitrary: ss left r)
    case Nil
    then show ?case by simp
  next
    case (Cons x xs)
    obtain keep ss' left' where f: "select_filter E vm x (ss, left) = Some (keep, ss', left')"
      using Cons.prems by (auto split: option.splits)
    obtain r' where r': "find_loop (select_filter E vm) xs (ss', left') = Some r'"
      and r: "r = (if keep then x # r' else r')"
      using Cons.prems f by auto
    note IH = Cons.IH [OF r']
    show ?case
    proof (cases keep)
      case False
      then have "ss' = ss" "left' = left" using select_filter_False [of E vm x] f by auto
      with IH r False show ?thesis by auto
    next
      case True
      note sel = select_filter_True [of E vm x ss left "(ss', left')"]
      have s: "ss' = insert (sender_address E x) ss" "left' = left - txFuel64 x"
        "sender_address E x \<notin> ss" "sint (txFuel64 x) \<le> sint left"
        "\<exists>acc. SearchAccount vm (sender_address E x) = Some (Some acc) \<and>
               word_of_int (ln_Nonce acc) = GetNonce x"
        using sel f True by auto
      have "sum_list (map GetFuelLimit r) \<le> sint left"
        if "\<forall>t \<in> set (x # xs). 0 \<le> GetFuelLimit t \<and> GetFuelLimit t < 2 ^ 63" "0 \<le> sint left"
      proof -
        have fx: "sint (txFuel64 x) = GetFuelLimit x"
          using that(1) by (simp add: txFuel64_def sint_sbintrunc' signed_take_bit_int_eq_self)
        have "sint left' = sint left - GetFuelLimit x"
          using sint_diff_le [of "txFuel64 x" left] s(2,4) fx that by simp
        then show ?thesis using IH that r True s(4) fx by simp
      qed
      with IH r True s show ?thesis by auto
    qed
  qed
  then show "set r \<subseteq> set xs" and "distinct (map (sender_address E) r)"
    and "\<forall>t \<in> set r. sender_address E t \<notin> ss"
    and "\<forall>t \<in> set r. \<exists>acc. SearchAccount vm (sender_address E t) = Some (Some acc) \<and>
               word_of_int (ln_Nonce acc) = GetNonce t"
    and "\<forall>t \<in> set xs. 0 \<le> GetFuelLimit t \<and> GetFuelLimit t < 2 ^ 63 \<Longrightarrow> 0 \<le> sint left \<Longrightarrow>
           sum_list (map GetFuelLimit r) \<le> sint left"
    by blast+
qed

lemma FilterAny_eq:
  "FilterAny ord fc fu s =
     map ConfirmedTx_ToUnified (filter fc (map (\<lambda>k. the (confirmedPool s k)) (ord (dom (confirmedPool s))))) @
     map IdentifiableTx_ToUnified (filter fu (map (\<lambda>k. the (unconfirmedPool s k)) (ord (dom (unconfirmedPool s)))))"
  by (simp add: FilterAny_def FilterConfirmed_def FilterUnconfirmed_def Pool_Find_def find_loop_pure)

lemma removeAll_loop_held: "lock_held p \<Longrightarrow> ids \<noteq> [] \<Longrightarrow> removeAll_loop ids r p = None"
  by (cases ids) (simp_all add: Pool_Remove_locking_def Pool_Lock_def)

section \<open>Properties\<close>

text \<open>
  C34. Selection of smart-contract transactions for a pin. Whatever the order in which the pool is
  visited, the selected transactions are pool members with pairwise different senders, each carries
  the current nonce of its sender's account, and, as long as every fuel limit in the pool fits a
  signed 64-bit number, their fuel limits sum up to at most the limit of the pin.
\<close>
theorem selection_sound:
  assumes "range_order ord" and "finite (dom (unconfirmedPool s))"
    and "GetAllUncofirmed E ord vm fuelLimit s = Some txs"
  shows "set txs \<subseteq> ran (unconfirmedPool s) \<and> distinct (map (sender_address E) txs) \<and>
         (\<forall>t \<in> set txs. \<exists>acc. SearchAccount vm (sender_address E t) = Some (Some acc) \<and>
                              word_of_int (ln_Nonce acc) = GetNonce t) \<and>
         ((\<forall>t \<in> ran (unconfirmedPool s). 0 \<le> GetFuelLimit t \<and> GetFuelLimit t < 2 ^ 63) \<longrightarrow>
          0 \<le> sint fuelLimit \<longrightarrow> sum_list (map GetFuelLimit txs) \<le> sint fuelLimit)"
proof -
  let ?xs = "map (\<lambda>k. the (unconfirmedPool s k)) (ord (dom (unconfirmedPool s)))"
  have xs: "set ?xs = ran (unconfirmedPool s)"
    using assms(1,2) by (auto simp: map_iter ran_def image_iff) (force intro: domI)+
  have "find_loop (select_filter E vm) ?xs ({}, fuelLimit) = Some txs"
    using assms(3) by (simp add: GetAllUncofirmed_def Pool_Find_def)
  note sel = find_loop_select [OF this]
  show ?thesis using sel(1,2,4,5) unfolding xs by blast
qed

definition demo_vm :: Storage where
  "demo_vm = Storage_putAccount
     \<lparr>sa_Address = hexEncode (replicate 20 1), sa_PublicKey = [], sa_Balance = ''0'', sa_Nonce = ''3'',
      sa_CodeHash = [], sa_Code = [], sa_Created = 0\<rparr> NewStorage"

theorem selection_sound_witness:
  "GetAllUncofirmed demo_ext sorted_list_of_set demo_vm 5
     \<lparr>unconfirmedPool = [''k'' \<mapsto> TxV1 demo_tx], confirmedPool = Map.empty\<rparr> = Some [TxV1 demo_tx] \<and>
   distinct (map (sender_address demo_ext) [TxV1 demo_tx])"
proof -
  let ?s = "\<lparr>unconfirmedPool = [''k'' \<mapsto> TxV1 demo_tx], confirmedPool = Map.empty\<rparr>"
  have "bigOf ''3'' = 3" by (simp add: bigOf_def parseInt_def parseNat_def decValue_def)
  then have acc: "\<exists>acc. SearchAccount demo_vm (''0x'' @ hexEncode (replicate 20 1)) = Some (Some acc) \<and>
      ln_Nonce acc = 3"
    using AddressToBytes_address [of "replicate 20 1"]
    by (simp add: SearchAccount_def Storage_getAccount_def demo_vm_def putAccount_fields
        mapToLnAccount_def)
  have "select_filter demo_ext demo_vm (TxV1 demo_tx) ({}, 5) =
      Some (True, {''0x'' @ hexEncode (replicate 20 1)}, 5 - txFuel64 (TxV1 demo_tx))"
    using acc by (auto simp: select_filter_def demo_tx_simps demo_tx_def txFuel64_def
        Txv1_GetFuelLimit_def Bytes_def nat_bytes.simps)
  then have run: "GetAllUncofirmed demo_ext sorted_list_of_set demo_vm 5 ?s = Some [TxV1 demo_tx]"
    by (simp add: GetAllUncofirmed_def Pool_Find_def)
  have "finite (dom (unconfirmedPool ?s))" by simp
  from selection_sound [OF range_order_sorted this run] run show ?thesis by blast
qed

text \<open>
  A transaction is in at most one pool: starting from the empty pools, every sequence of
  additions and removals keeps the confirmed and the unconfirmed identifiers disjoint and files each
  transaction under its own identifier, so that adding a transaction as unconfirmed and then as
  confirmed leaves it confirmed only and \<^verbatim>\<open>FindAny\<close> returns it as such.
\<close>
lemma pools_exclusive:
  assumes "smc_inv E s" and "AddUnconfirmed E (ct_Transaction c) s = Some s1"
    and "AddConfirmed E c s1 = Some s2"
  shows "smc_inv E s1 \<and> smc_inv E s2 \<and>
         (\<exists>oid. IdentifiableTx_Id E (ct_Transaction c) = Some oid \<and>
            unconfirmedPool s2 oid = None \<and> FindConfirmed oid s2 = Some c \<and>
            FindAny oid s2 = Some (ConfirmedTx_ToUnified c) \<and>
            FindAny oid s1 = Some (IdentifiableTx_ToUnified (ct_Transaction c)))"
proof -
  have "smc_inv E s1" using smc_inv_ops(2) [OF assms(1,2)] .
  moreover from this have "smc_inv E s2" using assms(3) by (rule smc_inv_ops(1))
  ultimately show ?thesis
    using assms(2,3)
    by (auto simp: AddConfirmed_def AddUnconfirmed_def FindAny_def FindConfirmed_def Pool_defs
        Let_def split: option.splits)
qed

text \<open>
  \<^verbatim>\<open>RemoveAll\<close> never returns on a non-empty list: it holds the pool's lock while \<^verbatim>\<open>Remove\<close> waits for
  the same lock.
\<close>
lemma RemoveAll_deadlocks:
  "Pool_RemoveAll (oid # oids) p = None"
  using removeAll_loop_held [of "p\<lparr>lock_held := True\<rparr>" "oid # oids" "[]"]
  by (simp add: Pool_RemoveAll_def Pool_Lock_def del: removeAll_loop.simps)

end
