(* ===== verification/Wallet_Cache.thy ===== *)
theory Wallet_Cache
  imports Grape_Prelude
begin

text \<open>
  The cache of wallet balances of the current slice of the DAG: \<^verbatim>\<open>src/dag/slice.go\<close>. For every wallet
  it holds the balances after each transaction of the slice, the latest last. A wallet that is not
  cached is looked up in the pins; that lookup, \<^verbatim>\<open>_pins_.unsafe_getLatestBalance\<close>, is the argument
  \<open>pinned\<close> of the operations and is supplied by the theory of pins. Every method holds the cache's
  mutex and is one atomic step; balances are never mutated in place, so they are values.
\<close>

section \<open>The cache and its operations\<close>

type_synonym wallet_cache = "string \<rightharpoonup> (string \<times> int) list"
type_synonym pinned_lookup = "string \<Rightarrow> int option"

datatype cache_error = NegativeBalance string string int

definition newWalletCache :: wallet_cache where
  "newWalletCache = Map.empty"

definition WalletCache_add ::
  "pinned_lookup \<Rightarrow> string \<Rightarrow> string \<Rightarrow> int \<Rightarrow> wallet_cache \<Rightarrow> cache_error option \<times> wallet_cache" where
  "WalletCache_add pinned wallet txId amount wc =
     (let (wc1, loadedBalance) =
        (case wc wallet of
           None \<Rightarrow> (wc(wallet \<mapsto> []), case pinned wallet of None \<Rightarrow> 0 | Some b \<Rightarrow> b)
         | Some [] \<Rightarrow> (wc(wallet \<mapsto> []), case pinned wallet of None \<Rightarrow> 0 | Some b \<Rightarrow> b)
         | Some (p # ps) \<Rightarrow> (wc, snd (last (p # ps))));
          tmpBalance = loadedBalance + amount in
      if tmpBalance < 0 then (Some (NegativeBalance wallet txId tmpBalance), wc1)
      else (None, wc1(wallet \<mapsto> the (wc1 wallet) @ [(txId, tmpBalance)])))"

definition WalletCache_sub ::
  "pinned_lookup \<Rightarrow> string \<Rightarrow> string \<Rightarrow> int \<Rightarrow> wallet_cache \<Rightarrow> cache_error option \<times> wallet_cache" where
  "WalletCache_sub pinned wallet txId amount wc =
     (let (wc1, loadedBalance) =
        (case wc wallet of
           None \<Rightarrow> (wc(wallet \<mapsto> []), case pinned wallet of None \<Rightarrow> 0 | Some b \<Rightarrow> b)
         | Some [] \<Rightarrow> (wc(wallet \<mapsto> []), case pinned wallet of None \<Rightarrow> 0 | Some b \<Rightarrow> b)
         | Some (p # ps) \<Rightarrow> (wc, snd (last (p # ps))));
          tmpBalance = loadedBalance - amount in
      if tmpBalance < 0 then (Some (NegativeBalance wallet txId tmpBalance), wc1)
      else (None, wc1(wallet \<mapsto> the (wc1 wallet) @ [(txId, tmpBalance)])))"

text \<open>\<open>None\<close> is the error that the wallet is not in the cache.\<close>

definition WalletCache_get :: "wallet_cache \<Rightarrow> string \<Rightarrow> int option" where
  "WalletCache_get wc wallet =
     (case wc wallet of
        None \<Rightarrow> None
      | Some bs \<Rightarrow> if length bs > 0 then Some (snd (last bs)) else None)"

definition WalletCache_remove :: "string \<Rightarrow> string list \<Rightarrow> wallet_cache \<Rightarrow> wallet_cache" where
  "WalletCache_remove wallet txIds wc =
     (case wc wallet of None \<Rightarrow> wc | Some _ \<Rightarrow> wc(wallet := None))"

definition copyBalances :: "(string \<times> int) list \<Rightarrow> (string \<times> int) list" where
  "copyBalances balances = [] @ balances"

definition WalletCache_copyFrom :: "string visit_order \<Rightarrow> wallet_cache \<Rightarrow> wallet_cache" where
  "WalletCache_copyFrom ord another =
     fold (\<lambda>address wc. wc(address \<mapsto> copyBalances (the (another address))))
       (ord (dom another)) Map.empty"

section \<open>Effective balances\<close>

text \<open>
  The balance of a wallet as every reader of the cache computes it: the cached balance, else the
  pinned one, else nothing.
\<close>

definition effective :: "pinned_lookup \<Rightarrow> wallet_cache \<Rightarrow> string \<Rightarrow> int" where
  "effective pinned wc w =
     (case WalletCache_get wc w of
        Some b \<Rightarrow> b
      | None \<Rightarrow> (case pinned w of Some b \<Rightarrow> b | None \<Rightarrow> 0))"

definition cache_ok :: "wallet_cache \<Rightarrow> bool" where
  "cache_ok wc \<longleftrightarrow> (\<forall>w bs. wc w = Some bs \<longrightarrow> (\<forall>p \<in> set bs. 0 \<le> snd p))"

definition pinned_ok :: "pinned_lookup \<Rightarrow> bool" where
  "pinned_ok pinned \<longleftrightarrow> (\<forall>w b. pinned w = Some b \<longrightarrow> 0 \<le> b)"

text \<open>Adding and subtracting differ in the sign of the amount only.\<close>

lemma WalletCache_sub_add:
  "WalletCache_sub pinned w i a wc = WalletCache_add pinned w i (- a) wc"
  by (simp add: WalletCache_sub_def WalletCache_add_def)

text \<open>The two outcomes of an addition.\<close>

lemma WalletCache_add_effective:
  "WalletCache_add pinned w i a wc =
     (let wc1 = (if WalletCache_get wc w = None then wc(w \<mapsto> []) else wc);
          b = effective pinned wc w + a in
      if b < 0 then (Some (NegativeBalance w i b), wc1)
      else (None, wc1(w \<mapsto> the (wc1 w) @ [(i, b)])))"
  by (auto simp: WalletCache_add_def effective_def WalletCache_get_def Let_def
      split: option.splits list.splits)

lemma WalletCache_get_blank:
  "WalletCache_get wc w = None \<Longrightarrow> WalletCache_get (wc(w \<mapsto> [])) = WalletCache_get wc"
  by (auto simp: WalletCache_get_def fun_eq_iff)

lemma WalletCache_add_cases:
  obtains
    (accepted) bs where
      "WalletCache_add pinned w i a wc = (None, wc(w \<mapsto> bs @ [(i, effective pinned wc w + a)]))"
      "0 \<le> effective pinned wc w + a" "bs = [] \<or> wc w = Some bs"
  | (refused) wc' e where "WalletCache_add pinned w i a wc = (Some e, wc')"
      "effective pinned wc w + a < 0" "WalletCache_get wc' = WalletCache_get wc"
      "wc' = wc \<or> wc' = wc(w \<mapsto> [])"
proof (cases "effective pinned wc w + a < 0")
  case True
  let ?wc = "if WalletCache_get wc w = None then wc(w \<mapsto> []) else wc"
  show thesis
  proof (rule refused)
    show "WalletCache_add pinned w i a wc = (Some (NegativeBalance w i (effective pinned wc w + a)), ?wc)"
      using True by (simp add: WalletCache_add_effective)
    show "WalletCache_get ?wc = WalletCache_get wc" by (simp add: WalletCache_get_blank)
    show "?wc = wc \<or> ?wc = wc(w \<mapsto> [])" by simp
  qed (rule True)
next
  case False
  show thesis
  proof (cases "WalletCache_get wc w = None")
    case True
    show thesis
      by (rule accepted [of "[]"]) (use True False in \<open>auto simp: WalletCache_add_effective Let_def\<close>)
  next
    case get: False
    then obtain bs where "wc w = Some bs" by (auto simp: WalletCache_get_def split: option.splits)
    show thesis
      by (rule accepted [of bs])
        (use get False \<open>wc w = Some bs\<close> in \<open>auto simp: WalletCache_add_effective Let_def\<close>)
  qed
qed

lemma effective_snoc:
  "effective pinned (wc(w \<mapsto> bs @ [(i, b)])) u = (if u = w then b else effective pinned wc u)"
  by (auto simp: effective_def WalletCache_get_def)

lemma effective_get_cong:
  "WalletCache_get wc' = WalletCache_get wc \<Longrightarrow> effective pinned wc' = effective pinned wc"
  by (auto simp: effective_def fun_eq_iff)

lemma effective_add:
  assumes "WalletCache_add pinned w i a wc = (r, wc')"
  shows "effective pinned wc' u =
       (if r = None \<and> u = w then effective pinned wc w + a else effective pinned wc u)"
proof (cases rule: WalletCache_add_cases [of pinned w i a wc])
  case (accepted bs)
  from accepted(1) assms have "r = None" "wc' = wc(w \<mapsto> bs @ [(i, effective pinned wc w + a)])"
    by simp_all
  then show ?thesis by (simp only: effective_snoc) simp
next
  case (refused wc'' e)
  then show ?thesis using assms effective_get_cong [OF refused(3), of pinned] by simp
qed

lemma add_accepted_iff:
  "fst (WalletCache_add pinned w i a wc) = None \<longleftrightarrow> 0 \<le> effective pinned wc w + a"
  by (cases rule: WalletCache_add_cases [of pinned w i a wc]) auto

lemma effective_nonneg:
  assumes "cache_ok wc" and "pinned_ok pinned"
  shows "0 \<le> effective pinned wc w"
  using assms
  by (auto simp: effective_def WalletCache_get_def cache_ok_def pinned_ok_def split: option.splits)

lemma cache_ok_new [simp]: "cache_ok newWalletCache"
  by (simp add: cache_ok_def newWalletCache_def)

lemma cache_ok_add [inv_intros]:
  assumes "cache_ok wc" and "WalletCache_add pinned w i a wc = (r, wc')"
  shows "cache_ok wc'"
proof (cases rule: WalletCache_add_cases [of pinned w i a wc])
  case (accepted bs)
  with assms(2) have "wc' = wc(w \<mapsto> bs @ [(i, effective pinned wc w + a)])" by simp
  moreover have "\<forall>p \<in> set bs. 0 \<le> snd p"
    using accepted(3) assms(1) by (auto simp: cache_ok_def)
  ultimately show ?thesis using assms(1) accepted(2) by (simp add: cache_ok_def)
next
  case (refused wc'' e)
  then have "wc' = wc \<or> wc' = wc(w \<mapsto> [])" using assms(2) by simp
  then show ?thesis using assms(1) by (fastforce simp: cache_ok_def split: if_splits)
qed

lemma cache_ok_sub [inv_intros]:
  "cache_ok wc \<Longrightarrow> WalletCache_sub pinned w i a wc = (r, wc') \<Longrightarrow> cache_ok wc'"
  unfolding WalletCache_sub_add by (rule cache_ok_add)

lemma WalletCache_remove_eq: "WalletCache_remove w ids wc = wc(w := None)"
  by (auto simp: WalletCache_remove_def split: option.splits)

lemma cache_ok_remove [inv_intros]: "cache_ok wc \<Longrightarrow> cache_ok (WalletCache_remove w ids wc)"
  by (auto simp: cache_ok_def WalletCache_remove_eq)

lemma fold_upd_Some: "fold (\<lambda>k m. m(k \<mapsto> f k)) ks m x = (if x \<in> set ks then Some (f x) else m x)"
  by (induction ks arbitrary: m) auto

lemma copyFrom_eq:
  assumes "range_order ord" and "finite (dom another)"
  shows "WalletCache_copyFrom ord another = another"
proof
  fix x
  show "WalletCache_copyFrom ord another x = another x"
    using assms
    by (cases "another x")
      (simp_all add: WalletCache_copyFrom_def copyBalances_def fold_upd_Some map_iter domIff)
qed

text \<open>
  The contract a client of the cache relies on: a balance can be read for every wallet, changing it
  by an amount is accepted exactly when the result is not negative, and then changes that wallet's
  balance only; a refused change is not visible.
\<close>

locale balance_ledger =
  fixes inv :: "'s \<Rightarrow> bool" and bal :: "'s \<Rightarrow> string \<Rightarrow> int"
    and change :: "string \<Rightarrow> string \<Rightarrow> int \<Rightarrow> 's \<Rightarrow> cache_error option \<times> 's"
  assumes change_inv: "inv s \<Longrightarrow> change w i a s = (r, s') \<Longrightarrow> inv s'"
    and change_accepts: "inv s \<Longrightarrow> change w i a s = (r, s') \<Longrightarrow> r = None \<longleftrightarrow> 0 \<le> bal s w + a"
    and change_bal: "inv s \<Longrightarrow> change w i a s = (r, s') \<Longrightarrow>
        bal s' u = (if r = None \<and> u = w then bal s w + a else bal s u)"
    and bal_nonneg: "inv s \<Longrightarrow> 0 \<le> bal s w"
begin

text \<open>A transfer debits the sender first and credits the receiver only when the debit was accepted.\<close>

lemma transfer_accepted:
  assumes "inv s" and "w \<noteq> u" and "0 \<le> a"
    and "change w i (- a) s = (None, s1)" and "change u i a s1 = (r, s2)"
  shows "r = None \<and> inv s2 \<and> bal s2 w = bal s w - a \<and> bal s2 u = bal s u + a \<and>
         (\<forall>v. v \<noteq> w \<longrightarrow> v \<noteq> u \<longrightarrow> bal s2 v = bal s v)"
proof -
  have s1: "inv s1" "\<And>v. bal s1 v = (if v = w then bal s w - a else bal s v)"
    using change_inv [OF assms(1,4)] change_bal [OF assms(1,4)] by simp_all
  have "0 \<le> bal s1 u + a" using bal_nonneg [OF s1(1), of u] assms(3) by simp
  then have "r = None" using change_accepts [OF s1(1) assms(5)] by blast
  then show ?thesis
    using change_inv [OF s1(1) assms(5)] change_bal [OF s1(1) assms(5)] s1(2) assms(2) by simp
qed

lemma transfer_refused:
  assumes "inv s" and "change w i (- a) s = (Some e, s1)"
  shows "inv s1 \<and> bal s1 = bal s \<and> bal s w < a"
proof -
  have "bal s1 u = bal s u" for u using change_bal [OF assms] by simp
  then show ?thesis using change_inv [OF assms] change_accepts [OF assms] by auto
qed

end

end
