(* ===== verification/Dag_Node.thy ===== *)
theory Dag_Node
  imports Messages
begin

text \<open>
  Vertices of the DAG: \<^verbatim>\<open>src/dag/node.go\<close> and the comparison helpers of \<^verbatim>\<open>src/dag/utils.go\<close>.

  A \<^verbatim>\<open>*Node\<close> is an address; the nodes live in a heap, a function from addresses to nodes. Go never
  leaves a pointer dangling, so the heap is total; a pointer that may be nil is an \<open>addr option\<close>.
  Floating-point numbers are bit patterns and the operations on them are the fields of the record
  \<open>flops\<close>, so that everything proved holds for whatever IEEE arithmetic computes.
\<close>

section \<open>Floating-point operations\<close>

type_synonym float32 = "32 word"

record flops =
  f_lit :: "int \<Rightarrow> float64"
  f_add :: "float64 \<Rightarrow> float64 \<Rightarrow> float64"
  f_mul :: "float64 \<Rightarrow> float64 \<Rightarrow> float64"
  f_div :: "float64 \<Rightarrow> float64 \<Rightarrow> float64"
  f_neg :: "float64 \<Rightarrow> float64"
  f_exp :: "float64 \<Rightarrow> float64"
  f_less :: "float64 \<Rightarrow> float64 \<Rightarrow> bool"
  f_le :: "float64 \<Rightarrow> float64 \<Rightarrow> bool"
  f_narrow :: "float64 \<Rightarrow> float32"
  f_widen :: "float32 \<Rightarrow> float64"

section \<open>Nodes\<close>

type_synonym addr = nat

record NodeID =
  nid_id :: uuid
  nid_address :: string
  nid_idMajor :: "64 word"
  nid_idMinor :: "32 word"

record Height =
  minheight :: "64 word"
  maxheight :: "64 word"

record Node =
  n_id :: NodeID
  n_cumWeight :: float64
  n_txWeight :: float64
  n_time :: time
  n_valid :: bool
  n_height :: Height
  n_tx :: transaction
  n_sources :: "addr list"
  n_targets :: "addr list"
  n_missingTargets :: "string \<rightharpoonup> bool"

type_synonym heap = "addr \<Rightarrow> Node"

abbreviation node_uuid :: "heap \<Rightarrow> addr \<Rightarrow> uuid" where
  "node_uuid h a \<equiv> nid_id (n_id (h a))"

definition zeroHeight :: Height where
  "zeroHeight = \<lparr>minheight = 0, maxheight = 0\<rparr>"

record pb_NodeId =
  pbn_Id :: bytes
  pbn_IdMajor :: "64 word"
  pbn_IdMinor :: "32 word"
  pbn_Address :: string

record pb_Node =
  pbn_CumWeight :: float32
  pbn_Height :: Height
  pbn_NodeId :: pb_NodeId
  pbn_Time :: pb_timestamp
  pbn_Tx :: pb_Txv1
  pbn_TxWeight :: float32
  pbn_Valid :: bool
  pbn_MissingTargets :: "string \<rightharpoonup> bool"

text \<open>\<open>None\<close> is a panic while marshalling the transaction.\<close>

definition Node_ToPbNode :: "ext \<Rightarrow> flops \<Rightarrow> int \<Rightarrow> heap \<Rightarrow> addr \<Rightarrow> pb_Node option" where
  "Node_ToPbNode E F now_ms h a =
     (let n = h a in
      map_option (\<lambda>t.
        \<lparr>pbn_CumWeight = f_narrow F (n_cumWeight n), pbn_Height = n_height n,
         pbn_NodeId = \<lparr>pbn_Id = uuid_MarshalBinary E (nid_id (n_id n)),
                       pbn_IdMajor = nid_idMajor (n_id n), pbn_IdMinor = nid_idMinor (n_id n),
                       pbn_Address = nid_address (n_id n)\<rparr>,
         pbn_Time = ts_New E (n_time n), pbn_Tx = t,
         pbn_TxWeight = f_narrow F (n_txWeight n), pbn_Valid = n_valid n,
         pbn_MissingTargets =
           fold (\<lambda>v m. m(uuid_String E (node_uuid h v) \<mapsto> True)) (n_targets n) Map.empty\<rparr>)
        (MarshalBinary E now_ms (n_tx n)))"

text \<open>\<^verbatim>\<open>FromPbNode\<close> overwrites its receiver except for the links to other nodes.\<close>

definition Node_FromPbNode :: "ext \<Rightarrow> flops \<Rightarrow> pb_Node \<Rightarrow> Node \<Rightarrow> Node option" where
  "Node_FromPbNode E F p n =
     map_option (\<lambda>t.
       n\<lparr>n_cumWeight := f_widen F (pbn_CumWeight p), n_height := pbn_Height p,
         n_id := \<lparr>nid_id = uuid_assign E (pbn_Id (pbn_NodeId p)) uuid_Nil,
                  nid_address = pbn_Address (pbn_NodeId p),
                  nid_idMajor = pbn_IdMajor (pbn_NodeId p), nid_idMinor = pbn_IdMinor (pbn_NodeId p)\<rparr>,
         n_time := ts_AsTime E (pbn_Time p), n_tx := t,
         n_txWeight := f_widen F (pbn_TxWeight p), n_valid := pbn_Valid p,
         n_missingTargets := pbn_MissingTargets p\<rparr>)
       (UnmarshalBinary E (pbn_Tx p))"

text \<open>The zero value \<^verbatim>\<open>&Node{}\<close>; its transaction is a nil interface, which \<open>FromPbNode\<close> replaces.\<close>

definition zeroNode :: "flops \<Rightarrow> transaction \<Rightarrow> Node" where
  "zeroNode F t =
     \<lparr>n_id = \<lparr>nid_id = uuid_Nil, nid_address = [], nid_idMajor = 0, nid_idMinor = 0\<rparr>,
      n_cumWeight = f_lit F 0, n_txWeight = f_lit F 0, n_time = goZeroTime, n_valid = False,
      n_height = zeroHeight, n_tx = t, n_sources = [], n_targets = [],
      n_missingTargets = Map.empty\<rparr>"

section \<open>Addresses of nodes\<close>

text \<open>The standard base-64 encoding with padding.\<close>

definition b64Digit :: "nat \<Rightarrow> char" where
  "b64Digit n = ''ABCDEFGHIJKLMNOPQRSTUVWXYZabcdefghijklmnopqrstuvwxyz0123456789+/'' ! n"

fun b64Encode :: "bytes \<Rightarrow> string" where
  "b64Encode [] = []"
| "b64Encode [a] =
     [b64Digit (unat a div 4), b64Digit (unat a mod 4 * 16), CHR ''='', CHR ''='']"
| "b64Encode [a, b] =
     [b64Digit (unat a div 4), b64Digit (unat a mod 4 * 16 + unat b div 16),
      b64Digit (unat b mod 16 * 4), CHR ''='']"
| "b64Encode (a # b # c # rest) =
     b64Digit (unat a div 4) # b64Digit (unat a mod 4 * 16 + unat b div 16) #
     b64Digit (unat b mod 16 * 4 + unat c div 64) # b64Digit (unat c mod 64) # b64Encode rest"

definition GenerateAddress :: "Node \<Rightarrow> Node option" where
  "GenerateAddress n =
     map_option (\<lambda>sig. n\<lparr>n_id := (n_id n)\<lparr>nid_address := b64Encode sig\<rparr>\<rparr>) (GetSignature (n_tx n))"

section \<open>Construction\<close>

definition genRandomTxWeight :: "flops \<Rightarrow> float64 \<Rightarrow> float64 \<Rightarrow> float64 \<Rightarrow> float64 \<Rightarrow> float64" where
  "genRandomTxWeight F mean lower upper normal =
     (let txWeight = f_add F normal mean in
      if f_less F txWeight lower then lower
      else if f_less F upper txWeight then upper
      else txWeight)"

text \<open>
  \<^verbatim>\<open>NewDagNode\<close>: the fresh identifier, the weight and the time are arguments. The counter
  \<^verbatim>\<open>prevMajor\<close> of the DAG advances in every case; the result is the node, or \<open>None\<close> inside for nil. The
  outer \<open>None\<close> is a panic.
\<close>

definition NewDagNode ::
  "ext \<Rightarrow> flops \<Rightarrow> int \<Rightarrow> uuid \<Rightarrow> float64 \<Rightarrow> time \<Rightarrow> 32 word \<Rightarrow> transaction \<Rightarrow> bool \<Rightarrow> 64 word \<Rightarrow>
     (64 word \<times> Node option) option" where
  "NewDagNode E F network fresh weight now prevMinor t verifyRequired prevMajor =
     (let major = prevMajor + 1;
          n = (zeroNode F t)\<lparr>n_id := \<lparr>nid_id = fresh, nid_address = [], nid_idMajor = major,
                                     nid_idMinor = prevMinor\<rparr>,
                            n_txWeight := weight, n_time := now\<rparr> in
      case GetChainType t of
        None \<Rightarrow> None
      | Some ct \<Rightarrow>
          if int (unat ct) \<noteq> network then Some (major, None)
          else if verifyRequired then
            (case VerifySignature E t of
               None \<Rightarrow> None
             | Some (ok, t') \<Rightarrow>
                 if \<not> ok then Some (major, None)
                 else map_option (\<lambda>n'. (major, Some n'))
                        (GenerateAddress (n\<lparr>n_tx := t', n_valid := True\<rparr>)))
          else map_option (\<lambda>n'. (major, Some n')) (GenerateAddress (n\<lparr>n_valid := True\<rparr>)))"

definition NodeToVertex :: "Node \<Rightarrow> Vertex" where
  "NodeToVertex n =
     \<lparr>v_Id = \<lparr>vi_Id = nid_id (n_id n), vi_Address = nid_address (n_id n),
              vi_IdMajor = nid_idMajor (n_id n), vi_IdMinor = nid_idMinor (n_id n)\<rparr>,
      v_CumWeight = n_cumWeight n, v_TxWeight = n_txWeight n, v_Timestamp = n_time n, v_Tx = n_tx n\<rparr>"

definition vertexToNode :: "flops \<Rightarrow> Vertex \<Rightarrow> Node" where
  "vertexToNode F v =
     (zeroNode F (v_Tx v))\<lparr>n_id := \<lparr>nid_id = vi_Id (v_Id v), nid_address = [],
          nid_idMajor = vi_IdMajor (v_Id v), nid_idMinor = vi_IdMinor (v_Id v)\<rparr>,
        n_cumWeight := v_CumWeight v, n_txWeight := v_TxWeight v, n_time := v_Timestamp v\<rparr>"

definition GetID :: "heap \<Rightarrow> addr option \<Rightarrow> uuid" where
  "GetID h n = (case n of None \<Rightarrow> uuid_Nil | Some a \<Rightarrow> node_uuid h a)"

section \<open>Comparisons\<close>

record Link =
  link_source :: addr
  link_target :: addr

definition Node_Equal :: "heap \<Rightarrow> addr option \<Rightarrow> addr option \<Rightarrow> bool" where
  "Node_Equal h thisNode thatNode =
     (case (thisNode, thatNode) of
        (Some a, Some b) \<Rightarrow> node_uuid h a = node_uuid h b
      | _ \<Rightarrow> False)"

text \<open>The pointer comparisons that come first only short-cut the field comparisons.\<close>

definition NodeID_Equal :: "NodeID \<Rightarrow> NodeID \<Rightarrow> bool" where
  "NodeID_Equal this that =
     (if nid_id this \<noteq> nid_id that then False
      else if nid_idMajor this \<noteq> nid_idMajor that then False
      else if nid_idMinor this \<noteq> nid_idMinor that then False
      else True)"

definition Link_Equal :: "heap \<Rightarrow> Link \<Rightarrow> Link \<Rightarrow> bool" where
  "Link_Equal h this that =
     (if \<not> Node_Equal h (Some (link_source this)) (Some (link_source that)) then False
      else if \<not> Node_Equal h (Some (link_target this)) (Some (link_target that)) then False
      else True)"

section \<open>Parties of a payment\<close>

text \<open>
  The two wallet addresses and the amount a payment moves, as the balance code computes them:
  \<^verbatim>\<open>BytesToAddress\<close> of sender and recipient. \<open>None\<close> is a panic.
\<close>

definition addressOf :: "bytes \<Rightarrow> string option" where
  "addressOf b = (case BytesToAddress b of Inl _ \<Rightarrow> None | Inr a \<Rightarrow> Some a)"

definition senderAddr :: "ext \<Rightarrow> transaction \<Rightarrow> string option" where
  "senderAddr E t = Option.bind (GetSender E t) addressOf"

definition recipientAddr :: "transaction \<Rightarrow> string option" where
  "recipientAddr t = addressOf (GetRecipient t)"

section \<open>Lemmas\<close>

lemma addressOf_inject:
  "addressOf a = Some x \<Longrightarrow> addressOf b = Some x \<Longrightarrow> a = b"
  by (auto simp: addressOf_def BytesToAddress_def split: if_splits)

lemma addressOf_Some: "length b = 20 \<Longrightarrow> addressOf b = Some (''0x'' @ hexEncode b)"
  by (simp add: addressOf_def)

lemma fold_missing: "fold (\<lambda>v m. m(f v \<mapsto> True)) vs m0 x = (if x \<in> f ` set vs then Some True else m0 x)"
  by (induction vs arbitrary: m0) auto

section \<open>Properties\<close>

text \<open>
  Nodes survive the exchange with peers: for a node whose weights are exactly representable in
  single precision, the receiver rebuilds identity, address, versions, weights, height, time,
  validity and transaction, and learns precisely the identifiers of the node's targets as missing
  targets.
\<close>
lemma node_roundtrip:
  assumes "ext_ok E" and "Node_ToPbNode E F now_ms h a = Some p"
    and "f_widen F (f_narrow F (n_cumWeight (h a))) = n_cumWeight (h a)"
    and "f_widen F (f_narrow F (n_txWeight (h a))) = n_txWeight (h a)"
  shows "Node_FromPbNode E F p (zeroNode F t0) =
           Some ((h a)\<lparr>n_sources := [], n_targets := [],
             n_missingTargets := (\<lambda>s. if s \<in> (\<lambda>v. uuid_String E (node_uuid h v)) ` set (n_targets (h a))
                                      then Some True else None)\<rparr>)"
proof -
  obtain t where t: "MarshalBinary E now_ms (n_tx (h a)) = Some t"
    using assms(2) by (auto simp: Node_ToPbNode_def Let_def)
  have "UnmarshalBinary E t = Some (n_tx (h a))"
    using assms(1) t by (cases "n_tx (h a)")
      (auto simp: UnmarshalBinary_def Txv1_unmarshal_marshal EthTx_UnmarshalBinary_def
        Txv1_MarshalBinary_def EthTx_MarshalBinary_def ext_okD split: option.splits
        dest: Txv1_unmarshal_marshal [of E, unfolded Txv1_MarshalBinary_def])
  then show ?thesis
    using assms t
    by (auto simp: Node_ToPbNode_def Node_FromPbNode_def Let_def ext_okD zeroNode_def fold_missing
        fun_eq_iff uuid_assign_def)
qed

definition demo_flops :: flops where
  "demo_flops = \<lparr>f_lit = word_of_int, f_add = (+), f_mul = (*), f_div = (\<lambda>a b. a), f_neg = uminus,
     f_exp = (\<lambda>a. a), f_less = (<), f_le = (\<le>), f_narrow = ucast, f_widen = ucast\<rparr>"

text \<open>
  A node enters the system only from the own network and only with a valid signature: whenever
  \<^verbatim>\<open>NewDagNode\<close> with verification returns a node, its transaction's chain is the configured network,
  the signature check of the transaction succeeded, and the node is marked valid and carries the
  fresh identifier and the advanced version counter.
\<close>
lemma NewDagNode_checked:
  assumes "NewDagNode E F network fresh weight now prevMinor t True prevMajor = Some (major, Some n)"
  shows "(\<exists>ct. GetChainType t = Some ct \<and> int (unat ct) = network) \<and>
         VerifySignature E t = Some (True, n_tx n) \<and> n_valid n \<and>
         nid_id (n_id n) = fresh \<and> major = prevMajor + 1 \<and> nid_idMajor (n_id n) = major"
  using assms
  by (auto simp: NewDagNode_def GenerateAddress_def Let_def split: option.splits if_splits)

end
