(* ===== verification/Pins.thy ===== *)
theory Pins
  imports Dag_Node Wallet_Cache Smc_Pool
begin

text \<open>
  Pinning transactions and the list of pins: \<^verbatim>\<open>src/tx/pb/txpin.go\<close>, \<^verbatim>\<open>src/tx/pb/txpin.proto\<close>, the
  lookup and balance methods of \<^verbatim>\<open>NodeTxPin\<close> in \<^verbatim>\<open>src/dag/pin.go\<close>, and \<^verbatim>\<open>UpdateBalanceIfValid\<close> of
  \<^verbatim>\<open>src/dag/node.go\<close>, which moves a payment between two wallets of the cache.

  A pin is a value: the sources fill a pin before it is appended and change an appended one only in
  \<^verbatim>\<open>UpdateIfValid\<close>, where the model updates the list. The methods hold the mutex of the pins and are
  atomic steps; the debugging string \<^verbatim>\<open>last\<close> is empty outside them and left out. The nested messages
  of a received pin are taken to be present.
\<close>

section \<open>Messages\<close>

record pb_SiteID =
  si_Id :: bytes
  si_Address :: string
  si_IdMajor :: "64 word"
  si_IdMinor :: "32 word"

record pb_TxExecLog =
  el_ContractAddress :: bytes
  el_Topics :: "bytes list"
  el_Data :: bytes
  el_PinTxNumber :: "64 word"

datatype TxStatus = SUCCESSFUL | FAILED

record pb_TxReceipt =
  rc_FuelUsed :: "32 word"
  rc_Status :: TxStatus
  rc_StatusMessage :: string
  rc_Logs :: "pb_TxExecLog list"

record pb_AccountData =
  ad_Address :: bytes
  ad_Balance :: bytes
  ad_Nonce :: "64 word"
  ad_Codehash :: bytes
  ad_Code :: bytes

text \<open>The oneof of a \<^verbatim>\<open>Diff\<close> message; it may be unset in a received message.\<close>

datatype pb_Diff = PbMappingDiff Mapping | PbAccountDiff pb_AccountData | PbNoDiff

record pb_ExecutedSmcTx =
  ex_Tx :: pb_Txv1
  ex_Receipt :: pb_TxReceipt

record TxPin =
  pin_Prev :: bytes
  pin_Ts :: pb_timestamp
  pin_Sites :: "pb_SiteID list"
  pin_Nodes :: "pb_Node list"
  pin_Balance :: "string \<rightharpoonup> bytes"
  pin_Pk :: bytes
  pin_Sign :: bytes
  pin_SmcTxs :: "pb_ExecutedSmcTx list"
  pin_Diffs :: "pb_Diff list"
  pin_PinNumber :: "64 word"

definition NewTxPin :: "pb_timestamp \<Rightarrow> bytes \<Rightarrow> TxPin" where
  "NewTxPin ts prev =
     \<lparr>pin_Prev = prev, pin_Ts = ts, pin_Sites = [], pin_Nodes = [], pin_Balance = Map.empty,
      pin_Pk = [], pin_Sign = [], pin_SmcTxs = [], pin_Diffs = [], pin_PinNumber = 0\<rparr>"

text \<open>
  Serialising a pin. Protobuf visits the entries of a map in an unspecified order, so the encoder is
  a function of that order as well; \<open>None\<close> is its error.
\<close>

type_synonym pin_marshal = "string visit_order \<Rightarrow> TxPin \<Rightarrow> bytes option"

definition TxPin_Hash :: "ext \<Rightarrow> pin_marshal \<Rightarrow> string visit_order \<Rightarrow> TxPin \<Rightarrow> bytes option" where
  "TxPin_Hash E M ord t = map_option (sha256 E) (M ord t)"

text \<open>\<open>None\<close> is a panic of the signing primitive on a key of the wrong size.\<close>

definition TxPin_generateSignature ::
  "ext \<Rightarrow> pin_marshal \<Rightarrow> string visit_order \<Rightarrow> bytes \<Rightarrow> TxPin \<Rightarrow> TxPin option" where
  "TxPin_generateSignature E M ord pk t =
     (case TxPin_Hash E M ord t of
        None \<Rightarrow> Some t
      | Some payload \<Rightarrow> map_option (\<lambda>sig. t\<lparr>pin_Sign := sig\<rparr>) (DSA_Sign E pk payload))"

definition SignTx :: "ext \<Rightarrow> pin_marshal \<Rightarrow> string visit_order \<Rightarrow> Wallet \<Rightarrow> TxPin \<Rightarrow> TxPin option" where
  "SignTx E M ord w t =
     TxPin_generateSignature E M ord (privateKey w) (t\<lparr>pin_Sign := [], pin_Pk := publicKey w\<rparr>)"

datatype pin_error =
    PinSigLength nat
  | PinMarshal
  | PinCannotVerify
  | UnknownWallet string
  | BalanceNotFound string

text \<open>An error while marshalling leaves the pin without its signature.\<close>

definition VerifyTx ::
  "ext \<Rightarrow> pin_marshal \<Rightarrow> string visit_order \<Rightarrow> TxPin \<Rightarrow> pin_error option \<times> TxPin" where
  "VerifyTx E M ord t =
     (let sz = length (pin_Sign t) in
      if sz < 64 then (Some (PinSigLength sz), t)
      else case TxPin_Hash E M ord (t\<lparr>pin_Sign := []\<rparr>) of
        None \<Rightarrow> (Some PinMarshal, t\<lparr>pin_Sign := []\<rparr>)
      | Some payload \<Rightarrow>
          if DSA_Verify E (pin_Pk t) (pin_Sign t) payload then (None, t)
          else (Some PinCannotVerify, t))"

section \<open>The list of pins\<close>

record NodeTxPin =
  np_NodeType :: int
  np_pins :: "TxPin list"
  np_ready :: bool
  np_downloadedPins :: "TxPin list"

definition newNodeTxPin :: NodeTxPin where
  "newNodeTxPin = \<lparr>np_NodeType = 0, np_pins = [], np_ready = False, np_downloadedPins = []\<rparr>"

definition NodeTxPin_GetPin :: "TxPin list \<Rightarrow> int \<Rightarrow> TxPin option" where
  "NodeTxPin_GetPin pins number =
     (if length pins > 0 then
        if number \<ge> int (length pins) \<or> number < 0 then None
        else if sint (pin_PinNumber (pins ! nat number)) = number then Some (pins ! nat number)
        else map_option fst (goFind (\<lambda>pin. sint (pin_PinNumber pin) = number) pins)
      else None)"

definition GetLastPin :: "TxPin list \<Rightarrow> TxPin option" where
  "GetLastPin pins = (if length pins > 0 then Some (pins ! (length pins - 1)) else None)"

definition getAllFrom :: "TxPin list \<Rightarrow> int \<Rightarrow> TxPin list" where
  "getAllFrom pins fromPinNumber =
     (if length pins > 0 \<and> int (length pins) > fromPinNumber \<and> fromPinNumber \<ge> 0
      then drop (nat fromPinNumber) pins else [])"

text \<open>The loops that visit the pins from the latest to the oldest run over the reversed list.\<close>

definition InPin :: "TxPin list \<Rightarrow> uuid \<Rightarrow> bool" where
  "InPin pins vid =
     list_ex (\<lambda>pin. goFind (\<lambda>site. si_Id site = uuid_slice vid) (pin_Sites pin) \<noteq> None) (List.rev pins)"

fun getById_loop :: "bytes \<Rightarrow> TxPin list \<Rightarrow> pb_Node option" where
  "getById_loop idb [] = None"
| "getById_loop idb (pin # older) =
     (case goFind (\<lambda>node. pbn_Id (pbn_NodeId node) = idb) (pin_Nodes pin) of
        Some (n, _) \<Rightarrow> Some n
      | None \<Rightarrow> getById_loop idb older)"

text \<open>The outer \<open>None\<close> is a panic while decoding the stored transaction, the inner one is nil.\<close>

definition Pins_getById :: "ext \<Rightarrow> flops \<Rightarrow> transaction \<Rightarrow> TxPin list \<Rightarrow> uuid \<Rightarrow> Node option option" where
  "Pins_getById E F t0 pins vid =
     (case getById_loop (uuid_MarshalBinary E vid) (List.rev pins) of
        None \<Rightarrow> Some None
      | Some n \<Rightarrow> map_option Some (Node_FromPbNode E F n (zeroNode F t0)))"

definition SiteID_of :: "Node \<Rightarrow> pb_SiteID" where
  "SiteID_of n =
     \<lparr>si_Id = uuid_slice (nid_id (n_id n)), si_Address = nid_address (n_id n),
      si_IdMajor = nid_idMajor (n_id n), si_IdMinor = nid_idMinor (n_id n)\<rparr>"

text \<open>\<^verbatim>\<open>set\<close> stores the genesis pin.\<close>

definition NodeTxPin_set ::
  "ext \<Rightarrow> pin_marshal \<Rightarrow> string visit_order \<Rightarrow> pb_timestamp \<Rightarrow> Wallet \<Rightarrow> Node \<Rightarrow> string \<Rightarrow>
     TxPin list \<Rightarrow> TxPin list option" where
  "NodeTxPin_set E M ord ts dagWallet genesis wallet pins =
     (let pin = NewTxPin ts [];
          pin1 = pin\<lparr>pin_Balance := (pin_Balance pin)(wallet \<mapsto> Bytes (GetAmount (n_tx genesis))),
                     pin_Sites := pin_Sites pin @ [SiteID_of genesis]\<rparr> in
      map_option (\<lambda>p. pins @ [p]) (SignTx E M ord dagWallet pin1))"

definition CurrentHeight :: "TxPin list \<Rightarrow> int" where
  "CurrentHeight pins =
     (if length pins = 0 then 0 else sint (pin_PinNumber (pins ! (length pins - 1))))"

definition CurrentTS :: "ext \<Rightarrow> TxPin list \<Rightarrow> int" where
  "CurrentTS E pins =
     (if length pins = 0 then 0 else ts_AsTime E (pin_Ts (pins ! (length pins - 1))) div 1000000000)"

text \<open>
  \<^verbatim>\<open>insertIfNotFound\<close>. The log line at its start cuts the hexadecimal form of the signatures to ten
  characters and panics on shorter ones. The insertion shifts the tail by one and writes the new pin
  in front of the pin that refers to it.
\<close>

definition insertBefore :: "TxPin list \<Rightarrow> nat \<Rightarrow> TxPin \<Rightarrow> TxPin list" where
  "insertBefore pins i ptx = (take (i + 1) pins @ drop i pins)[i := ptx]"

definition insertIfNotFound :: "TxPin \<Rightarrow> TxPin list \<Rightarrow> TxPin list option" where
  "insertIfNotFound ptx pins =
     (if length (hexEncode (pin_Sign ptx)) < 10 then None
      else if length (pin_Prev ptx) > 0 \<and> length (hexEncode (pin_Prev ptx)) < 10 then None
      else Some (
        if goFind (\<lambda>p. pin_Sign p = pin_Sign ptx) pins = None then
          if length (pin_Prev ptx) = 0 then
            if length pins > 0 then
              if length (pin_Prev (pins ! 0)) = 0 then
                if pin_Sign (pins ! 0) = pin_Sign ptx then pins
                else pins[0 := ptx]
              else (case goFind (\<lambda>x. pin_Prev x = pin_Sign ptx) pins of
                      Some (_, i) \<Rightarrow> insertBefore pins i ptx
                    | None \<Rightarrow> pins)
            else pins @ [ptx]
          else (case goFind (\<lambda>x. pin_Prev x = pin_Sign ptx) pins of
                  Some (_, i) \<Rightarrow> insertBefore pins i ptx
                | None \<Rightarrow> pins @ [ptx])
        else pins))"

section \<open>Balances\<close>

fun latestBalance_loop :: "string \<Rightarrow> TxPin list \<Rightarrow> bytes option" where
  "latestBalance_loop w [] = None"
| "latestBalance_loop w (pin # older) =
     (case pin_Balance pin w of Some v \<Rightarrow> Some v | None \<Rightarrow> latestBalance_loop w older)"

definition unsafe_getLatestBalance :: "TxPin list \<Rightarrow> string \<Rightarrow> int option" where
  "unsafe_getLatestBalance pins wallet_address =
     map_option SetBytes (latestBalance_loop wallet_address (List.rev pins))"

definition unsafe_getBalanceForWallet ::
  "TxPin list \<Rightarrow> wallet_cache \<Rightarrow> string \<Rightarrow> int \<times> pin_error option" where
  "unsafe_getBalanceForWallet pins wc wallet =
     (case WalletCache_get wc wallet of
        Some sb \<Rightarrow> (sb, None)
      | None \<Rightarrow> (case unsafe_getLatestBalance pins wallet of
                   Some sb \<Rightarrow> (sb, None)
                 | None \<Rightarrow> (0, Some (UnknownWallet wallet))))"

text \<open>\<^verbatim>\<open>GetBalances\<close>; the outer \<open>None\<close> is the panic on a wallet that is not twenty bytes long.\<close>

fun GetBalances_loop ::
  "TxPin list \<Rightarrow> wallet_cache \<Rightarrow> bytes list \<Rightarrow> bytes list \<Rightarrow> (pin_error + bytes list) option" where
  "GetBalances_loop pins wc [] resp = Some (Inr resp)"
| "GetBalances_loop pins wc (wallet # wallets) resp =
     (case addressOf wallet of
        None \<Rightarrow> None
      | Some wallet_str \<Rightarrow>
          (case wc wallet_str of
             Some (b # bs) \<Rightarrow>
               GetBalances_loop pins wc wallets (resp @ [Bytes (snd (last (b # bs)))])
           | _ \<Rightarrow>
               (case latestBalance_loop wallet_str (List.rev pins) of
                  Some balance \<Rightarrow> GetBalances_loop pins wc wallets (resp @ [balance])
                | None \<Rightarrow> Some (Inl (BalanceNotFound wallet_str)))))"

definition GetBalances ::
  "TxPin list \<Rightarrow> wallet_cache \<Rightarrow> bytes list \<Rightarrow> (pin_error + bytes list) option" where
  "GetBalances pins wc wallets = GetBalances_loop pins wc wallets []"

definition GetBalance :: "TxPin list \<Rightarrow> wallet_cache \<Rightarrow> bytes \<Rightarrow> (int \<times> pin_error option) option" where
  "GetBalance pins wc wallet =
     (case GetBalances pins wc [wallet] of
        None \<Rightarrow> None
      | Some (Inl e) \<Rightarrow> Some (0, Some e)
      | Some (Inr balances) \<Rightarrow> Some (SetBytes (balances ! 0), None))"

text \<open>
  \<^verbatim>\<open>UpdateIfValid\<close> looks for the first pin, from the latest to the oldest, that knows the wallet and
  holds enough; it passes over pins that hold too little.
\<close>

fun updateIfValid_loop :: "string \<Rightarrow> int \<Rightarrow> TxPin list \<Rightarrow> bool \<times> TxPin list" where
  "updateIfValid_loop w amount [] = (False, [])"
| "updateIfValid_loop w amount (pin # older) =
     (case pin_Balance pin w of
        Some b \<Rightarrow>
          if SetBytes b - amount \<ge> 0
          then (True, pin\<lparr>pin_Balance := (pin_Balance pin)(w \<mapsto> Bytes (SetBytes b - amount))\<rparr> # older)
          else map_prod (\<lambda>v. v) ((#) pin) (updateIfValid_loop w amount older)
      | None \<Rightarrow> map_prod (\<lambda>v. v) ((#) pin) (updateIfValid_loop w amount older))"

definition UpdateIfValid :: "string \<Rightarrow> int \<Rightarrow> TxPin list \<Rightarrow> bool \<times> TxPin list" where
  "UpdateIfValid wallet amount pins =
     map_prod (\<lambda>v. v) List.rev (updateIfValid_loop wallet amount (List.rev pins))"

text \<open>\<^verbatim>\<open>GetWallets\<close> collects the wallets in a set and visits it; \<open>None\<close> is a panic on a bad address.\<close>

definition allWallets :: "TxPin list \<Rightarrow> wallet_cache \<Rightarrow> string set" where
  "allWallets pins wc = (\<Union>pin \<in> set pins. dom (pin_Balance pin)) \<union> dom wc"

definition GetWallets :: "string visit_order \<Rightarrow> TxPin list \<Rightarrow> wallet_cache \<Rightarrow> bytes list option" where
  "GetWallets ord pins wc =
     those (map (\<lambda>w. case AddressToBytes w of Inl _ \<Rightarrow> None | Inr b \<Rightarrow> Some b)
                (ord (allWallets pins wc)))"

fun pinnedBalances_loop :: "string visit_order \<Rightarrow> int \<Rightarrow> TxPin list \<Rightarrow> (string \<rightharpoonup> bytes) \<Rightarrow> (string \<rightharpoonup> bytes)" where
  "pinnedBalances_loop ord pinNumber [] resp = resp"
| "pinnedBalances_loop ord pinNumber (pin # pins) resp =
     (if sint (pin_PinNumber pin) > pinNumber then resp
      else pinnedBalances_loop ord pinNumber pins
             (fold (\<lambda>w m. m(w \<mapsto> the (pin_Balance pin w))) (ord (dom (pin_Balance pin))) resp))"

definition GetPinnedBalances :: "string visit_order \<Rightarrow> TxPin list \<Rightarrow> int \<Rightarrow> (string \<rightharpoonup> bytes)" where
  "GetPinnedBalances ord pins pinNumber = pinnedBalances_loop ord pinNumber pins Map.empty"

text \<open>
  \<^verbatim>\<open>UpdateBalanceIfValid\<close> of a node: debit the sender, then credit the recipient. The error branch
  reads a balance for its log message only. \<open>None\<close> is a panic on an address of the wrong length.
\<close>

definition UpdateBalanceIfValid ::
  "ext \<Rightarrow> TxPin list \<Rightarrow> Node \<Rightarrow> wallet_cache \<Rightarrow> (bool \<times> wallet_cache) option" where
  "UpdateBalanceIfValid E pins n wc =
     (let subInt = SetBytes (Bytes (GetAmount (n_tx n)));
          txId = uuid_String E (nid_id (n_id n));
          latest = unsafe_getLatestBalance pins in
      case GetSender E (n_tx n) of
        None \<Rightarrow> None
      | Some sender \<Rightarrow>
          if sender \<noteq> GetRecipient (n_tx n) then
            (case addressOf sender of
               None \<Rightarrow> None
             | Some src \<Rightarrow>
                 (case WalletCache_sub latest src txId subInt wc of
                    (Some _, wc1) \<Rightarrow> Some (False, wc1)
                  | (None, wc1) \<Rightarrow>
                      (case addressOf (GetRecipient (n_tx n)) of
                         None \<Rightarrow> None
                       | Some to \<Rightarrow>
                           (case WalletCache_add latest to txId subInt wc1 of
                              (Some _, wc2) \<Rightarrow> Some (False, wc2)
                            | (None, wc2) \<Rightarrow> Some (True, wc2)))))
          else Some (True, wc))"

section \<open>Lemmas\<close>

lemma latestBalance_append:
  "latestBalance_loop w (ps @ qs) =
     (case latestBalance_loop w ps of Some v \<Rightarrow> Some v | None \<Rightarrow> latestBalance_loop w qs)"
  by (induction ps) (auto split: option.splits)

lemma unsafe_getLatestBalance_snoc:
  "unsafe_getLatestBalance (pins @ [pin]) w =
     (case pin_Balance pin w of
        Some v \<Rightarrow> Some (SetBytes v)
      | None \<Rightarrow> unsafe_getLatestBalance pins w)"
  by (simp add: unsafe_getLatestBalance_def split: option.split)

lemma pinned_ok_latest [simp]: "pinned_ok (unsafe_getLatestBalance pins)"
  by (auto simp: pinned_ok_def unsafe_getLatestBalance_def)

text \<open>The wallet cache over the pins is a ledger.\<close>

interpretation cache_ledger:
  balance_ledger cache_ok "effective (unsafe_getLatestBalance pins)"
    "WalletCache_add (unsafe_getLatestBalance pins)" for pins
proof
  fix s w i a r s' u
  assume ok: "cache_ok s" and step: "WalletCache_add (unsafe_getLatestBalance pins) w i a s = (r, s')"
  show "cache_ok s'" by (rule cache_ok_add [OF ok step])
  show "r = None \<longleftrightarrow> 0 \<le> effective (unsafe_getLatestBalance pins) s w + a"
    using add_accepted_iff [of "unsafe_getLatestBalance pins" w i a s] step by simp
  show "effective (unsafe_getLatestBalance pins) s' u =
      (if r = None \<and> u = w then effective (unsafe_getLatestBalance pins) s w + a
       else effective (unsafe_getLatestBalance pins) s u)"
    by (rule effective_add [OF step])
next
  fix s w
  assume "cache_ok s"
  then show "0 \<le> effective (unsafe_getLatestBalance pins) s w" by (simp add: effective_nonneg)
qed

lemma unsafe_getBalanceForWallet_effective:
  "fst (unsafe_getBalanceForWallet pins wc w) = effective (unsafe_getLatestBalance pins) wc w"
  by (simp add: unsafe_getBalanceForWallet_def effective_def split: option.split)

lemma addressOf_length: "addressOf b = Some a \<Longrightarrow> length b = 20 \<and> a = ''0x'' @ hexEncode b"
  by (auto simp: addressOf_def BytesToAddress_def split: if_splits)

lemma insertBefore_eq:
  assumes "i < length pins"
  shows "insertBefore pins i ptx = take i pins @ ptx # drop i pins"
proof -
  have "take (i + 1) pins = take i pins @ [pins ! i]"
    using assms by (simp add: take_Suc_conv_app_nth)
  with assms show ?thesis by (simp add: insertBefore_def list_update_append)
qed

text \<open>The result of \<^verbatim>\<open>Find\<close> when the only match is known.\<close>

lemma goFind_None_nth: "(\<And>j. j < length xs \<Longrightarrow> \<not> p (xs ! j)) \<Longrightarrow> goFind p xs = None"
  by (auto simp: goFind_None_iff in_set_conv_nth)

lemma goFind_unique:
  assumes "i < length xs" and "p (xs ! i)" and "\<And>j. j < length xs \<Longrightarrow> p (xs ! j) \<Longrightarrow> j = i"
  shows "goFind p xs = Some (xs ! i, i)"
proof (cases "goFind p xs")
  case None
  then show ?thesis using assms(1,2) by (auto simp: goFind_None_iff)
next
  case (Some r)
  obtain y k where r: "r = (y, k)" by (cases r)
  from goFind_SomeD [OF Some [unfolded r]] assms(3) have "k = i" "y = xs ! i" by auto
  with Some r show ?thesis by simp
qed

text \<open>A chain of pins: the first has no predecessor, every other refers to the signature before it.\<close>

definition pin_chain :: "TxPin list \<Rightarrow> bool" where
  "pin_chain ps \<longleftrightarrow>
     distinct (map pin_Sign ps) \<and>
     (\<forall>p \<in> set ps. 5 \<le> length (pin_Sign p)) \<and>
     (\<forall>i < length ps. pin_Prev (ps ! i) = (if i = 0 then [] else pin_Sign (ps ! (i - 1))))"

lemma length_hexEncode5: "length (hexEncode b) < 10 \<longleftrightarrow> length b < 5"
  by simp

lemma chain_sign_eq:
  "pin_chain ps \<Longrightarrow> i < length ps \<Longrightarrow> j < length ps \<Longrightarrow> pin_Sign (ps ! i) = pin_Sign (ps ! j) \<Longrightarrow> i = j"
  unfolding pin_chain_def by (metis length_map nth_eq_iff_index_eq nth_map)

lemma nth_without:
  assumes "i < length ps" and "j < length ps - 1"
  shows "(take i ps @ drop (Suc i) ps) ! j = ps ! (if j < i then j else Suc j)"
  using assms by (auto simp: nth_append)

lemma pin_chainD:
  assumes "pin_chain ps" and "i < length ps"
  shows "pin_Prev (ps ! i) = (if i = 0 then [] else pin_Sign (ps ! (i - 1)))"
    and "5 \<le> length (pin_Sign (ps ! i))" and "pin_Sign (ps ! i) \<noteq> []"
    and "pin_Prev (ps ! i) = [] \<or> 5 \<le> length (pin_Prev (ps ! i))"
proof -
  show prev: "pin_Prev (ps ! i) = (if i = 0 then [] else pin_Sign (ps ! (i - 1)))"
    using assms by (simp add: pin_chain_def)
  have sign: "5 \<le> length (pin_Sign (ps ! j))" if "j < length ps" for j
    using assms(1) that by (simp add: pin_chain_def)
  show "5 \<le> length (pin_Sign (ps ! i))" by (rule sign [OF assms(2)])
  then show "pin_Sign (ps ! i) \<noteq> []" by auto
  have "i - 1 < length ps" using assms(2) by simp
  then show "pin_Prev (ps ! i) = [] \<or> 5 \<le> length (pin_Prev (ps ! i))"
    using prev sign by simp
qed

lemma chain_prev_sign:
  assumes "pin_chain ps" and "i < length ps" and "k < length ps" and "pin_Prev (ps ! k) = pin_Sign (ps ! i)"
  shows "k = Suc i"
proof -
  have k0: "k \<noteq> 0" using assms(4) pin_chainD(1) [OF assms(1,3)] pin_chainD(3) [OF assms(1,2)] by metis
  then have "pin_Sign (ps ! (k - 1)) = pin_Sign (ps ! i)"
    using assms(4) pin_chainD(1) [OF assms(1,3)] by simp
  then have "k - 1 = i" using chain_sign_eq [OF assms(1) _ assms(2)] assms(3) by simp
  with k0 show ?thesis by simp
qed

text \<open>Where the two searches of \<^verbatim>\<open>insertIfNotFound\<close> end in a chain without its pin \<open>i\<close>.\<close>

lemma chain_absent:
  assumes "pin_chain ps" and "i < length ps"
  shows "goFind (\<lambda>p. pin_Sign p = pin_Sign (ps ! i)) (take i ps @ drop (Suc i) ps) = None"
proof -
  let ?qs = "take i ps @ drop (Suc i) ps"
  have "pin_Sign (?qs ! j) \<noteq> pin_Sign (ps ! i)" if "j < length ?qs" for j
  proof -
    have j: "j < length ps - 1" using that assms(2) by simp
    have "pin_Sign (ps ! k) \<noteq> pin_Sign (ps ! i)" if "k < length ps" "k \<noteq> i" for k
      using chain_sign_eq [OF assms(1) that(1) assms(2)] that(2) by blast
    from this [of "if j < i then j else Suc j"] show ?thesis
      using nth_without [OF assms(2) j] j by (auto split: if_splits)
  qed
  then show ?thesis by (rule goFind_None_nth)
qed

lemma chain_successor:
  assumes "pin_chain ps" and "i < length ps"
  shows "goFind (\<lambda>x. pin_Prev x = pin_Sign (ps ! i)) (take i ps @ drop (Suc i) ps) =
    (if Suc i < length ps then Some (ps ! Suc i, i) else None)"
proof -
  let ?qs = "take i ps @ drop (Suc i) ps"
  have len: "length ?qs = length ps - 1" using assms(2) by simp
  have uniq: "j = i \<and> Suc i < length ps" if j: "j < length ?qs" "pin_Prev (?qs ! j) = pin_Sign (ps ! i)" for j
  proof -
    let ?k = "if j < i then j else Suc j"
    have "?k < length ps" and "?qs ! j = ps ! ?k"
      using j(1) len nth_without [OF assms(2), of j] by auto
    then have "?k = Suc i" using chain_prev_sign [OF assms(1,2)] j(2) by metis
    then show ?thesis using j(1) len by (auto split: if_splits)
  qed
  show ?thesis
  proof (cases "Suc i < length ps")
    case True
    then have e: "?qs ! i = ps ! Suc i" using nth_without [OF assms(2), of i] by simp
    moreover have "pin_Prev (?qs ! i) = pin_Sign (ps ! i)"
      unfolding e using pin_chainD(1) [OF assms(1) True] by simp
    ultimately show ?thesis using goFind_unique [of i ?qs] uniq True len by simp
  next
    case False
    then have "pin_Prev (?qs ! j) \<noteq> pin_Sign (ps ! i)" if "j < length ?qs" for j
      using uniq [OF that] by blast
    then have "goFind (\<lambda>x. pin_Prev x = pin_Sign (ps ! i)) ?qs = None" by (rule goFind_None_nth)
    then show ?thesis using False by (simp only: if_False)
  qed
qed

lemma pinnedBalances_loop_eq:
  assumes "range_order ord" and "\<forall>p \<in> set ps. finite (dom (pin_Balance p))"
  shows "pinnedBalances_loop ord n ps m w =
     (case latestBalance_loop w (List.rev (takeWhile (\<lambda>p. sint (pin_PinNumber p) \<le> n) ps)) of
        Some v \<Rightarrow> Some v | None \<Rightarrow> m w)"
  using assms(2)
proof (induction ps arbitrary: m)
  case Nil
  then show ?case by simp
next
  case (Cons p ps)
  have "fold (\<lambda>w m. m(w \<mapsto> the (pin_Balance p w))) (ord (dom (pin_Balance p))) m w =
      (case pin_Balance p w of Some v \<Rightarrow> Some v | None \<Rightarrow> m w)"
    using Cons.prems assms(1) by (auto simp: fold_upd_Some map_iter split: option.splits)
  with Cons show ?case by (auto simp: latestBalance_append split: option.splits)
qed

lemma takeWhile_filter_sorted:
  "sorted (map f xs) \<Longrightarrow> takeWhile (\<lambda>x. f x \<le> (n :: 'b :: linorder)) xs = filter (\<lambda>x. f x \<le> n) xs"
  by (induction xs) (auto simp: eq_commute [of "[]"] filter_empty_conv, meson order_trans)

lemma updateIfValid_loop_iff:
  "fst (updateIfValid_loop w a ps) \<longleftrightarrow>
     (\<exists>p \<in> set ps. \<exists>b. pin_Balance p w = Some b \<and> a \<le> SetBytes b)"
  by (induction ps) (auto split: option.splits)

section \<open>Properties\<close>

text \<open>
  C6. Payments are atomic and conserve money. For a payment between two different wallets,
  \<^verbatim>\<open>UpdateBalanceIfValid\<close> accepts exactly when the sender's balance, cached or pinned, covers the
  amount. Accepting moves precisely the amount from sender to recipient and touches no other wallet,
  so the total over any set of wallets with both parties is unchanged; refusing changes no balance.
  Cached balances stay non-negative.
\<close>
theorem payment_atomic:
  fixes pins :: "TxPin list" and n :: Node
  assumes "cache_ok wc" and "GetSender E (n_tx n) = Some sender" and "sender \<noteq> GetRecipient (n_tx n)"
    and "addressOf sender = Some src" and "addressOf (GetRecipient (n_tx n)) = Some to"
  defines "bal \<equiv> effective (unsafe_getLatestBalance pins)" and "a \<equiv> \<bar>GetAmount (n_tx n)\<bar>"
  shows "\<exists>ok wc'. UpdateBalanceIfValid E pins n wc = Some (ok, wc') \<and> cache_ok wc' \<and>
           (ok \<longleftrightarrow> a \<le> bal wc src) \<and>
           (if ok then bal wc' = (bal wc)(src := bal wc src - a, to := bal wc to + a) else bal wc' = bal wc) \<and>
           (\<forall>W. finite W \<longrightarrow> src \<in> W \<longrightarrow> to \<in> W \<longrightarrow> sum (bal wc') W = sum (bal wc) W)"
proof -
  let ?L = "unsafe_getLatestBalance pins" and ?i = "uuid_String E (nid_id (n_id n))"
  have ne: "src \<noteq> to" using assms(3-5) addressOf_inject by metis
  have amount: "SetBytes (Bytes (GetAmount (n_tx n))) = a" by (simp add: a_def SetBytes_Bytes)
  obtain r1 wc1 where s1: "WalletCache_add ?L src ?i (- a) wc = (r1, wc1)" by fastforce
  note accept1 = cache_ledger.change_accepts [OF assms(1) s1, folded bal_def]
  show ?thesis
  proof (cases r1)
    case (Some e)
    have u: "UpdateBalanceIfValid E pins n wc = Some (False, wc1)"
      using assms s1 Some by (simp add: UpdateBalanceIfValid_def Let_def amount WalletCache_sub_add)
    have "cache_ok wc1" "bal wc1 = bal wc" "bal wc src < a"
      using cache_ledger.transfer_refused [OF assms(1) s1 [unfolded Some]] by (simp_all add: bal_def)
    with u show ?thesis by auto
  next
    case None
    obtain r2 wc2 where s2: "WalletCache_add ?L to ?i a wc1 = (r2, wc2)" by fastforce
    have t: "r2 = None" "cache_ok wc2" "bal wc2 src = bal wc src - a" "bal wc2 to = bal wc to + a"
      "\<And>v. v \<noteq> src \<Longrightarrow> v \<noteq> to \<Longrightarrow> bal wc2 v = bal wc v"
      using cache_ledger.transfer_accepted [OF assms(1) ne _ s1 [unfolded None] s2]
      by (simp_all add: bal_def a_def)
    have u: "UpdateBalanceIfValid E pins n wc = Some (True, wc2)"
      using assms s1 s2 None t(1)
      by (simp add: UpdateBalanceIfValid_def Let_def amount WalletCache_sub_add)
    have upd: "bal wc2 = (bal wc)(src := bal wc src - a, to := bal wc to + a)"
      using t ne by auto
    have "sum (bal wc2) W = sum (bal wc) W" if W: "finite W" "src \<in> W" "to \<in> W" for W
    proof -
      have "sum (bal wc2) (W - {src} - {to}) = sum (bal wc) (W - {src} - {to})"
        by (rule sum.cong) (auto simp: t(5))
      then show ?thesis
        using W ne t(3,4) by (simp add: sum.remove [of W src] sum.remove [of "W - {src}" to])
    qed
    moreover have "a \<le> bal wc src" using accept1 None by simp
    ultimately show ?thesis using u t(2) upd by auto
  qed
qed

definition demo_node :: Node where
  "demo_node = zeroNode demo_flops (TxV1 demo_tx)"

theorem payment_atomic_witness:
  "\<exists>ok wc'. UpdateBalanceIfValid demo_ext [] demo_node [''0x'' @ hexEncode (replicate 20 1) \<mapsto> [([], 9)]] =
      Some (ok, wc') \<and> cache_ok wc' \<and> ok"
proof -
  let ?wc = "[''0x'' @ hexEncode (replicate 20 1) \<mapsto> [([], 9)]] :: wallet_cache"
  have f: "addressOf (replicate 20 1) = Some (''0x'' @ hexEncode (replicate 20 1))"
    and t: "addressOf (GetRecipient (n_tx demo_node)) = Some (''0x'' @ hexEncode (replicate 20 2))"
    by (simp_all add: addressOf_Some demo_node_def zeroNode_def demo_tx_simps)
  have ok: "cache_ok ?wc" by (simp add: cache_ok_def)
  have "\<exists>ok wc'. UpdateBalanceIfValid demo_ext [] demo_node ?wc = Some (ok, wc') \<and> cache_ok wc' \<and>
     (ok \<longleftrightarrow> \<bar>GetAmount (n_tx demo_node)\<bar> \<le>
        effective (unsafe_getLatestBalance []) ?wc (''0x'' @ hexEncode (replicate 20 1)))"
    using payment_atomic [OF ok _ _ f t, of demo_ext]
    by (fastforce simp: demo_node_def zeroNode_def demo_tx_simps)
  moreover have "\<bar>GetAmount (n_tx demo_node)\<bar> = 7"
    by (simp add: demo_node_def zeroNode_def Txv1_GetAmount_def demo_tx_simps SetBytes_def)
  ultimately show ?thesis by (simp add: effective_def WalletCache_get_def)
qed

text \<open>
  Every way of asking for a balance gives the same answer. For a twenty-byte wallet the public
  \<^verbatim>\<open>GetBalance\<close> and the internal \<^verbatim>\<open>unsafe_getBalanceForWallet\<close> both return the cached balance, else
  the one of the latest pin that knows the wallet, else zero; both report an error in exactly the last
  case.
\<close>
lemma balance_lookups_agree:
  assumes "cache_ok wc" and "addressOf wallet = Some w"
  shows "\<exists>e e'. GetBalance pins wc wallet = Some (effective (unsafe_getLatestBalance pins) wc w, e) \<and>
           unsafe_getBalanceForWallet pins wc w = (effective (unsafe_getLatestBalance pins) wc w, e') \<and>
           (e = None \<longleftrightarrow> e' = None) \<and>
           (e \<noteq> None \<longleftrightarrow> WalletCache_get wc w = None \<and> (\<forall>p \<in> set pins. w \<notin> dom (pin_Balance p)))"
proof -
  have none: "latestBalance_loop w ps = None \<longleftrightarrow> (\<forall>p \<in> set ps. w \<notin> dom (pin_Balance p))" for ps
    by (induction ps) (auto split: option.splits)
  have nonneg: "0 \<le> snd p" if "wc w = Some bs" "p \<in> set bs" for bs p
    using assms(1) that by (auto simp: cache_ok_def)
  show ?thesis
  proof (cases "WalletCache_get wc w")
    case None
    then have "wc w = None \<or> wc w = Some []"
      by (auto simp: WalletCache_get_def split: option.splits if_splits)
    with None none [of "List.rev pins"] show ?thesis
      by (auto simp: GetBalance_def GetBalances_def assms(2) effective_def
          unsafe_getBalanceForWallet_def unsafe_getLatestBalance_def split: option.splits)
  next
    case (Some b)
    then obtain p ps where bs: "wc w = Some (p # ps)" and b: "b = snd (last (p # ps))"
      by (auto simp: WalletCache_get_def neq_Nil_conv split: option.splits if_splits)
    have "0 \<le> b" using nonneg [OF bs, of "last (p # ps)"] b by simp
    then show ?thesis
      using Some bs b assms(2)
      by (simp add: GetBalance_def GetBalances_def effective_def unsafe_getBalanceForWallet_def)
  qed
qed

text \<open>
  A missing pin finds its place. If one pin is missing from a chain of pins, whichever it is,
  \<^verbatim>\<open>insertIfNotFound\<close> restores the chain; and on the complete chain it changes nothing.
\<close>
lemma insert_repairs_chain:
  assumes "pin_chain ps" and "i < length ps"
  shows "insertIfNotFound (ps ! i) (take i ps @ drop (Suc i) ps) = Some ps \<and>
         insertIfNotFound (ps ! i) ps = Some ps"
proof
  let ?p = "ps ! i" and ?qs = "take i ps @ drop (Suc i) ps"
  note p = pin_chainD [OF assms]
  have guards: "\<not> length (hexEncode (pin_Sign ?p)) < 10"
    "\<not> (0 < length (pin_Prev ?p) \<and> length (hexEncode (pin_Prev ?p)) < 10)"
    using p by auto
  have first: "0 < length (pin_Prev ?p)" if "i \<noteq> 0"
    using that p(1) pin_chainD(3) [OF assms(1), of "i - 1"] assms(2) by simp
  show "insertIfNotFound ?p ?qs = Some ps"
  proof (cases "Suc i < length ps")
    case True
    have "insertBefore ?qs i ?p = ps"
      using insertBefore_eq [of i ?qs ?p] True by (simp add: id_take_nth_drop [symmetric])
    moreover have "pin_Prev (?qs ! 0) \<noteq> []" "?qs \<noteq> []" if "i = 0"
      using nth_without [OF assms(2), of 0] pin_chainD(1) [OF assms(1), of 1] p(3) that True by auto
    ultimately show ?thesis
      using guards first p(1) chain_absent [OF assms] chain_successor [OF assms] True
      by (cases "i = 0") (simp_all add: insertIfNotFound_def)
  next
    case False
    then have l: "length ps = Suc i" using assms(2) by simp
    then have "?qs @ [?p] = ps"
      by (metis append_Nil2 drop_all le_refl lessI take_Suc_conv_app_nth take_all)
    moreover have "?qs = []" if "i = 0" using l that by simp
    ultimately show ?thesis
      using guards first p(1) chain_absent [OF assms] chain_successor [OF assms] l
      by (cases "i = 0") (simp_all add: insertIfNotFound_def)
  qed
  have "goFind (\<lambda>p. pin_Sign p = pin_Sign ?p) ps \<noteq> None"
    using assms(2) by (auto simp: goFind_None_iff)
  then show "insertIfNotFound ?p ps = Some ps"
    using guards by (auto simp: insertIfNotFound_def)
qed

text \<open>
  \<^verbatim>\<open>GetPinnedBalances\<close> reports the state at a height: when the pins are in the order of their
  numbers, the result holds for each wallet exactly its balance in the latest pin whose number does
  not exceed the requested one.
\<close>
lemma pinned_balances_at:
  assumes "range_order ord" and "\<forall>p \<in> set pins. finite (dom (pin_Balance p))"
    and "sorted (map (\<lambda>p. sint (pin_PinNumber p)) pins)"
  shows "GetPinnedBalances ord pins n w =
           latestBalance_loop w (List.rev (filter (\<lambda>p. sint (pin_PinNumber p) \<le> n) pins))"
  using pinnedBalances_loop_eq [OF assms(1,2)] takeWhile_filter_sorted [OF assms(3)]
  by (simp add: GetPinnedBalances_def split: option.split)

text \<open>
  A pin signed by a node's wallet verifies, provided the encoder visits the pin's maps in the
  same order both times or its output does not depend on the order; signing fills in the key and the
  signature and changes nothing else, and verification leaves the pin as it is.
\<close>
lemma pin_sign_verify:
  assumes "ext_ok E" and "key_pair E (privateKey w) (publicKey w)"
    and "M ord (t\<lparr>pin_Pk := publicKey w, pin_Sign := []\<rparr>) = Some buf"
    and "M ord' (t\<lparr>pin_Pk := publicKey w, pin_Sign := []\<rparr>) = Some buf"
  shows "\<exists>sig. SignTx E M ord w t = Some (t\<lparr>pin_Pk := publicKey w, pin_Sign := sig\<rparr>) \<and>
           VerifyTx E M ord' (t\<lparr>pin_Pk := publicKey w, pin_Sign := sig\<rparr>) =
             (None, t\<lparr>pin_Pk := publicKey w, pin_Sign := sig\<rparr>)"
proof -
  obtain s where s: "ed25519_Sign E (privateKey w) (sha256 E buf) = Some s" "length s = 64"
      "ed25519_Verify E (publicKey w) (sha256 E buf) s"
    using assms(2) unfolding key_pair_def by blast
  have "sha256 E buf \<noteq> []" using assms(1) by (metis ext_ok_def length_0_conv zero_neq_numeral)
  moreover have "publicKey w \<noteq> []" using assms(2) by (simp add: key_pair_def)
  ultimately have "VerifyTx E M ord' (t\<lparr>pin_Pk := publicKey w, pin_Sign := s\<rparr>) =
      (None, t\<lparr>pin_Pk := publicKey w, pin_Sign := s\<rparr>)"
    using s assms(4) by (simp add: VerifyTx_def Let_def TxPin_Hash_def DSA_Verify_def)
  moreover have clear: "t\<lparr>pin_Sign := [], pin_Pk := publicKey w\<rparr> = t\<lparr>pin_Pk := publicKey w, pin_Sign := []\<rparr>"
    by (cases t) simp
  have "SignTx E M ord w t = Some (t\<lparr>pin_Pk := publicKey w, pin_Sign := s\<rparr>)"
    unfolding SignTx_def clear TxPin_generateSignature_def TxPin_Hash_def assms(3)
    using s by (simp add: DSA_Sign_def)
  ultimately show ?thesis by blast
qed

text \<open>
  \<^verbatim>\<open>UpdateIfValid\<close> accepts a debit whenever any pin, however old, holds enough: it passes over a
  latest balance that is too small.
\<close>
lemma UpdateIfValid_any_pin:
  "fst (UpdateIfValid w a pins) \<longleftrightarrow>
     (\<exists>p \<in> set pins. \<exists>b. pin_Balance p w = Some b \<and> a \<le> SetBytes b)"
  by (simp add: UpdateIfValid_def updateIfValid_loop_iff)

text \<open>
  \<^verbatim>\<open>GetWallets\<close> lists every wallet known to the pins or the cache once and no other.
\<close>
lemma GetWallets_exact:
  assumes "range_order ord" and "finite (allWallets pins wc)"
    and "\<forall>w \<in> allWallets pins wc. \<exists>b. addressOf b = Some w"
  shows "\<exists>bs. GetWallets ord pins wc = Some bs \<and> distinct bs \<and>
           set bs = {b. \<exists>w \<in> allWallets pins wc. addressOf b = Some w}"
proof -
  let ?ws = "ord (allWallets pins wc)"
  let ?f = "\<lambda>w. case AddressToBytes w of Inl _ \<Rightarrow> None | Inr b \<Rightarrow> Some b"
  have f: "?f w = Some b" if "addressOf b = Some w" for w b
    using addressOf_length [OF that] BytesToAddress_len [of b] by simp
  have ws: "set ?ws = allWallets pins wc" "distinct ?ws"
    using assms(1,2) by (simp_all add: map_iter)
  have "\<exists>bs. those (map ?f vs) = Some bs \<and> (distinct vs \<longrightarrow> distinct bs) \<and>
      set bs = {b. \<exists>w \<in> set vs. addressOf b = Some w}" if "set vs \<subseteq> allWallets pins wc" for vs
    using that
  proof (induction vs)
    case Nil
    then show ?case by simp
  next
    case (Cons v vs)
    then obtain b where b: "addressOf b = Some v" using assms(3) by auto
    have uniq: "c = b" if "addressOf c = Some v" for c using b that addressOf_inject by metis
    from Cons obtain bs where bs: "those (map ?f vs) = Some bs" "distinct vs \<longrightarrow> distinct bs"
      "set bs = {b. \<exists>w \<in> set vs. addressOf b = Some w}" by auto
    have "those (map ?f (v # vs)) = Some (b # bs)" using f [OF b] bs(1) by simp
    moreover have "set (b # bs) = {b. \<exists>w \<in> set (v # vs). addressOf b = Some w}"
      unfolding list.set bs(3) using b by (blast dest: uniq)
    moreover have "v \<notin> set vs \<Longrightarrow> b \<notin> set bs" using b by (simp add: bs(3))
    ultimately show ?case using bs(2) by (metis distinct.simps(2))
  qed
  from this [of ?ws] ws show ?thesis by (auto simp: GetWallets_def)
qed

end
