(* ===== verification/Pin_Stage.thy ===== *)
theory Pin_Stage
  imports Pins Vm_Capture
begin

text \<open>
  Forming and applying a pin: \<^verbatim>\<open>add\<close>, the smart-contract stages, \<^verbatim>\<open>SyncPins\<close> and their helpers in
  \<^verbatim>\<open>src/dag/pin.go\<close>. The package variables the code works on are the record \<open>NodeState\<close>. The virtual
  machine is another process reached over gRPC: one call is the field \<open>pe_RunCall\<close> of the environment,
  a function from the request and the state store to the answer and the store it leaves behind.
  The clock is read once per operation. \<open>None\<close> is a panic throughout.
\<close>

section \<open>State and environment\<close>

record NodeState =
  ns_pins :: "TxPin list"
  ns_pinsQuantity :: "64 word"
  ns_walletCache :: wallet_cache
  ns_walletCacheConfirmed :: wallet_cache
  ns_vm :: Storage
  ns_smc :: SmcStore

record VmResponse =
  vr_Status :: int
  vr_Msg :: string
  vr_Error :: string
  vr_GasUsed :: string

record PinTxHeader =
  ph_Coinbase :: bytes
  ph_Timestamp :: int
  ph_TxNumber :: "32 word"

record pin_env =
  pe_ext :: ext
  pe_flops :: flops
  pe_marshal :: pin_marshal
  pe_ord :: "string visit_order"
  pe_now_ms :: int
  pe_now :: time
  pe_ts :: pb_timestamp
  pe_Connect :: "string option"
  pe_RunCall :: "pb_Txv1 \<Rightarrow> PinTxHeader \<Rightarrow> Storage \<Rightarrow> (string + VmResponse) \<times> Storage"
  pe_Coinbaseaccount :: string
  pe_NodeType :: int
  pe_wallet :: Wallet
  pe_TxString :: "pb_Txv1 \<Rightarrow> string"

text \<open>The virtual machine changes the store by requests only.\<close>

definition vm_ok :: "pin_env \<Rightarrow> bool" where
  "vm_ok V \<longleftrightarrow> (\<forall>m hd s r s'. pe_RunCall V m hd s = (r, s') \<longrightarrow> vm_request\<^sup>*\<^sup>* s s')"

section \<open>Solidity errors\<close>

record solidityError =
  se_signature :: string
  se_offset :: "64 word"
  se_dataLen :: "64 word"
  se_data :: string
  se_raw :: string

text \<open>Slicing a string panics outside its bounds; the bounds are 64-bit and wrap around.\<close>

definition goSlice :: "'a list \<Rightarrow> 64 word \<Rightarrow> 64 word \<Rightarrow> 'a list option" where
  "goSlice xs lo hi =
     (if lo \<le> hi \<and> unat hi \<le> length xs then Some (drop (unat lo) (take (unat hi) xs)) else None)"

fun hexNumber :: "string \<Rightarrow> nat \<Rightarrow> nat option" where
  "hexNumber [] n = Some n"
| "hexNumber (c # cs) n =
     (case fromHexChar c of None \<Rightarrow> None | Some d \<Rightarrow> hexNumber cs (n * 16 + d))"

definition ParseUint16 :: "string \<Rightarrow> 64 word option" where
  "ParseUint16 s =
     (if s = [] then None
      else case hexNumber s 0 of
        None \<Rightarrow> None
      | Some n \<Rightarrow> if n < 2 ^ 64 then Some (word_of_nat n) else None)"

definition newSolidityError :: "string \<Rightarrow> solidityError option" where
  "newSolidityError hexErr =
     (if \<not> HasPrefix hexErr ''0x'' then None
      else
        let trimmedErr = TrimPrefix hexErr ''0x'' in
        case hexDecode trimmedErr of
          (_, Some _) \<Rightarrow> None
        | (bs, None) \<Rightarrow>
            if length bs < 4 then None
            else if length bs < 100 then
              Some \<lparr>se_signature = take 8 trimmedErr, se_offset = 0, se_dataLen = 0, se_data = [],
                    se_raw = []\<rparr>
            else
              (case Option.bind (goSlice trimmedErr 8 72) ParseUint16 of
                 None \<Rightarrow> None
               | Some offset \<Rightarrow>
                   (case Option.bind (goSlice trimmedErr 72 (72 + offset * 2)) ParseUint16 of
                      None \<Rightarrow> None
                    | Some len \<Rightarrow>
                        (case goSlice trimmedErr (72 + offset * 2) (72 + offset * 2 + len * 2) of
                           None \<Rightarrow> None
                         | Some d \<Rightarrow>
                             (case hexDecode d of
                                (_, Some _) \<Rightarrow> None
                              | (errData, None) \<Rightarrow>
                                  Some \<lparr>se_signature = take 8 trimmedErr, se_offset = offset,
                                        se_dataLen = len, se_data = map (\<lambda>b. char_of (unat b)) errData,
                                        se_raw = hexErr\<rparr>)))))"

text \<open>\<^verbatim>\<open>parseVmError\<close> followed by \<^verbatim>\<open>Error()\<close>.\<close>

definition parseVmError :: "string \<Rightarrow> string option" where
  "parseVmError err =
     (if HasPrefix err ''0x'' then map_option se_data (newSolidityError err)
      else Some (''system VM error during tx execution: '' @ err))"

definition emptyHex :: "string \<Rightarrow> bool" where
  "emptyHex hx \<longleftrightarrow> hx = [] \<or> hx = ''0x'' \<or> length hx \<le> 2"

section \<open>Executing one contract transaction\<close>

record ExecutionResult =
  er_Hash :: string
  er_Successful :: bool
  er_Output :: string
  er_GasUsed :: "64 word"

datatype exec_error = ConnectError string | CallError string | SystemError string | GasUsedError

definition ParseInt64 :: "string \<Rightarrow> 64 word option" where
  "ParseInt64 s =
     (case parseInt s of
        None \<Rightarrow> None
      | Some i \<Rightarrow> if - (2 ^ 63) \<le> i \<and> i < 2 ^ 63 then Some (word_of_int i) else None)"

definition executeSMCTx ::
  "pin_env \<Rightarrow> TxPin list \<Rightarrow> transaction \<Rightarrow> int \<Rightarrow> Storage \<Rightarrow> ((exec_error + ExecutionResult) \<times> Storage) option" where
  "executeSMCTx V pins t timestamp s =
     (case GetHash (pe_ext V) t of
        None \<Rightarrow> None
      | Some hash \<Rightarrow>
          (case pe_Connect V of
             Some e \<Rightarrow> Some (Inl (ConnectError e), s)
           | None \<Rightarrow>
               (case (ParseEthAddress (pe_Coinbaseaccount V), MarshalBinary (pe_ext V) (pe_now_ms V) t) of
                  (Inr coinbase, Some m) \<Rightarrow>
                    (case pe_RunCall V m
                            \<lparr>ph_Coinbase = coinbase, ph_Timestamp = timestamp,
                             ph_TxNumber = word_of_int (CurrentHeight pins + 1)\<rparr> s of
                       (Inl vmErr, s') \<Rightarrow> Some (Inl (CallError vmErr), s')
                     | (Inr r, s') \<Rightarrow>
                         if vr_Status r = -2 then
                           map_option (\<lambda>e. (Inl (SystemError e), s')) (parseVmError (vr_Error r))
                         else
                           (case ParseInt64 (vr_GasUsed r) of
                              None \<Rightarrow> Some (Inl GasUsedError, s')
                            | Some gasUsed \<Rightarrow>
                                if vr_Status r > 0 \<or> vr_Status r = -1 then
                                  map_option (\<lambda>parsedErr.
                                    (Inr \<lparr>er_Hash = hexEncode hash, er_Successful = False,
                                          er_Output = parsedErr, er_GasUsed = gasUsed\<rparr>, s'))
                                    (if emptyHex (vr_Msg r) then parseVmError (vr_Error r)
                                     else parseVmError (vr_Msg r))
                                else
                                  Some (Inr \<lparr>er_Hash = hexEncode hash, er_Successful = True,
                                             er_Output = vr_Msg r, er_GasUsed = gasUsed\<rparr>, s')))
                | _ \<Rightarrow> None)))"

text \<open>The receipt carries contract address and topics of each log; the data field is not filled.\<close>

definition execResultToReceipt ::
  "string visit_order \<Rightarrow> Storage \<Rightarrow> ExecutionResult \<Rightarrow> pb_TxReceipt option" where
  "execResultToReceipt ord s r =
     (case hexDecode (er_Hash r) of
        (_, Some _) \<Rightarrow> None
      | (hash, None) \<Rightarrow>
          Some \<lparr>rc_FuelUsed = ucast (er_GasUsed r),
                rc_Status = (if er_Successful r then SUCCESSFUL else FAILED),
                rc_StatusMessage = er_Output r,
                rc_Logs = map (\<lambda>v. \<lparr>el_ContractAddress = l_ContractAddress v, el_Topics = l_Topics v,
                                    el_Data = [], el_PinTxNumber = 0\<rparr>) (GetLogsForTx ord s hash)\<rparr>)"

text \<open>A balance or nonce that is no number is a nil pointer, whose use panics.\<close>

definition diffToPb_one :: "Diff \<Rightarrow> pb_Diff option" where
  "diffToPb_one d =
     (case d of
        DiffAccount acc \<Rightarrow>
          (case (StoredAccount_AddressBytes acc, parseInt (sa_Balance acc), parseInt (sa_Nonce acc)) of
             (Some a, Some b, Some n) \<Rightarrow>
               Some (PbAccountDiff \<lparr>ad_Address = a, ad_Balance = Bytes b, ad_Nonce = word_of_int n,
                  ad_Codehash = fst (hexDecode (sa_CodeHash acc)), ad_Code = fst (hexDecode (sa_Code acc))\<rparr>)
           | _ \<Rightarrow> None)
      | DiffMapping m \<Rightarrow> Some (PbMappingDiff m))"

definition diffToPb :: "Diff list \<Rightarrow> pb_Diff list option" where
  "diffToPb ds = those (map diffToPb_one ds)"

section \<open>The smart-contract stage of the pinning node\<close>

fun nonceIncr_loop :: "time \<Rightarrow> pb_Node list \<Rightarrow> Storage \<Rightarrow> Storage" where
  "nonceIncr_loop now [] s = s"
| "nonceIncr_loop now (node # nodes) s =
     nonceIncr_loop now nodes
       (if pbRlpEthTx (pbn_Tx node) \<noteq> None then NonceIncr now (pbSender (pbn_Tx node)) s else s)"

fun smcTxs_loop ::
  "pin_env \<Rightarrow> TxPin list \<Rightarrow> string \<Rightarrow> int \<Rightarrow> nat \<Rightarrow> nat \<Rightarrow> transaction list \<Rightarrow> 64 word \<Rightarrow>
     pb_ExecutedSmcTx list \<Rightarrow> Storage \<times> SmcStore \<Rightarrow>
     (pb_ExecutedSmcTx list \<times> Storage \<times> SmcStore) option" where
  "smcTxs_loop V pins pinHashStr timestamp nNodes idx [] gasUsed executed (s, sm) = Some (executed, s, sm)"
| "smcTxs_loop V pins pinHashStr timestamp nNodes idx (t # ts) gasUsed executed (s, sm) =
     (case executeSMCTx V pins t timestamp s of
        None \<Rightarrow> None
      | Some (Inl _, s') \<Rightarrow>
          (case RemoveUnconfirmed (pe_ext V) t sm of
             None \<Rightarrow> None
           | Some sm' \<Rightarrow>
               smcTxs_loop V pins pinHashStr timestamp nNodes (Suc idx) ts gasUsed executed (s', sm'))
      | Some (Inr r, s') \<Rightarrow>
          (let gasUsed' = gasUsed + er_GasUsed r in
           case (AddConfirmed (pe_ext V)
                   \<lparr>ct_Transaction = t, UsedFuel = sint (er_GasUsed r), StatusMessage = er_Output r,
                    ct_Status = (if er_Successful r then Successful else Failed),
                    PinTxNumber = int (length pins), PinTxHash = pinHashStr,
                    TxIndex = int (nNodes + idx), CumulativeGasUsed = sint gasUsed'\<rparr> sm,
                 execResultToReceipt (pe_ord V) s' r,
                 MarshalBinary (pe_ext V) (pe_now_ms V) t) of
             (Some sm', Some receipt, Some m) \<Rightarrow>
               smcTxs_loop V pins pinHashStr timestamp nNodes (Suc idx) ts gasUsed'
                 (executed @ [\<lparr>ex_Tx = m, ex_Receipt = receipt\<rparr>]) (s', sm')
           | _ \<Rightarrow> None))"

fun diffBalances_loop ::
  "Diff list \<Rightarrow> (string \<rightharpoonup> bytes) \<times> wallet_cache \<Rightarrow> ((string \<rightharpoonup> bytes) \<times> wallet_cache) option" where
  "diffBalances_loop [] st = Some st"
| "diffBalances_loop (DiffMapping m # ds) st = diffBalances_loop ds st"
| "diffBalances_loop (DiffAccount acc # ds) (bal, wc) =
     (let address = ''0x'' @ sa_Address acc in
      case parseInt (sa_Balance acc) of
        None \<Rightarrow> None
      | Some balance \<Rightarrow>
          diffBalances_loop ds (bal(address \<mapsto> Bytes balance), WalletCache_remove address [] wc))"

definition runSmartContractStage ::
  "pin_env \<Rightarrow> TxPin \<Rightarrow> transaction list \<Rightarrow> NodeState \<Rightarrow> (TxPin \<times> NodeState) option" where
  "runSmartContractStage V pin smcTxs st =
     (case SyncBalances (pe_ord V) (pe_now V) (pin_Balance pin) (ns_vm st) of
        None \<Rightarrow> None
      | Some vm1 \<Rightarrow>
          (case CaptureStateStoreDiffs vm1 of
             None \<Rightarrow> None
           | Some vm2 \<Rightarrow>
               (let pinHash = (case TxPin_Hash (pe_ext V) (pe_marshal V) (pe_ord V) pin of
                                 None \<Rightarrow> [] | Some h \<Rightarrow> h);
                    pinHashStr = ''0x'' @ hexEncode pinHash;
                    timestamp = ts_AsTime (pe_ext V) (pin_Ts pin) div 1000000000;
                    vm3 = nonceIncr_loop (pe_now V) (pin_Nodes pin) vm2 in
                case smcTxs_loop V (ns_pins st) pinHashStr timestamp (length (pin_Nodes pin)) 0 smcTxs 0 []
                       (vm3, ns_smc st) of
                  None \<Rightarrow> None
                | Some (executed, vm4, smc') \<Rightarrow>
                    (case GetStateStoreDiffs (pe_ord V) vm4 of
                       None \<Rightarrow> None
                     | Some diffSlice \<Rightarrow>
                         (case (diffToPb diffSlice,
                                diffBalances_loop diffSlice (pin_Balance pin, ns_walletCache st)) of
                            (Some pbDiffs, Some (bal, wc)) \<Rightarrow>
                              Some (pin\<lparr>pin_SmcTxs := executed, pin_Diffs := pbDiffs, pin_Balance := bal\<rparr>,
                                    st\<lparr>ns_vm := ResetCaptureStateStoreDiffs vm4, ns_smc := smc',
                                       ns_walletCache := wc\<rparr>)
                          | _ \<Rightarrow> None)))))"

section \<open>Adding a pin\<close>

text \<open>
  The first loop collects for every site the balances of its two parties, the second builds the pin.
  Nodes are addresses into the heap; the only field it writes is \<^verbatim>\<open>valid\<close>.
\<close>

definition append_at :: "string \<Rightarrow> int \<Rightarrow> (string \<rightharpoonup> int list) \<Rightarrow> (string \<rightharpoonup> int list)" where
  "append_at w b m = m(w \<mapsto> (case m w of None \<Rightarrow> [] | Some bs \<Rightarrow> bs) @ [b])"

fun collect_loop ::
  "ext \<Rightarrow> TxPin list \<Rightarrow> wallet_cache \<Rightarrow> heap \<Rightarrow> addr list \<Rightarrow>
     (string \<rightharpoonup> int list) \<times> (string \<rightharpoonup> int list) \<Rightarrow> ((string \<rightharpoonup> int list) \<times> (string \<rightharpoonup> int list)) option" where
  "collect_loop E pins wc h [] acc = Some acc"
| "collect_loop E pins wc h (v # vs) (senders, receivers) =
     (case (senderAddr E (n_tx (h v)), recipientAddr (n_tx (h v))) of
        (Some sw, Some rw) \<Rightarrow>
          (let sb = (case unsafe_getBalanceForWallet pins wc sw of (b, None) \<Rightarrow> b | (_, Some _) \<Rightarrow> 0);
               rb = (case unsafe_getBalanceForWallet pins wc rw of (b, None) \<Rightarrow> b | (_, Some _) \<Rightarrow> 0) in
           collect_loop E pins wc h vs (append_at sw sb senders, append_at rw rb receivers))
      | _ \<Rightarrow> None)"

fun sites_loop ::
  "pin_env \<Rightarrow> (string \<rightharpoonup> int list) \<Rightarrow> (string \<rightharpoonup> int list) \<Rightarrow> addr list \<Rightarrow>
     heap \<times> TxPin \<times> wallet_cache \<Rightarrow> (heap \<times> TxPin \<times> wallet_cache) option" where
  "sites_loop V senders receivers [] st = Some st"
| "sites_loop V senders receivers (v # vs) (h, pin, wc) =
     (case (Node_ToPbNode (pe_ext V) (pe_flops V) (pe_now_ms V) h v,
            senderAddr (pe_ext V) (n_tx (h v)), recipientAddr (n_tx (h v))) of
        (Some pbn, Some sw, Some rw) \<Rightarrow>
          (case (Option.bind (senders sw) last_opt, Option.bind (receivers rw) last_opt) of
             (Some senderBalance, Some receiverBalance) \<Rightarrow>
               (let h' = (if senderBalance < 0 then h(v := (h v)\<lparr>n_valid := False\<rparr>) else h);
                    pin' = pin\<lparr>pin_Nodes := pin_Nodes pin @ [pbn],
                               pin_Sites := pin_Sites pin @ [SiteID_of (h v)],
                               pin_Balance := (pin_Balance pin)(sw \<mapsto> Bytes senderBalance,
                                                                rw \<mapsto> Bytes receiverBalance)\<rparr>;
                    txIds = [uuid_String (pe_ext V) (node_uuid h v)];
                    wc' = WalletCache_remove rw txIds (WalletCache_remove sw txIds wc) in
                sites_loop V senders receivers vs (h', pin', wc'))
           | _ \<Rightarrow> None)
      | _ \<Rightarrow> None)"

definition NodeTxPin_add ::
  "pin_env \<Rightarrow> addr list \<Rightarrow> transaction list \<Rightarrow> heap \<Rightarrow> NodeState \<Rightarrow> (heap \<times> NodeState) option" where
  "NodeTxPin_add V sites0 smcTxs h st =
     (let pins = ns_pins st;
          prev = (if length pins > 0 then pin_Sign (pins ! (length pins - 1)) else []);
          sites = sort_key (\<lambda>v. n_time (h v)) sites0 in
      case collect_loop (pe_ext V) pins (ns_walletCache st) h sites (Map.empty, Map.empty) of
        None \<Rightarrow> None
      | Some (senders, receivers) \<Rightarrow>
          (case sites_loop V senders receivers sites (h, NewTxPin (pe_ts V) prev, ns_walletCache st) of
             None \<Rightarrow> None
           | Some (h', pin, wc) \<Rightarrow>
               (case runSmartContractStage V (pin\<lparr>pin_PinNumber := ns_pinsQuantity st\<rparr>) smcTxs
                       (st\<lparr>ns_walletCache := wc, ns_pinsQuantity := ns_pinsQuantity st + 1\<rparr>) of
                  None \<Rightarrow> None
                | Some (pin', st') \<Rightarrow>
                    map_option (\<lambda>signed. (h', st'\<lparr>ns_pins := ns_pins st' @ [signed]\<rparr>))
                      (SignTx (pe_ext V) (pe_marshal V) (pe_ord V) (pe_wallet V) pin'))))"

section \<open>Applying a received pin\<close>

text \<open>The loop of the full node over the executed transactions: \<open>True\<close> when all agree.\<close>

fun statusString :: "TxStatus \<Rightarrow> string" where
  "statusString SUCCESSFUL = ''SUCCESSFUL''"
| "statusString FAILED = ''FAILED''"

fun logs_agree :: "pb_TxExecLog list \<Rightarrow> pb_TxExecLog list \<Rightarrow> bool option" where
  "logs_agree [] rs = Some True"
| "logs_agree (l # ls) [] = None"
| "logs_agree (l # ls) (r # rs) = (if el_Data l \<noteq> el_Data r then Some False else logs_agree ls rs)"

text \<open>Printing a transaction for the log panics when its addresses cannot be printed.\<close>

fun prints :: "transaction \<Rightarrow> bool" where
  "prints (TxV1 t) = (case Txv1_MarshalJSON t of Inl _ \<Rightarrow> False | Inr _ \<Rightarrow> True)"
| "prints (TxEth t) = True"

fun fullNode_loop ::
  "pin_env \<Rightarrow> TxPin list \<Rightarrow> int \<Rightarrow> pb_ExecutedSmcTx list \<Rightarrow> Storage \<Rightarrow> (bool \<times> Storage) option" where
  "fullNode_loop V pins timestamp [] s = Some (True, s)"
| "fullNode_loop V pins timestamp (x # xs) s =
     (case UnmarshalBinary (pe_ext V) (ex_Tx x) of
        None \<Rightarrow> None
      | Some realTx \<Rightarrow>
          if \<not> prints realTx then None else
          (case executeSMCTx V pins realTx timestamp s of
             None \<Rightarrow> None
           | Some (Inl _, s') \<Rightarrow> Some (False, s')
           | Some (Inr r, s') \<Rightarrow>
               (case (execResultToReceipt (pe_ord V) s' r, MarshalBinary (pe_ext V) (pe_now_ms V) realTx) of
                  (Some receipt, Some _) \<Rightarrow>
                    if ucast (er_GasUsed r) \<noteq> rc_FuelUsed (ex_Receipt x) then Some (False, s')
                    else if (if er_Successful r then ''SUCCESSFUL'' else ''FAILED'') \<noteq>
                            statusString (rc_Status (ex_Receipt x)) then Some (False, s')
                    else if er_Output r \<noteq> rc_StatusMessage (ex_Receipt x) then Some (False, s')
                    else (case logs_agree (rc_Logs receipt) (rc_Logs (ex_Receipt x)) of
                            None \<Rightarrow> None
                          | Some False \<Rightarrow> Some (False, s')
                          | Some True \<Rightarrow> fullNode_loop V pins timestamp xs s')
                | _ \<Rightarrow> None)))"

definition append_sc :: "string \<Rightarrow> int \<Rightarrow> wallet_cache \<Rightarrow> wallet_cache" where
  "append_sc address balance wc =
     wc(address \<mapsto> (case wc address of None \<Rightarrow> [] | Some bs \<Rightarrow> bs) @ [(''sc'', balance)])"

fun confirmDiffs_loop :: "Diff list \<Rightarrow> wallet_cache \<Rightarrow> wallet_cache option" where
  "confirmDiffs_loop [] wc = Some wc"
| "confirmDiffs_loop (DiffMapping m # ds) wc = confirmDiffs_loop ds wc"
| "confirmDiffs_loop (DiffAccount acc # ds) wc =
     (case parseInt (sa_Balance acc) of
        None \<Rightarrow> None
      | Some balance \<Rightarrow> confirmDiffs_loop ds (append_sc (''0x'' @ sa_Address acc) balance wc))"

text \<open>The result is \<open>True\<close> for a nil error; capturing is switched off in every case.\<close>

definition runSmartContractStageFullNode ::
  "pin_env \<Rightarrow> (string \<rightharpoonup> bytes) \<Rightarrow> TxPin \<Rightarrow> NodeState \<Rightarrow> (bool \<times> NodeState) option" where
  "runSmartContractStageFullNode V balances recentPin st =
     (case Option.bind (SyncBalances (pe_ord V) (pe_now V) balances (ns_vm st)) CaptureStateStoreDiffs of
        None \<Rightarrow> None
      | Some vm2 \<Rightarrow>
          (case fullNode_loop V (ns_pins st) (ts_AsTime (pe_ext V) (pin_Ts recentPin) div 1000000000)
                  (pin_SmcTxs recentPin) vm2 of
             None \<Rightarrow> None
           | Some (False, vm3) \<Rightarrow> Some (False, st\<lparr>ns_vm := ResetCaptureStateStoreDiffs vm3\<rparr>)
           | Some (True, vm3) \<Rightarrow>
               (case GetStateStoreDiffs (pe_ord V) vm3 of
                  None \<Rightarrow> None
                | Some ds \<Rightarrow>
                    map_option (\<lambda>wcc. (True, st\<lparr>ns_vm := ResetCaptureStateStoreDiffs vm3,
                                               ns_walletCacheConfirmed := wcc\<rparr>))
                      (confirmDiffs_loop ds (ns_walletCacheConfirmed st)))))"

definition checkBalance_one :: "NodeState \<Rightarrow> TxPin \<Rightarrow> string \<Rightarrow> bool option" where
  "checkBalance_one st recentPin address =
     (let cached = WalletCache_get (ns_walletCacheConfirmed st) address;
          pinBalance = SetBytes (the (pin_Balance recentPin address)) in
      case (SearchAccount (ns_vm st) address, cached) of
        (Some (Some vmAcc), Some c) \<Rightarrow> Some (c = pinBalance \<and> pinBalance = ln_Balance vmAcc)
      | (Some None, Some c) \<Rightarrow> Some (c = pinBalance)
      | _ \<Rightarrow> None)"

fun checkBalances_loop :: "NodeState \<Rightarrow> TxPin \<Rightarrow> string list \<Rightarrow> bool option" where
  "checkBalances_loop st recentPin [] = Some True"
| "checkBalances_loop st recentPin (a # as) =
     (case checkBalance_one st recentPin a of
        None \<Rightarrow> None
      | Some False \<Rightarrow> Some False
      | Some True \<Rightarrow> checkBalances_loop st recentPin as)"

definition checkBalances :: "pin_env \<Rightarrow> TxPin \<Rightarrow> NodeState \<Rightarrow> bool option" where
  "checkBalances V recentPin st =
     checkBalances_loop st recentPin (pe_ord V (dom (pin_Balance recentPin)))"

text \<open>
  \<^verbatim>\<open>SyncPins\<close> replays the payments of a received pin on the confirmed cache, then its contract
  transactions (full node) or its differences (peer node).
\<close>

fun payments_loop ::
  "pin_env \<Rightarrow> TxPin list \<Rightarrow> pb_Node list \<Rightarrow> wallet_cache \<times> (string \<rightharpoonup> bytes) \<Rightarrow>
     (wallet_cache \<times> (string \<rightharpoonup> bytes)) option" where
  "payments_loop V pins [] st = Some st"
| "payments_loop V pins (n # ns) (wcc, balances) =
     (let p = pbn_Tx n; latest = unsafe_getLatestBalance pins; txId = pe_TxString V p;
          transferAmount = SetBytes (pbAmount p) in
      case (addressOf (pbSender p), addressOf (pbRecepient p)) of
        (Some sw, Some rw) \<Rightarrow>
          (let wcc1 = snd (WalletCache_sub latest sw txId transferAmount wcc);
               wcc2 = snd (WalletCache_add latest rw txId transferAmount wcc1) in
           case (WalletCache_get wcc2 rw, WalletCache_get wcc2 sw) of
             (Some receiverBalance, Some senderBalance) \<Rightarrow>
               payments_loop V pins ns
                 (wcc2, balances(sw \<mapsto> Bytes senderBalance, rw \<mapsto> Bytes receiverBalance))
           | _ \<Rightarrow> None)
      | _ \<Rightarrow> None)"

fun peerDiffs_loop ::
  "pb_Diff list \<Rightarrow> wallet_cache \<times> (string \<rightharpoonup> bytes) \<times> Storage \<Rightarrow>
     (wallet_cache \<times> (string \<rightharpoonup> bytes) \<times> Storage) option" where
  "peerDiffs_loop [] st = Some st"
| "peerDiffs_loop (PbNoDiff # ds) st = peerDiffs_loop ds st"
| "peerDiffs_loop (PbAccountDiff d # ds) (wcc, bal, s) =
     (let address = ''0x'' @ hexEncode (ad_Address d); b = SetBytes (ad_Balance d) in
      peerDiffs_loop ds (append_sc address b wcc, bal(address \<mapsto> Bytes b), s))"
| "peerDiffs_loop (PbMappingDiff m # ds) (wcc, bal, s) =
     (case DumpMappingDiffs (m_Address m) (m_Key m) (m_Value m) s of
        None \<Rightarrow> None
      | Some s' \<Rightarrow> peerDiffs_loop ds (wcc, bal, s'))"

definition SyncPins :: "pin_env \<Rightarrow> TxPin \<Rightarrow> NodeState \<Rightarrow> NodeState option" where
  "SyncPins V recentPin st =
     (case payments_loop V (ns_pins st) (pin_Nodes recentPin) (ns_walletCacheConfirmed st, Map.empty) of
        None \<Rightarrow> None
      | Some (wcc, balances) \<Rightarrow>
          (let st1 = st\<lparr>ns_walletCacheConfirmed := wcc\<rparr> in
           if pe_NodeType V = 0 then
             map_option snd (runSmartContractStageFullNode V balances recentPin st1)
           else if pe_NodeType V = 1 then
             (case SyncBalances (pe_ord V) (pe_now V) balances (ns_vm st1) of
                None \<Rightarrow> None
              | Some vm1 \<Rightarrow>
                  (case peerDiffs_loop (pin_Diffs recentPin) (wcc, Map.empty, vm1) of
                     None \<Rightarrow> None
                   | Some (wcc', bal, vm2) \<Rightarrow>
                       (case (if bal \<noteq> Map.empty
                              then SyncBalances (pe_ord V) (pe_now V) bal vm2 else Some vm2) of
                          None \<Rightarrow> None
                        | Some vm3 \<Rightarrow>
                            (let st2 = st1\<lparr>ns_walletCacheConfirmed := wcc', ns_vm := vm3\<rparr> in
                             case checkBalances V recentPin st2 of
                               None \<Rightarrow> None
                             | Some _ \<Rightarrow> Some st2))))
           else Some st1))"

section \<open>What the loops of \<^verbatim>\<open>add\<close> compute\<close>

definition parties :: "ext \<Rightarrow> heap \<Rightarrow> addr list \<Rightarrow> string set" where
  "parties E h vs =
     {w. \<exists>v \<in> set vs. senderAddr E (n_tx (h v)) = Some w \<or> recipientAddr (n_tx (h v)) = Some w}"

lemma balance_or_zero:
  "(case unsafe_getBalanceForWallet pins wc w of (b, None) \<Rightarrow> b | (_, Some _) \<Rightarrow> 0) =
     effective (unsafe_getLatestBalance pins) wc w"
  by (simp add: unsafe_getBalanceForWallet_def effective_def split: option.split)

definition tracks :: "(string \<Rightarrow> int) \<Rightarrow> (string \<rightharpoonup> int list) \<Rightarrow> bool" where
  "tracks eff m \<longleftrightarrow> (\<forall>w bs. m w = Some bs \<longrightarrow> (\<forall>b. last_opt bs = Some b \<longrightarrow> b = eff w))"

lemma tracks_append: "tracks eff m \<Longrightarrow> tracks eff (append_at w (eff w) m)"
  by (auto simp: tracks_def append_at_def)

lemma collect_loop_tracks:
  assumes "collect_loop E pins wc h vs (S, R) = Some (S', R')"
    and "tracks (effective (unsafe_getLatestBalance pins) wc) S"
    and "tracks (effective (unsafe_getLatestBalance pins) wc) R"
  shows "tracks (effective (unsafe_getLatestBalance pins) wc) S' \<and>
         tracks (effective (unsafe_getLatestBalance pins) wc) R'"
  using assms
proof (induction vs arbitrary: S R)
  case Nil
  then show ?case by simp
next
  case (Cons v vs)
  then show ?case
    by (auto simp: balance_or_zero Let_def tracks_append split: option.splits)
qed

text \<open>
  The pin that the second loop builds: sites and nodes in the order of the list, for each party its
  balance, and the parties removed from the cache; no node is marked invalid.
\<close>

lemma sites_loop_spec:
  assumes "sites_loop V S R vs (h, pin, wc) = Some (h', pin', wc')"
    and "tracks eff S" and "tracks eff R" and "\<And>w. 0 \<le> eff w"
  shows "h' = h \<and>
    pin_Sites pin' = pin_Sites pin @ map (\<lambda>v. SiteID_of (h v)) vs \<and>
    (\<exists>ns. those (map (Node_ToPbNode (pe_ext V) (pe_flops V) (pe_now_ms V) h) vs) = Some ns \<and>
          pin_Nodes pin' = pin_Nodes pin @ ns) \<and>
    pin_Balance pin' = (\<lambda>w. if w \<in> parties (pe_ext V) h vs then Some (Bytes (eff w)) else pin_Balance pin w) \<and>
    wc' = (\<lambda>w. if w \<in> parties (pe_ext V) h vs then None else wc w) \<and>
    pin_Prev pin' = pin_Prev pin \<and> pin_Ts pin' = pin_Ts pin \<and> pin_PinNumber pin' = pin_PinNumber pin"
  using assms(1)
proof (induction vs arbitrary: pin wc)
  case Nil
  then show ?case by (auto simp: parties_def)
next
  case (Cons v vs)
  then obtain pbn sw rw sb rb where step:
    "Node_ToPbNode (pe_ext V) (pe_flops V) (pe_now_ms V) h v = Some pbn"
    "senderAddr (pe_ext V) (n_tx (h v)) = Some sw" "recipientAddr (n_tx (h v)) = Some rw"
    "Option.bind (S sw) last_opt = Some sb" "Option.bind (R rw) last_opt = Some rb"
    by (auto split: option.splits)
  have sb: "sb = eff sw" and rb: "rb = eff rw"
    using step(4,5) assms(2,3) by (auto simp: tracks_def bind_eq_Some_conv)
  let ?pin = "pin\<lparr>pin_Nodes := pin_Nodes pin @ [pbn], pin_Sites := pin_Sites pin @ [SiteID_of (h v)],
    pin_Balance := (pin_Balance pin)(sw \<mapsto> Bytes (eff sw), rw \<mapsto> Bytes (eff rw))\<rparr>"
  let ?wc = "wc(sw := None, rw := None)"
  have "\<not> eff sw < 0" using assms(4) [of sw] by simp
  then have "sites_loop V S R vs (h, ?pin, ?wc) = Some (h', pin', wc')"
    using Cons.prems step by (simp add: sb rb Let_def WalletCache_remove_eq)
  note IH = Cons.IH [OF this]
  have P: "parties (pe_ext V) h (v # vs) = insert sw (insert rw (parties (pe_ext V) h vs))"
    using step(2,3) by (auto simp: parties_def)
  from IH step(1) show ?case by (auto simp: P fun_eq_iff)
qed

section \<open>What the smart-contract stage computes\<close>

lemma diffBalances_loop_accounts:
  "diffBalances_loop (map DiffAccount accs @ map DiffMapping ms) (bal, wc) = Some (bal', wc') \<Longrightarrow>
     distinct (map sa_Address accs) \<Longrightarrow>
     (\<forall>w. case map_of (map (\<lambda>acc. (''0x'' @ sa_Address acc, acc)) accs) w of
            Some acc \<Rightarrow> (\<exists>b. parseInt (sa_Balance acc) = Some b \<and> bal' w = Some (Bytes b)) \<and> wc' w = None
          | None \<Rightarrow> bal' w = bal w \<and> wc' w = wc w)"
proof (induction accs arbitrary: bal wc)
  case Nil
  have "diffBalances_loop (map DiffMapping ms) (bal, wc) = Some (bal, wc)"
    by (induction ms) auto
  with Nil show ?case by simp
next
  case (Cons acc accs)
  from Cons.prems(1) obtain b where b: "parseInt (sa_Balance acc) = Some b"
    "diffBalances_loop (map DiffAccount accs @ map DiffMapping ms)
       (bal(''0x'' @ sa_Address acc \<mapsto> Bytes b), wc(''0x'' @ sa_Address acc := None)) = Some (bal', wc')"
    by (auto simp: WalletCache_remove_eq Let_def split: option.splits)
  have "map_of (map (\<lambda>acc. (''0x'' @ sa_Address acc, acc)) accs) (''0x'' @ sa_Address acc) = None"
    using Cons.prems(2) by (auto simp: map_of_eq_None_iff)
  with Cons.IH [OF b(2)] Cons.prems(2) b(1) show ?case
    by (auto split: option.splits if_splits)
qed

lemma toDiffSlice_balances:
  assumes "range_order ord" and "finite (dom (accountDiffs d))"
    and "\<And>a acc. accountDiffs d a = Some acc \<Longrightarrow> sa_Address acc = a"
    and "diffBalances_loop (toDiffSlice ord d) (bal, wc) = Some (bal', wc')"
  shows "accountDiffs d a = Some acc \<Longrightarrow>
           (\<exists>b. parseInt (sa_Balance acc) = Some b \<and> bal' (''0x'' @ a) = Some (Bytes b)) \<and> wc' (''0x'' @ a) = None"
    and "(\<nexists>a. w = ''0x'' @ a \<and> a \<in> dom (accountDiffs d)) \<Longrightarrow> bal' w = bal w \<and> wc' w = wc w"
proof -
  let ?as = "ord (dom (accountDiffs d))"
  let ?accs = "map (\<lambda>k. the (accountDiffs d k)) ?as"
  have as: "set ?as = dom (accountDiffs d)" "distinct ?as" using assms(1,2) by (simp_all add: map_iter)
  have addr: "sa_Address (the (accountDiffs d k)) = k" if "k \<in> set ?as" for k
    using that as(1) assms(3) by auto
  then have m: "map sa_Address ?accs = ?as" by (simp add: map_idI)
  have dist: "distinct (map sa_Address ?accs)" unfolding m by (rule as(2))
  have slice: "toDiffSlice ord d = map DiffAccount ?accs @
      map DiffMapping (map (\<lambda>k. the (mappingDiffs d k)) (ord (dom (mappingDiffs d))))"
    by (simp add: toDiffSlice_def comp_def)
  have spec: "case map_of (map (\<lambda>acc. (''0x'' @ sa_Address acc, acc)) ?accs) w of
      Some acc \<Rightarrow> (\<exists>b. parseInt (sa_Balance acc) = Some b \<and> bal' w = Some (Bytes b)) \<and> wc' w = None
    | None \<Rightarrow> bal' w = bal w \<and> wc' w = wc w" for w
    using diffBalances_loop_accounts [OF assms(4) [unfolded slice] dist] by blast
  have pairs: "map (\<lambda>acc. (''0x'' @ sa_Address acc, acc)) ?accs =
      map (\<lambda>k. (''0x'' @ k, the (accountDiffs d k))) ?as"
    using addr by simp
  show "(\<exists>b. parseInt (sa_Balance acc) = Some b \<and> bal' (''0x'' @ a) = Some (Bytes b)) \<and> wc' (''0x'' @ a) = None"
    if a: "accountDiffs d a = Some acc"
  proof -
    have "map_of (map (\<lambda>k. (''0x'' @ k, the (accountDiffs d k))) ?as) (''0x'' @ a) = Some acc"
      using a as by (intro map_of_is_SomeI) (auto simp: distinct_map inj_on_def comp_def image_iff)
    with spec [of "''0x'' @ a"] show ?thesis unfolding pairs by simp
  qed
  show "bal' w = bal w \<and> wc' w = wc w" if w: "\<nexists>a. w = ''0x'' @ a \<and> a \<in> dom (accountDiffs d)"
  proof -
    have "map_of (map (\<lambda>k. (''0x'' @ k, the (accountDiffs d k))) ?as) w = None"
      using w as(1) by (auto simp: map_of_eq_None_iff)
    with spec [of w] show ?thesis unfolding pairs by simp
  qed
qed

text \<open>The store along the stage: only requests and nonce increments after capturing starts.\<close>

lemma NonceIncr_keeps:
  assumes "server_inv s" and "capture_inv s0 s"
  shows "server_inv (NonceIncr now a s)" and "capture_inv s0 (NonceIncr now a s)"
  using server_step_inv [OF step_incr assms(1)] capture_inv_putAccount [OF assms]
  by (simp_all add: NonceIncr_def split: option.split)

lemma nonceIncr_loop_keeps:
  assumes "server_inv s" and "capture_inv s0 s"
  shows "server_inv (nonceIncr_loop now ns s) \<and> capture_inv s0 (nonceIncr_loop now ns s)"
  using assms by (induction ns arbitrary: s) (simp_all add: NonceIncr_keeps)

lemma executeSMCTx_requests:
  assumes "vm_ok V" and "executeSMCTx V pins t ts s = Some (r, s')"
  shows "vm_request\<^sup>*\<^sup>* s s'"
proof -
  have "s' = s \<or> (\<exists>m hd r0. pe_RunCall V m hd s = (r0, s'))"
    using assms(2)
    by (auto simp: executeSMCTx_def Let_def split: option.splits sum.splits prod.splits if_splits)
  then show ?thesis using assms(1) by (auto simp: vm_ok_def)
qed

lemma smcTxs_loop_requests:
  assumes "vm_ok V" and "smcTxs_loop V pins ph ts k i txs g ex (s, sm) = Some (ex', s', sm')"
  shows "vm_request\<^sup>*\<^sup>* s s'"
  using assms(2)
proof (induction txs arbitrary: i g ex s sm)
  case Nil
  then show ?case by simp
next
  case (Cons t txs)
  from Cons.prems obtain r s1 i1 g1 ex1 sm1 where "executeSMCTx V pins t ts s = Some (r, s1)"
    "smcTxs_loop V pins ph ts k i1 txs g1 ex1 (s1, sm1) = Some (ex', s', sm')"
    by (auto simp: Let_def split: option.splits sum.splits)
  with Cons.IH executeSMCTx_requests [OF assms(1)] show ?case by (meson rtranclp_trans)
qed

lemma syncBalances_loop_checkPoints:
  "syncBalances_loop now bal ks s = Some s' \<Longrightarrow> checkPoints s' = checkPoints s"
  by (induction ks arbitrary: s)
    (auto simp: syncBalance_one_def Let_def putAccount_fields split: option.splits sum.splits)

definition wallets_ok :: "(string \<rightharpoonup> bytes) \<Rightarrow> bool" where
  "wallets_ok bal \<longleftrightarrow> finite (dom bal) \<and> (\<forall>w \<in> dom bal. \<exists>b. length b = 20 \<and> w = ''0x'' @ hexEncode b)"

text \<open>A node at rest: the store is sound, nothing is captured and no call is open.\<close>

definition vm_idle :: "Storage \<Rightarrow> bool" where
  "vm_idle s \<longleftrightarrow> server_inv s \<and> \<not> collectDiffs s \<and> checkPoints s = []"

lemma stage_cases:
  assumes "runSmartContractStage V pin txs st = Some (pin', st')"
  obtains vm1 vm2 vm4 ds ex pbd bal wc where
    "SyncBalances (pe_ord V) (pe_now V) (pin_Balance pin) (ns_vm st) = Some vm1"
    "CaptureStateStoreDiffs vm1 = Some vm2"
    "\<exists>ph ts sm'. smcTxs_loop V (ns_pins st) ph ts (length (pin_Nodes pin)) 0 txs 0 []
       (nonceIncr_loop (pe_now V) (pin_Nodes pin) vm2, ns_smc st) = Some (ex, vm4, sm')"
    "GetStateStoreDiffs (pe_ord V) vm4 = Some ds" "diffToPb ds = Some pbd"
    "diffBalances_loop ds (pin_Balance pin, ns_walletCache st) = Some (bal, wc)"
    "pin' = pin\<lparr>pin_SmcTxs := ex, pin_Diffs := pbd, pin_Balance := bal\<rparr>"
    "ns_vm st' = ResetCaptureStateStoreDiffs vm4" "ns_walletCache st' = wc"
    "ns_pins st' = ns_pins st" "ns_pinsQuantity st' = ns_pinsQuantity st"
    "ns_walletCacheConfirmed st' = ns_walletCacheConfirmed st"
proof -
  let ?ph = "''0x'' @ hexEncode (case TxPin_Hash (pe_ext V) (pe_marshal V) (pe_ord V) pin of
      None \<Rightarrow> [] | Some h \<Rightarrow> h)"
  let ?ts = "ts_AsTime (pe_ext V) (pin_Ts pin) div 1000000000"
  obtain vm1 vm2 ex vm4 sm' ds pbd bal wc where c:
    "SyncBalances (pe_ord V) (pe_now V) (pin_Balance pin) (ns_vm st) = Some vm1"
    "CaptureStateStoreDiffs vm1 = Some vm2"
    "smcTxs_loop V (ns_pins st) ?ph ?ts (length (pin_Nodes pin)) 0 txs 0 []
       (nonceIncr_loop (pe_now V) (pin_Nodes pin) vm2, ns_smc st) = Some (ex, vm4, sm')"
    "GetStateStoreDiffs (pe_ord V) vm4 = Some ds" "diffToPb ds = Some pbd"
    "diffBalances_loop ds (pin_Balance pin, ns_walletCache st) = Some (bal, wc)"
    "pin' = pin\<lparr>pin_SmcTxs := ex, pin_Diffs := pbd, pin_Balance := bal\<rparr>"
    "st' = st\<lparr>ns_vm := ResetCaptureStateStoreDiffs vm4, ns_smc := sm', ns_walletCache := wc\<rparr>"
    using assms unfolding runSmartContractStage_def Let_def
    by (auto split: option.split_asm prod.split_asm)
  from c(3) have "\<exists>ph ts sm'. smcTxs_loop V (ns_pins st) ph ts (length (pin_Nodes pin)) 0 txs 0 []
       (nonceIncr_loop (pe_now V) (pin_Nodes pin) vm2, ns_smc st) = Some (ex, vm4, sm')"
    by blast
  from that [OF c(1,2) this c(4-7)] c(8) show thesis by simp
qed

text \<open>The stores along the stage.\<close>

definition synced :: "(string \<rightharpoonup> bytes) \<Rightarrow> Storage \<Rightarrow> Storage \<Rightarrow> bool" where
  "synced bal s s1 \<longleftrightarrow>
     (\<forall>b. length b = 20 \<longrightarrow>
       (if ''0x'' @ hexEncode b \<in> dom bal
        then \<exists>acc. accounts s1 (hexEncode b) = Some acc \<and>
                   bigOf (sa_Balance acc) = SetBytes (the (bal (''0x'' @ hexEncode b)))
        else accounts s1 (hexEncode b) = accounts s (hexEncode b)))"

lemma SyncBalances_synced:
  assumes "range_order ord" and "wallets_ok bal" and "vm_idle s" and "SyncBalances ord now bal s = Some s1"
  shows "server_inv s1 \<and> checkPoints s1 = [] \<and> synced bal s s1"
proof -
  have ks: "set (ord (dom bal)) = dom bal" "distinct (ord (dom bal))"
    using assms(1,2) by (simp_all add: wallets_ok_def map_iter)
  have idle: "server_inv s" "checkPoints s = []" using assms(3) by (simp_all add: vm_idle_def)
  have sync: "syncBalances_loop now bal (ord (dom bal)) s = Some s1"
    using assms(4) by (simp add: SyncBalances_def)
  have "\<forall>w \<in> dom bal. \<exists>b. length b = 20 \<and> w = ''0x'' @ hexEncode b"
    using assms(2) by (simp add: wallets_ok_def)
  from syncBalances_loop_spec [OF idle(1) ks(2), of now bal, unfolded ks(1), OF this] sync
  have "server_inv s1 \<and> synced bal s s1" unfolding synced_def by (metis option.inject)
  then show ?thesis using syncBalances_loop_checkPoints [OF sync] idle(2) by simp
qed

lemma stage_capture:
  assumes "vm_ok V" and "server_inv s1" and "checkPoints s1 = []" and "CaptureStateStoreDiffs s1 = Some s2"
    and "smcTxs_loop V pins ph ts k 0 txs 0 [] (nonceIncr_loop now nodes s2, sm) = Some (ex, s4, sm')"
  shows "server_inv s4 \<and> capture_inv s1 s4 \<and> accounts s4 = accounts s1 ++ accountDiffs (diffs s4)"
proof -
  have s2: "server_inv s2" "capture_inv s1 s2"
    using server_step_inv [OF step_capture [OF assms(4)] assms(2)]
      capture_inv_start [OF assms(2,4,3)] by blast+
  note s3 = nonceIncr_loop_keeps [OF s2, of now nodes]
  note req = smcTxs_loop_requests [OF assms(1,5)]
  have s4: "server_inv s4" "capture_inv s1 s4"
    using vm_requests_inv [OF req] capture_inv_requests [OF req] s3 by blast+
  have "accounts s4 a = (accounts s1 ++ accountDiffs (diffs s4)) a" for a
    using s4 by (cases "accountDiffs (diffs s4) a")
      (auto simp: capture_inv_def map_add_def domIff server_inv_def diffs_ok_def)
  with s4 show ?thesis by blast
qed

lemma stage_spec:
  assumes "vm_ok V" and "range_order (pe_ord V)" and "vm_idle (ns_vm st)"
    and "wallets_ok (pin_Balance pin)"
    and "runSmartContractStage V pin txs st = Some (pin', st')"
  obtains vm1 vm4 where
    "synced (pin_Balance pin) (ns_vm st) vm1"
    "server_inv vm4" "accounts vm4 = accounts vm1 ++ accountDiffs (diffs vm4)"
    "ns_vm st' = ResetCaptureStateStoreDiffs vm4"
    "\<And>a acc. accountDiffs (diffs vm4) a = Some acc \<Longrightarrow>
       pin_Balance pin' (''0x'' @ a) = Some (Bytes (bigOf (sa_Balance acc))) \<and> ns_walletCache st' (''0x'' @ a) = None"
    "\<And>w. (\<nexists>a. w = ''0x'' @ a \<and> a \<in> dom (accountDiffs (diffs vm4))) \<Longrightarrow>
       pin_Balance pin' w = pin_Balance pin w \<and> ns_walletCache st' w = ns_walletCache st w"
proof -
  from assms(5) obtain vm1 vm2 vm4 ds ex pbd bal wc where st:
    "SyncBalances (pe_ord V) (pe_now V) (pin_Balance pin) (ns_vm st) = Some vm1"
    "CaptureStateStoreDiffs vm1 = Some vm2"
    "\<exists>ph ts sm'. smcTxs_loop V (ns_pins st) ph ts (length (pin_Nodes pin)) 0 txs 0 []
       (nonceIncr_loop (pe_now V) (pin_Nodes pin) vm2, ns_smc st) = Some (ex, vm4, sm')"
    "GetStateStoreDiffs (pe_ord V) vm4 = Some ds"
    "diffBalances_loop ds (pin_Balance pin, ns_walletCache st) = Some (bal, wc)"
    "pin' = pin\<lparr>pin_SmcTxs := ex, pin_Diffs := pbd, pin_Balance := bal\<rparr>"
    "ns_vm st' = ResetCaptureStateStoreDiffs vm4" "ns_walletCache st' = wc"
    by (rule stage_cases) blast
  have vm1: "server_inv vm1" "checkPoints vm1 = []" "synced (pin_Balance pin) (ns_vm st) vm1"
    using SyncBalances_synced [OF assms(2,4,3) st(1)] by blast+
  have vm4: "server_inv vm4" "capture_inv vm1 vm4" "accounts vm4 = accounts vm1 ++ accountDiffs (diffs vm4)"
    using st(3) stage_capture [OF assms(1) vm1(1,2) st(2)] by blast+
  have addr: "sa_Address acc = a" if "accountDiffs (diffs vm4) a = Some acc" for a acc
    using that vm4(1) server_invD(1) [OF vm4(1)] by (simp add: server_inv_def diffs_ok_def)
  have ds: "ds = toDiffSlice (pe_ord V) (diffs vm4)"
    using st(4) by (simp add: GetStateStoreDiffs_def split: if_splits)
  have fd: "finite (dom (accountDiffs (diffs vm4)))" using vm4(2) by (simp add: capture_inv_def)
  have bals1: "(\<exists>b. parseInt (sa_Balance acc) = Some b \<and> bal (''0x'' @ a) = Some (Bytes b)) \<and> wc (''0x'' @ a) = None"
    if "accountDiffs (diffs vm4) a = Some acc" for a acc
    by (rule toDiffSlice_balances(1) [OF assms(2) fd _ st(5) [unfolded ds] that]) (rule addr)
  have bals2: "bal w = pin_Balance pin w \<and> wc w = ns_walletCache st w"
    if "\<nexists>a. w = ''0x'' @ a \<and> a \<in> dom (accountDiffs (diffs vm4))" for w
    by (rule toDiffSlice_balances(2) [OF assms(2) fd _ st(5) [unfolded ds] that]) (rule addr)
  show thesis
  proof (rule that [OF vm1(3) vm4(1,3) st(7)])
    show "pin_Balance pin' (''0x'' @ a) = Some (Bytes (bigOf (sa_Balance acc))) \<and> ns_walletCache st' (''0x'' @ a) = None"
      if "accountDiffs (diffs vm4) a = Some acc" for a acc
      using bals1 [OF that] by (auto simp: st(6,8) bigOf_def)
    show "pin_Balance pin' w = pin_Balance pin w \<and> ns_walletCache st' w = ns_walletCache st w"
      if "\<nexists>a. w = ''0x'' @ a \<and> a \<in> dom (accountDiffs (diffs vm4))" for w
      using bals2 [OF that] by (simp add: st(6,8))
  qed
qed

section \<open>A pin of payments\<close>

text \<open>The sites of a pin of plain payments: transactions of the own format with usable addresses.\<close>

definition payment_site :: "Node \<Rightarrow> bool" where
  "payment_site n \<longleftrightarrow>
     (\<exists>t sw rw. n_tx n = TxV1 t \<and> addressOf (Sender t) = Some sw \<and> addressOf (Recepient t) = Some rw)"

definition filled :: "(string \<rightharpoonup> int list) \<Rightarrow> string \<Rightarrow> bool" where
  "filled m w \<longleftrightarrow> (\<exists>b. Option.bind (m w) last_opt = Some b)"

lemma filled_append: "filled (append_at w b m) u \<longleftrightarrow> u = w \<or> filled m u"
  by (auto simp: filled_def append_at_def)

lemma payment_siteD:
  assumes "payment_site (h v)"
  obtains pbn sw rw where "Node_ToPbNode E F ms h v = Some pbn" "pbRlpEthTx (pbn_Tx pbn) = None"
    "senderAddr E (n_tx (h v)) = Some sw" "recipientAddr (n_tx (h v)) = Some rw"
proof -
  obtain t sw rw where t: "n_tx (h v) = TxV1 t" "addressOf (Sender t) = Some sw"
    "addressOf (Recepient t) = Some rw"
    using assms unfolding payment_site_def by blast
  then show thesis
    using that [of _ sw rw]
    by (simp add: Node_ToPbNode_def Let_def senderAddr_def recipientAddr_def Txv1_MarshalBinary_def)
qed

lemma collect_loop_total:
  assumes "\<forall>v \<in> set vs. payment_site (h v)"
  shows "\<exists>S' R'. collect_loop E pins wc h vs (S, R) = Some (S', R') \<and>
    (\<forall>w. filled S w \<longrightarrow> filled S' w) \<and> (\<forall>w. filled R w \<longrightarrow> filled R' w) \<and>
    (\<forall>v \<in> set vs. \<forall>w. senderAddr E (n_tx (h v)) = Some w \<longrightarrow> filled S' w) \<and>
    (\<forall>v \<in> set vs. \<forall>w. recipientAddr (n_tx (h v)) = Some w \<longrightarrow> filled R' w)"
  using assms
proof (induction vs arbitrary: S R)
  case Nil
  then show ?case by simp
next
  case (Cons v vs)
  obtain sw rw where a: "senderAddr E (n_tx (h v)) = Some sw" "recipientAddr (n_tx (h v)) = Some rw"
    using payment_siteD [of h v] Cons.prems by (metis list.set_intros(1))
  let ?e = "effective (unsafe_getLatestBalance pins) wc"
  have vs: "\<forall>v \<in> set vs. payment_site (h v)" using Cons.prems by simp
  obtain S' R' where ih:
    "collect_loop E pins wc h vs (append_at sw (?e sw) S, append_at rw (?e rw) R) = Some (S', R')"
    "\<forall>w. filled (append_at sw (?e sw) S) w \<longrightarrow> filled S' w"
    "\<forall>w. filled (append_at rw (?e rw) R) w \<longrightarrow> filled R' w"
    "\<forall>v \<in> set vs. \<forall>w. senderAddr E (n_tx (h v)) = Some w \<longrightarrow> filled S' w"
    "\<forall>v \<in> set vs. \<forall>w. recipientAddr (n_tx (h v)) = Some w \<longrightarrow> filled R' w"
    using Cons.IH [OF vs, of "append_at sw (?e sw) S" "append_at rw (?e rw) R"]
    by (elim exE conjE) (rule that)
  have "collect_loop E pins wc h (v # vs) (S, R) = Some (S', R')"
    using ih(1) by (simp add: a balance_or_zero)
  moreover have "\<forall>w. filled S w \<longrightarrow> filled S' w" "\<forall>w. filled R w \<longrightarrow> filled R' w" "filled S' sw" "filled R' rw"
    using ih(2,3) by (simp_all add: filled_append)
  ultimately show ?case using ih(4,5) a by (intro exI [of _ S'] exI [of _ R']) simp
qed

lemma sites_loop_total:
  assumes "\<forall>v \<in> set vs. payment_site (h v)"
    and "\<forall>v \<in> set vs. \<forall>w. senderAddr (pe_ext V) (n_tx (h v)) = Some w \<longrightarrow> filled S w"
    and "\<forall>v \<in> set vs. \<forall>w. recipientAddr (n_tx (h v)) = Some w \<longrightarrow> filled R w"
    and "tracks eff S" and "\<And>w. 0 \<le> eff w"
  shows "\<exists>r. sites_loop V S R vs (h, pin, wc) = Some r"
  using assms(1-3)
proof (induction vs arbitrary: pin wc)
  case Nil
  then show ?case by simp
next
  case (Cons v vs)
  obtain pbn sw rw where a: "Node_ToPbNode (pe_ext V) (pe_flops V) (pe_now_ms V) h v = Some pbn"
    "senderAddr (pe_ext V) (n_tx (h v)) = Some sw" "recipientAddr (n_tx (h v)) = Some rw"
    using payment_siteD [of h v] Cons.prems(1) by (metis list.set_intros(1))
  obtain sb rb where b: "Option.bind (S sw) last_opt = Some sb" "Option.bind (R rw) last_opt = Some rb"
    using Cons.prems(2,3) a(2,3) by (auto simp: filled_def)
  have "sb = eff sw" using b(1) assms(4) by (auto simp: tracks_def bind_eq_Some_conv)
  then have "\<not> sb < 0" using assms(5) [of sw] by simp
  with a b Cons.IH Cons.prems show ?case by (simp add: Let_def)
qed

lemma parties_ok: "finite (parties E h vs)"
  "w \<in> parties E h vs \<Longrightarrow> \<exists>b. length b = 20 \<and> w = ''0x'' @ hexEncode b"
proof -
  have "parties E h vs \<subseteq> (\<lambda>v. the (senderAddr E (n_tx (h v)))) ` set vs \<union>
      (\<lambda>v. the (recipientAddr (n_tx (h v)))) ` set vs"
    by (force simp: parties_def image_iff)
  then show "finite (parties E h vs)" by (rule finite_subset) simp
  show "w \<in> parties E h vs \<Longrightarrow> \<exists>b. length b = 20 \<and> w = ''0x'' @ hexEncode b"
    by (auto simp: parties_def senderAddr_def recipientAddr_def bind_eq_Some_conv dest!: addressOf_length)
qed

lemma payment_nodes:
  assumes "\<forall>v \<in> set vs. payment_site (h v)"
    and "those (map (Node_ToPbNode E F ms h) vs) = Some ns"
  shows "\<forall>n \<in> set ns. pbRlpEthTx (pbn_Tx n) = None"
  using assms
proof (induction vs arbitrary: ns)
  case Nil
  then show ?case by simp
next
  case (Cons v vs)
  obtain pbn where "Node_ToPbNode E F ms h v = Some pbn" "pbRlpEthTx (pbn_Tx pbn) = None"
    using payment_siteD [of h v E F ms] Cons.prems(1) by (metis list.set_intros(1))
  with Cons show ?case by (auto split: option.splits)
qed

lemma nonceIncr_loop_none: "\<forall>n \<in> set ns. pbRlpEthTx (pbn_Tx n) = None \<Longrightarrow> nonceIncr_loop now ns s = s"
  by (induction ns arbitrary: s) auto

lemma syncBalances_loop_collect:
  "syncBalances_loop now bal ks s = Some s' \<Longrightarrow> collectDiffs s' = collectDiffs s"
  by (induction ks arbitrary: s)
    (auto simp: syncBalance_one_def Let_def putAccount_fields split: option.splits sum.splits)

text \<open>The smart-contract stage without contract transactions only brings the store up to date.\<close>

lemma stage_payments:
  assumes "range_order (pe_ord V)" and "vm_idle (ns_vm st)" and "wallets_ok (pin_Balance pin)"
    and "\<forall>n \<in> set (pin_Nodes pin). pbRlpEthTx (pbn_Tx n) = None"
  shows "\<exists>vm. runSmartContractStage V pin [] st =
      Some (pin\<lparr>pin_SmcTxs := [], pin_Diffs := []\<rparr>, st\<lparr>ns_vm := vm\<rparr>) \<and>
    vm_idle vm \<and> synced (pin_Balance pin) (ns_vm st) vm"
proof -
  let ?ks = "pe_ord V (dom (pin_Balance pin))"
  have idle: "server_inv (ns_vm st)" "\<not> collectDiffs (ns_vm st)" using assms(2) by (simp_all add: vm_idle_def)
  have ks: "set ?ks = dom (pin_Balance pin)" "distinct ?ks"
    using assms(1,3) by (simp_all add: wallets_ok_def map_iter)
  have "\<forall>w \<in> set ?ks. \<exists>b. length b = 20 \<and> w = ''0x'' @ hexEncode b"
    unfolding ks(1) using assms(3) by (simp add: wallets_ok_def)
  from syncBalances_loop_spec [OF idle(1) ks(2) this, of "pe_now V" "pin_Balance pin"]
  obtain s1 where s1: "SyncBalances (pe_ord V) (pe_now V) (pin_Balance pin) (ns_vm st) = Some s1"
    unfolding SyncBalances_def by blast
  note sync = SyncBalances_synced [OF assms(1,3,2) s1]
  have c: "\<not> collectDiffs s1"
    using syncBalances_loop_collect s1 idle(2) by (fastforce simp: SyncBalances_def)
  then have d: "diffs s1 = emptyDiffs" using sync by (simp add: server_inv_def diffs_ok_def)
  have "pe_ord V {} = []" using range_order_set [OF assms(1), of "{}"] by simp
  then have slice: "toDiffSlice (pe_ord V) emptyDiffs = []" by (simp add: toDiffSlice_def emptyDiffs_def)
  have reset: "ResetCaptureStateStoreDiffs (s1\<lparr>collectDiffs := True\<rparr>) = s1"
    using c d by (cases s1) (simp add: ResetCaptureStateStoreDiffs_def Diffs_reset_empty)
  have "runSmartContractStage V pin [] st =
      Some (pin\<lparr>pin_SmcTxs := [], pin_Diffs := []\<rparr>, st\<lparr>ns_vm := s1\<rparr>)"
    using s1 c d reset slice nonceIncr_loop_none [OF assms(4)]
    by (cases pin) (cases st, simp add: runSmartContractStage_def CaptureStateStoreDiffs_def
        GetStateStoreDiffs_def Let_def diffToPb_def)
  with sync c show ?thesis by (auto simp: vm_idle_def)
qed

end
