(* ===== verification/Pin_Forming.thy ===== *)
theory Pin_Forming
  imports Pin_Stage
begin

text \<open>
  What forming pins achieves: \<^verbatim>\<open>add\<close> of \<^verbatim>\<open>src/dag/pin.go\<close> on a set of confirmed payments, the chain and
  the numbers of the pins a node forms one after the other, the agreement of a pin with the virtual
  machine's store, and the decoding of contract errors.
\<close>

section \<open>Lemmas\<close>

lemma SignTx_total:
  assumes "key_pair E (privateKey w) (publicKey w)"
  shows "\<exists>sig. SignTx E M ord w t = Some (t\<lparr>pin_Sign := sig, pin_Pk := publicKey w\<rparr>)"
proof (cases "TxPin_Hash E M ord (t\<lparr>pin_Sign := [], pin_Pk := publicKey w\<rparr>)")
  case None
  then show ?thesis by (auto simp: SignTx_def TxPin_generateSignature_def)
next
  case (Some payload)
  obtain sig where "ed25519_Sign E (privateKey w) payload = Some sig"
    using assms unfolding key_pair_def by blast
  with Some show ?thesis
    unfolding SignTx_def TxPin_generateSignature_def DSA_Sign_def
    by (intro exI [of _ sig]) (cases t, simp)
qed

lemma NewTxPin_simps [simp]:
  "pin_Balance (NewTxPin ts prev) = Map.empty" "pin_Sites (NewTxPin ts prev) = []"
  "pin_Nodes (NewTxPin ts prev) = []" "pin_Prev (NewTxPin ts prev) = prev"
  by (simp_all add: NewTxPin_def)

lemma parties_sort [simp]: "parties E h (sort_key f vs) = parties E h vs"
  by (simp add: parties_def)

definition pin_of_payments :: "pin_env \<Rightarrow> heap \<Rightarrow> addr list \<Rightarrow> NodeState \<Rightarrow> TxPin \<Rightarrow> bool" where
  "pin_of_payments V h sites st p \<longleftrightarrow>
     pin_Prev p = (if ns_pins st = [] then [] else pin_Sign (last (ns_pins st))) \<and>
     pin_PinNumber p = ns_pinsQuantity st \<and>
     pin_Sites p = map (\<lambda>v. SiteID_of (h v)) (sort_key (\<lambda>v. n_time (h v)) sites) \<and>
     pin_Balance p = (\<lambda>w. if w \<in> parties (pe_ext V) h sites
        then Some (Bytes (effective (unsafe_getLatestBalance (ns_pins st)) (ns_walletCache st) w)) else None) \<and>
     pin_SmcTxs p = [] \<and> pin_Diffs p = []"

lemma add_payments:
  assumes "range_order (pe_ord V)" and "vm_idle (ns_vm st)" and "cache_ok (ns_walletCache st)"
    and "\<forall>v \<in> set sites. payment_site (h v)"
    and "key_pair (pe_ext V) (privateKey (pe_wallet V)) (publicKey (pe_wallet V))"
  shows "\<exists>p vm. NodeTxPin_add V sites [] h st =
      Some (h, st\<lparr>ns_pins := ns_pins st @ [p], ns_pinsQuantity := ns_pinsQuantity st + 1,
                 ns_walletCache := (\<lambda>w. if w \<in> parties (pe_ext V) h sites then None else ns_walletCache st w),
                 ns_vm := vm\<rparr>) \<and>
    pin_of_payments V h sites st p \<and> vm_idle vm \<and> synced (pin_Balance p) (ns_vm st) vm"
proof -
  let ?pins = "ns_pins st" and ?wc = "ns_walletCache st" and ?E = "pe_ext V"
  let ?vs = "sort_key (\<lambda>v. n_time (h v)) sites"
  let ?prev = "if length ?pins > 0 then pin_Sign (?pins ! (length ?pins - 1)) else []"
  define eff where "eff = effective (unsafe_getLatestBalance ?pins) ?wc"
  have nonneg: "0 \<le> eff w" for w using assms(3) by (simp add: eff_def effective_nonneg)
  have vs: "\<forall>v \<in> set ?vs. payment_site (h v)" using assms(4) by simp
  obtain S R where SR: "collect_loop ?E ?pins ?wc h ?vs (Map.empty, Map.empty) = Some (S, R)"
    "\<forall>v \<in> set ?vs. \<forall>w. senderAddr ?E (n_tx (h v)) = Some w \<longrightarrow> filled S w"
    "\<forall>v \<in> set ?vs. \<forall>w. recipientAddr (n_tx (h v)) = Some w \<longrightarrow> filled R w"
    using collect_loop_total [OF vs, of ?E ?pins ?wc Map.empty Map.empty] by (elim exE conjE) (rule that)
  have tr: "tracks eff S" "tracks eff R"
    using collect_loop_tracks [OF SR(1)] by (simp_all add: tracks_def eff_def)
  obtain h' pin wc where loop: "sites_loop V S R ?vs (h, NewTxPin (pe_ts V) ?prev, ?wc) = Some (h', pin, wc)"
    using sites_loop_total [OF vs SR(2,3) tr(1) nonneg] by (metis prod_cases3)
  note spec = sites_loop_spec [OF loop tr nonneg, unfolded NewTxPin_simps parties_sort append_Nil]
  obtain ns where ns: "those (map (Node_ToPbNode ?E (pe_flops V) (pe_now_ms V) h) ?vs) = Some ns"
    "pin_Nodes pin = ns"
    using spec by blast
  have bal: "pin_Balance pin = (\<lambda>w. if w \<in> parties ?E h sites then Some (Bytes (eff w)) else None)"
    using spec by blast
  let ?pin = "pin\<lparr>pin_PinNumber := ns_pinsQuantity st\<rparr>"
  let ?st = "st\<lparr>ns_walletCache := wc, ns_pinsQuantity := ns_pinsQuantity st + 1\<rparr>"
  have wok: "wallets_ok (pin_Balance ?pin)"
    using parties_ok(1) [of ?E h sites] parties_ok(2) [where E = ?E and h = h and vs = sites]
    by (auto simp: wallets_ok_def bal dom_def)
  obtain vm where vm: "runSmartContractStage V ?pin [] ?st =
      Some (?pin\<lparr>pin_SmcTxs := [], pin_Diffs := []\<rparr>, ?st\<lparr>ns_vm := vm\<rparr>)"
    "vm_idle vm" "synced (pin_Balance pin) (ns_vm st) vm"
    using stage_payments [OF assms(1) _ wok, of ?st] assms(2) payment_nodes [OF vs ns(1)] ns(2) by auto
  obtain sig where sig: "SignTx ?E (pe_marshal V) (pe_ord V) (pe_wallet V) (?pin\<lparr>pin_SmcTxs := [], pin_Diffs := []\<rparr>) =
      Some (?pin\<lparr>pin_SmcTxs := [], pin_Diffs := []\<rparr>\<lparr>pin_Sign := sig, pin_Pk := publicKey (pe_wallet V)\<rparr>)"
    using SignTx_total [OF assms(5)] by blast
  let ?p = "?pin\<lparr>pin_SmcTxs := [], pin_Diffs := []\<rparr>\<lparr>pin_Sign := sig, pin_Pk := publicKey (pe_wallet V)\<rparr>"
  have "pin_of_payments V h sites st ?p"
    using spec bal by (auto simp: pin_of_payments_def eff_def last_conv_nth)
  moreover have "NodeTxPin_add V sites [] h st =
      Some (h, st\<lparr>ns_pins := ?pins @ [?p], ns_pinsQuantity := ns_pinsQuantity st + 1,
        ns_walletCache := (\<lambda>w. if w \<in> parties ?E h sites then None else ?wc w), ns_vm := vm\<rparr>)"
  proof -
    have "h' = h" and wc: "wc = (\<lambda>w. if w \<in> parties ?E h sites then None else ?wc w)"
      using spec by blast+
    with SR(1) loop vm(1) sig have "NodeTxPin_add V sites [] h st =
        Some (h, ?st\<lparr>ns_vm := vm\<rparr>\<lparr>ns_pins := ?pins @ [?p]\<rparr>)"
      unfolding NodeTxPin_add_def Let_def by simp
    also have "?st\<lparr>ns_vm := vm\<rparr>\<lparr>ns_pins := ?pins @ [?p]\<rparr> =
        st\<lparr>ns_pins := ?pins @ [?p], ns_pinsQuantity := ns_pinsQuantity st + 1, ns_walletCache := wc, ns_vm := vm\<rparr>"
      by (cases st) simp
    finally show ?thesis unfolding wc .
  qed
  ultimately show ?thesis using vm(2,3) by (intro exI [of _ ?p] exI [of _ vm]) simp
qed

lemma effective_pinned:
  "WalletCache_get wc w = None \<Longrightarrow> pinned w = Some b \<Longrightarrow> effective pinned wc w = b"
  by (simp add: effective_def)

lemma effective_same:
  "WalletCache_get wc' w = WalletCache_get wc w \<Longrightarrow> pinned' w = pinned w \<Longrightarrow>
   effective pinned' wc' w = effective pinned wc w"
  by (simp add: effective_def split: option.split)

lemma InPin_last: "v \<in> set vs \<Longrightarrow> pin_Sites p = map (\<lambda>v. SiteID_of (h v)) vs \<Longrightarrow> InPin (pins @ [p]) (node_uuid h v)"
  by (auto simp: InPin_def goFind_None_iff SiteID_of_def)

lemma SignTx_keeps:
  "SignTx E M ord w t = Some t' \<Longrightarrow> pin_PinNumber t' = pin_PinNumber t \<and> pin_Prev t' = pin_Prev t"
  by (auto simp: SignTx_def TxPin_generateSignature_def split: option.splits)

lemma set_appends:
  assumes "NodeTxPin_set E M ord ts w genesis wallet pins = Some pins'"
  shows "\<exists>p. pins' = pins @ [p] \<and> pin_PinNumber p = 0 \<and> pin_Prev p = []"
  using assms by (auto simp: NodeTxPin_set_def Let_def NewTxPin_def dest!: SignTx_keeps)

text \<open>Every pin \<^verbatim>\<open>add\<close> appends continues the chain and takes the next number.\<close>

lemma add_appends:
  assumes "NodeTxPin_add V sites txs h st = Some (h', st')"
  shows "\<exists>p. ns_pins st' = ns_pins st @ [p] \<and> pin_PinNumber p = ns_pinsQuantity st \<and>
    pin_Prev p = (if ns_pins st = [] then [] else pin_Sign (last (ns_pins st))) \<and>
    ns_pinsQuantity st' = ns_pinsQuantity st + 1"
proof -
  let ?prev = "if length (ns_pins st) > 0 then pin_Sign (ns_pins st ! (length (ns_pins st) - 1)) else []"
  obtain S R h1 pin wc pin' st1 signed where s:
    "sites_loop V S R (sort_key (\<lambda>v. n_time (h v)) sites) (h, NewTxPin (pe_ts V) ?prev, ns_walletCache st) =
       Some (h1, pin, wc)"
    "runSmartContractStage V (pin\<lparr>pin_PinNumber := ns_pinsQuantity st\<rparr>) txs
       (st\<lparr>ns_walletCache := wc, ns_pinsQuantity := ns_pinsQuantity st + 1\<rparr>) = Some (pin', st1)"
    "SignTx (pe_ext V) (pe_marshal V) (pe_ord V) (pe_wallet V) pin' = Some signed"
    "st' = st1\<lparr>ns_pins := ns_pins st1 @ [signed]\<rparr>"
    using assms unfolding NodeTxPin_add_def Let_def
    by (auto split: option.split_asm prod.split_asm)
  have prev: "pin_Prev pin = ?prev"
  proof -
    have "sites_loop V S R vs (h0, pin0, wc0) = Some (h1, pin, wc) \<Longrightarrow> pin_Prev pin = pin_Prev pin0" for vs h0 pin0 wc0
      by (induction vs arbitrary: h0 pin0 wc0) (auto simp: Let_def split: option.splits)
    from this [OF s(1)] show ?thesis by simp
  qed
  from s(2) have st1: "pin_PinNumber pin' = ns_pinsQuantity st" "pin_Prev pin' = pin_Prev pin"
    "ns_pins st1 = ns_pins st" "ns_pinsQuantity st1 = ns_pinsQuantity st + 1"
    by (auto elim!: stage_cases)
  with SignTx_keeps [OF s(3)] s(4) st1 prev show ?thesis by (auto simp: last_conv_nth)
qed

section \<open>The pins a node forms\<close>

inductive pin_history :: "NodeState \<Rightarrow> bool" where
  hist_genesis: "NodeTxPin_set E M ord ts w genesis wallet [] = Some (ns_pins st) \<Longrightarrow>
    ns_pinsQuantity st = 0 \<Longrightarrow> pin_history st"
| hist_add: "pin_history st \<Longrightarrow> NodeTxPin_add V sites txs h st = Some (h', st') \<Longrightarrow> pin_history st'"

lemma history_numbers:
  assumes "pin_history st"
  shows "ns_pins st \<noteq> [] \<and> ns_pinsQuantity st = of_nat (length (ns_pins st) - 1) \<and>
    (\<forall>i < length (ns_pins st). pin_PinNumber (ns_pins st ! i) = of_nat (i - 1) \<and>
       pin_Prev (ns_pins st ! i) = (if i = 0 then [] else pin_Sign (ns_pins st ! (i - 1))))"
  using assms
proof (induction rule: pin_history.induct)
  case (hist_genesis E M ord ts w genesis wallet st)
  then obtain p where "ns_pins st = [p]" "pin_PinNumber p = 0" "pin_Prev p = []"
    using set_appends by fastforce
  with hist_genesis show ?case by simp
next
  case (hist_add st V sites txs h h' st')
  obtain p where p: "ns_pins st' = ns_pins st @ [p]" "pin_PinNumber p = ns_pinsQuantity st"
    "pin_Prev p = (if ns_pins st = [] then [] else pin_Sign (last (ns_pins st)))"
    "ns_pinsQuantity st' = ns_pinsQuantity st + 1"
    using add_appends [OF hist_add.hyps(2)] by blast
  have ne: "ns_pins st \<noteq> []" using hist_add.IH by blast
  then obtain k where k: "length (ns_pins st) = Suc k" by (cases "ns_pins st") auto
  show ?case
    using hist_add.IH p ne k by (auto simp: nth_append less_Suc_eq last_conv_nth)
qed

lemma sint_of_nat_small: "n < 2 ^ 63 \<Longrightarrow> sint (of_nat n :: 64 word) = int n"
  by (simp add: signed_of_nat signed_take_bit_int_eq_self)

section \<open>Properties\<close>

definition demo_env :: pin_env where
  "demo_env = \<lparr>pe_ext = demo_ext, pe_flops = demo_flops, pe_marshal = (\<lambda>_ _. Some [1]),
     pe_ord = sorted_list_of_set, pe_now_ms = 0, pe_now = 0, pe_ts = (0, 0), pe_Connect = None,
     pe_RunCall = (\<lambda>m hd s. (Inl [], s)), pe_Coinbaseaccount = [], pe_NodeType = 0,
     pe_wallet = \<lparr>privateKey = [3], publicKey = [4], walletAddress = []\<rparr>, pe_TxString = (\<lambda>_. [])\<rparr>"

definition demo_state :: NodeState where
  "demo_state = \<lparr>ns_pins = [], ns_pinsQuantity = 0, ns_walletCache = newWalletCache,
     ns_walletCacheConfirmed = newWalletCache, ns_vm = NewStorage, ns_smc = smc_init\<rparr>"

lemma demo_env_simps [simp]:
  "range_order (pe_ord demo_env)" "vm_ok demo_env" "vm_idle (ns_vm demo_state)"
  "cache_ok (ns_walletCache demo_state)" "payment_site demo_node"
  "key_pair (pe_ext demo_env) (privateKey (pe_wallet demo_env)) (publicKey (pe_wallet demo_env))"
proof -
  show "vm_idle (ns_vm demo_state)"
    using server_inv_New by (simp add: vm_idle_def demo_state_def) (simp add: NewStorage_def)
  show "payment_site demo_node"
    by (simp add: payment_site_def demo_node_def zeroNode_def demo_tx_simps addressOf_Some)
qed (simp_all add: demo_env_def vm_ok_def demo_state_def range_order_sorted)

text \<open>
  C7. Confirmed payments become a pin. For sites that are plain payments \<^verbatim>\<open>add\<close> does not fail: it
  appends exactly one pin, which refers to the signature of the pin before it, carries the next
  number and lists precisely the given sites in the order of their times; afterwards every one of
  them is found in the pins, the nodes are unchanged, and the node is again at rest.
\<close>
theorem pin_add_payments:
  assumes "range_order (pe_ord V)" and "vm_idle (ns_vm st)" and "cache_ok (ns_walletCache st)"
    and "\<forall>v \<in> set sites. payment_site (h v)"
    and "key_pair (pe_ext V) (privateKey (pe_wallet V)) (publicKey (pe_wallet V))"
  shows "\<exists>p st'. NodeTxPin_add V sites [] h st = Some (h, st') \<and> ns_pins st' = ns_pins st @ [p] \<and>
    pin_Prev p = (if ns_pins st = [] then [] else pin_Sign (last (ns_pins st))) \<and>
    pin_PinNumber p = ns_pinsQuantity st \<and> ns_pinsQuantity st' = ns_pinsQuantity st + 1 \<and>
    pin_Sites p = map (\<lambda>v. SiteID_of (h v)) (sort_key (\<lambda>v. n_time (h v)) sites) \<and>
    (\<forall>v \<in> set sites. InPin (ns_pins st') (node_uuid h v)) \<and>
    cache_ok (ns_walletCache st') \<and> vm_idle (ns_vm st')"
proof -
  obtain p vm where a: "NodeTxPin_add V sites [] h st =
      Some (h, st\<lparr>ns_pins := ns_pins st @ [p], ns_pinsQuantity := ns_pinsQuantity st + 1,
                 ns_walletCache := (\<lambda>w. if w \<in> parties (pe_ext V) h sites then None else ns_walletCache st w),
                 ns_vm := vm\<rparr>)" "pin_of_payments V h sites st p" "vm_idle vm"
    using add_payments [OF assms] by blast
  have sites: "pin_Sites p = map (\<lambda>v. SiteID_of (h v)) (sort_key (\<lambda>v. n_time (h v)) sites)"
    using a(2) by (simp add: pin_of_payments_def)
  have "InPin (ns_pins st @ [p]) (node_uuid h v)" if "v \<in> set sites" for v
    using InPin_last [OF _ sites] that by simp
  moreover have "cache_ok (\<lambda>w. if w \<in> parties (pe_ext V) h sites then None else ns_walletCache st w)"
    using assms(3) by (auto simp: cache_ok_def)
  ultimately show ?thesis
    using a by (intro exI [of _ p] exI) (auto simp: pin_of_payments_def)
qed

theorem pin_add_payments_witness:
  "\<exists>p st'. NodeTxPin_add demo_env [0] [] (\<lambda>_. demo_node) demo_state = Some (\<lambda>_. demo_node, st') \<and>
     ns_pins st' = [p] \<and> InPin [p] (nid_id (n_id demo_node))"
proof -
  have "\<forall>v \<in> set [0]. payment_site ((\<lambda>_. demo_node) v)" by simp
  from pin_add_payments [OF demo_env_simps(1,3,4) this demo_env_simps(6)] show ?thesis
    by (auto simp: demo_state_def)
qed

text \<open>
  C18. Pinning moves no money. Forming a pin from payments leaves the balance every wallet has, as
  all readers compute it from cache and pins, exactly as it was, and afterwards the account of each
  party in the virtual machine's store holds that balance.
\<close>
theorem pin_add_balances:
  assumes "range_order (pe_ord V)" and "vm_idle (ns_vm st)" and "cache_ok (ns_walletCache st)"
    and "\<forall>v \<in> set sites. payment_site (h v)"
    and "key_pair (pe_ext V) (privateKey (pe_wallet V)) (publicKey (pe_wallet V))"
  shows "\<exists>st'. NodeTxPin_add V sites [] h st = Some (h, st') \<and>
    effective (unsafe_getLatestBalance (ns_pins st')) (ns_walletCache st') =
      effective (unsafe_getLatestBalance (ns_pins st)) (ns_walletCache st) \<and>
    (\<forall>b. length b = 20 \<longrightarrow> ''0x'' @ hexEncode b \<in> parties (pe_ext V) h sites \<longrightarrow>
       (\<exists>acc. accounts (ns_vm st') (hexEncode b) = Some acc \<and>
          bigOf (sa_Balance acc) =
            effective (unsafe_getLatestBalance (ns_pins st)) (ns_walletCache st) (''0x'' @ hexEncode b)))"
proof -
  let ?eff = "effective (unsafe_getLatestBalance (ns_pins st)) (ns_walletCache st)"
  let ?P = "parties (pe_ext V) h sites"
  obtain p vm where a: "NodeTxPin_add V sites [] h st =
      Some (h, st\<lparr>ns_pins := ns_pins st @ [p], ns_pinsQuantity := ns_pinsQuantity st + 1,
                 ns_walletCache := (\<lambda>w. if w \<in> ?P then None else ns_walletCache st w),
                 ns_vm := vm\<rparr>)" "pin_of_payments V h sites st p" "synced (pin_Balance p) (ns_vm st) vm"
    using add_payments [OF assms] by blast
  let ?st' = "st\<lparr>ns_pins := ns_pins st @ [p], ns_pinsQuantity := ns_pinsQuantity st + 1,
      ns_walletCache := (\<lambda>w. if w \<in> ?P then None else ns_walletCache st w), ns_vm := vm\<rparr>"
  have bal: "pin_Balance p = (\<lambda>w. if w \<in> ?P then Some (Bytes (?eff w)) else None)"
    using a(2) by (simp add: pin_of_payments_def)
  have nonneg: "0 \<le> ?eff w" for w using assms(3) by (simp add: effective_nonneg)
  have "effective (unsafe_getLatestBalance (ns_pins st @ [p]))
      (\<lambda>w. if w \<in> ?P then None else ns_walletCache st w) w = ?eff w" for w
  proof (cases "w \<in> ?P")
    case True
    then have "unsafe_getLatestBalance (ns_pins st @ [p]) w = Some (?eff w)"
      using nonneg [of w] by (simp add: unsafe_getLatestBalance_snoc bal)
    with True show ?thesis by (intro effective_pinned) (simp_all add: WalletCache_get_def)
  next
    case False
    then show ?thesis
      by (intro effective_same) (simp_all add: WalletCache_get_def unsafe_getLatestBalance_snoc bal)
  qed
  then have eff: "effective (unsafe_getLatestBalance (ns_pins st @ [p]))
      (\<lambda>w. if w \<in> ?P then None else ns_walletCache st w) = ?eff" by blast
  have store: "\<exists>acc. accounts vm (hexEncode b) = Some acc \<and> bigOf (sa_Balance acc) = ?eff (''0x'' @ hexEncode b)"
    if b: "length b = 20" "''0x'' @ hexEncode b \<in> ?P" for b
  proof -
    have "''0x'' @ hexEncode b \<in> dom (pin_Balance p)" using b(2) unfolding bal dom_def by simp
    then obtain acc where "accounts vm (hexEncode b) = Some acc"
      "bigOf (sa_Balance acc) = SetBytes (the (pin_Balance p (''0x'' @ hexEncode b)))"
      using a(3) b(1) unfolding synced_def by metis
    moreover have "SetBytes (the (pin_Balance p (''0x'' @ hexEncode b))) = ?eff (''0x'' @ hexEncode b)"
      unfolding bal using b(2) nonneg by simp
    ultimately show ?thesis by simp
  qed
  show ?thesis
  proof (rule exI [of _ ?st'], intro conjI allI impI)
    show "NodeTxPin_add V sites [] h st = Some (h, ?st')" by (rule a(1))
    show "effective (unsafe_getLatestBalance (ns_pins ?st')) (ns_walletCache ?st') = ?eff"
      using eff by simp
    show "\<exists>acc. accounts (ns_vm ?st') (hexEncode b) = Some acc \<and> bigOf (sa_Balance acc) = ?eff (''0x'' @ hexEncode b)"
      if "length b = 20" "''0x'' @ hexEncode b \<in> ?P" for b
      using store [OF that] by simp
  qed
qed

theorem pin_add_balances_witness:
  "\<exists>st'. NodeTxPin_add demo_env [0] [] (\<lambda>_. demo_node) demo_state = Some (\<lambda>_. demo_node, st') \<and>
     effective (unsafe_getLatestBalance (ns_pins st')) (ns_walletCache st') =
       effective (unsafe_getLatestBalance []) newWalletCache"
proof -
  have "\<forall>v \<in> set [0]. payment_site ((\<lambda>_. demo_node) v)" by simp
  from pin_add_balances [OF demo_env_simps(1,3,4) this demo_env_simps(6)] show ?thesis
    by (auto simp: demo_state_def)
qed

text \<open>
  C17. A pin and the virtual machine agree. Whatever contract transactions the smart-contract stage
  executes, afterwards every wallet recorded in the pin has an account in the store whose balance has
  the recorded magnitude, and the account of every other wallet is untouched.
\<close>
theorem stage_agrees_with_vm:
  assumes "vm_ok V" and "range_order (pe_ord V)" and "vm_idle (ns_vm st)"
    and "wallets_ok (pin_Balance pin)"
    and "runSmartContractStage V pin txs st = Some (pin', st')" and "length b = 20"
  shows "case pin_Balance pin' (''0x'' @ hexEncode b) of
      Some v \<Rightarrow> \<exists>acc. accounts (ns_vm st') (hexEncode b) = Some acc \<and> SetBytes v = \<bar>bigOf (sa_Balance acc)\<bar>
    | None \<Rightarrow> accounts (ns_vm st') (hexEncode b) = accounts (ns_vm st) (hexEncode b)"
proof -
  let ?w = "''0x'' @ hexEncode b"
  obtain vm1 vm4 where s: "synced (pin_Balance pin) (ns_vm st) vm1" "server_inv vm4"
    "accounts vm4 = accounts vm1 ++ accountDiffs (diffs vm4)"
    "ns_vm st' = ResetCaptureStateStoreDiffs vm4"
    "\<And>a acc. accountDiffs (diffs vm4) a = Some acc \<Longrightarrow>
       pin_Balance pin' (''0x'' @ a) = Some (Bytes (bigOf (sa_Balance acc))) \<and> ns_walletCache st' (''0x'' @ a) = None"
    "\<And>w. (\<nexists>a. w = ''0x'' @ a \<and> a \<in> dom (accountDiffs (diffs vm4))) \<Longrightarrow>
       pin_Balance pin' w = pin_Balance pin w \<and> ns_walletCache st' w = ns_walletCache st w"
    by (rule stage_spec [OF assms(1-5)]) (rule that)
  have st': "accounts (ns_vm st') = accounts vm4" by (simp add: s(4) ResetCaptureStateStoreDiffs_def)
  show ?thesis
  proof (cases "accountDiffs (diffs vm4) (hexEncode b)")
    case (Some acc)
    then have "accounts vm4 (hexEncode b) = Some acc" by (simp add: s(3))
    then show ?thesis using s(5) [OF Some] by (simp add: st' SetBytes_Bytes)
  next
    case None
    then have pin: "pin_Balance pin' ?w = pin_Balance pin ?w" by (intro s(6) [THEN conjunct1]) auto
    have acc: "accounts (ns_vm st') (hexEncode b) = accounts vm1 (hexEncode b)"
      unfolding st' s(3) using None by (simp add: map_add_def)
    have vm1: "if ?w \<in> dom (pin_Balance pin)
        then \<exists>acc. accounts vm1 (hexEncode b) = Some acc \<and> bigOf (sa_Balance acc) = SetBytes (the (pin_Balance pin ?w))
        else accounts vm1 (hexEncode b) = accounts (ns_vm st) (hexEncode b)"
      using s(1) assms(6) unfolding synced_def by blast
    show ?thesis
    proof (cases "pin_Balance pin ?w")
      case None
      then show ?thesis using vm1 unfolding pin acc by (simp add: domIff)
    next
      case (Some v)
      then obtain a where "accounts vm1 (hexEncode b) = Some a" "bigOf (sa_Balance a) = SetBytes v"
        using vm1 by (auto simp: domIff)
      then show ?thesis unfolding pin acc Some by simp
    qed
  qed
qed

theorem stage_agrees_with_vm_witness:
  "\<exists>pin' st'. runSmartContractStage demo_env (NewTxPin (0, 0) []) [] demo_state = Some (pin', st') \<and>
     (case pin_Balance pin' (''0x'' @ hexEncode (replicate 20 1)) of
        Some v \<Rightarrow> \<exists>acc. accounts (ns_vm st') (hexEncode (replicate 20 1)) = Some acc \<and>
                        SetBytes v = \<bar>bigOf (sa_Balance acc)\<bar>
      | None \<Rightarrow> accounts (ns_vm st') (hexEncode (replicate 20 1)) =
                accounts (ns_vm demo_state) (hexEncode (replicate 20 1)))"
proof -
  have w: "wallets_ok (pin_Balance (NewTxPin (0, 0) []))" by (simp add: wallets_ok_def)
  obtain pin' st' where r: "runSmartContractStage demo_env (NewTxPin (0, 0) []) [] demo_state = Some (pin', st')"
    using stage_payments [OF demo_env_simps(1,3) w] by auto
  from stage_agrees_with_vm [OF demo_env_simps(2,1,3) w r, of "replicate 20 1"] r show ?thesis by auto
qed

text \<open>
  C37. The numbers of the pins are off by one. In every history that starts with the genesis pin and
  goes on with \<^verbatim>\<open>add\<close>, the pins form a chain, and asking for pin number \<open>k\<close> returns the genesis pin for
  0, the pin at position \<open>k + 1\<close> otherwise, and nothing for the last position: the first pin after
  genesis cannot be asked for at all.
\<close>
theorem pin_numbers:
  assumes "pin_history st" and "length (ns_pins st) < 2 ^ 63"
  shows "(\<forall>i. 0 < i \<longrightarrow> i < length (ns_pins st) \<longrightarrow>
            pin_Prev (ns_pins st ! i) = pin_Sign (ns_pins st ! (i - 1))) \<and>
         NodeTxPin_GetPin (ns_pins st) (int k) =
           (if k = 0 then Some (ns_pins st ! 0)
            else if k + 1 < length (ns_pins st) then Some (ns_pins st ! (k + 1)) else None)"
proof
  let ?ps = "ns_pins st"
  note n = history_numbers [OF assms(1)]
  then show "\<forall>i. 0 < i \<longrightarrow> i < length ?ps \<longrightarrow> pin_Prev (?ps ! i) = pin_Sign (?ps ! (i - 1))" by simp
  have num: "sint (pin_PinNumber (?ps ! i)) = int (i - 1)" if "i < length ?ps" for i
    using n that assms(2) by (simp add: sint_of_nat_small)
  show "NodeTxPin_GetPin ?ps (int k) =
      (if k = 0 then Some (?ps ! 0) else if k + 1 < length ?ps then Some (?ps ! (k + 1)) else None)"
  proof (cases "k = 0")
    case True
    then show ?thesis using n num [of 0] by (simp add: NodeTxPin_GetPin_def)
  next
    case False
    show ?thesis
    proof (cases "k + 1 < length ?ps")
      case True
      have "goFind (\<lambda>pin. sint (pin_PinNumber pin) = int k) ?ps = Some (?ps ! (k + 1), k + 1)"
      proof (rule goFind_unique [OF True])
        show "sint (pin_PinNumber (?ps ! (k + 1))) = int k" using num [OF True] by simp
        show "j = k + 1" if "j < length ?ps" "sint (pin_PinNumber (?ps ! j)) = int k" for j
          using num [OF that(1)] that(2) False by simp
      qed
      then show ?thesis using n True False num [of k] by (simp add: NodeTxPin_GetPin_def)
    next
      case out: False
      have "goFind (\<lambda>pin. sint (pin_PinNumber pin) = int k) ?ps = None"
        by (rule goFind_None_nth) (use out False num in auto)
      then show ?thesis using n out False num [of k] by (simp add: NodeTxPin_GetPin_def)
    qed
  qed
qed

theorem pin_numbers_witness:
  "\<exists>st. pin_history st \<and> length (ns_pins st) = 2 \<and> NodeTxPin_GetPin (ns_pins st) 1 = None"
proof -
  obtain p0 where p0: "NodeTxPin_set demo_ext (\<lambda>_ _. Some [1]) sorted_list_of_set (0, 0)
      \<lparr>privateKey = [3], publicKey = [4], walletAddress = []\<rparr> demo_node [] [] = Some [p0]"
    using SignTx_total [OF demo_key_pair, of "\<lparr>privateKey = [3], publicKey = [4], walletAddress = []\<rparr>"]
    by (fastforce simp: NodeTxPin_set_def Let_def)
  let ?st = "demo_state\<lparr>ns_pins := [p0]\<rparr>"
  have h: "pin_history ?st" by (rule hist_genesis) (use p0 in \<open>auto simp: demo_state_def\<close>)
  have "vm_idle (ns_vm ?st)" "cache_ok (ns_walletCache ?st)" using demo_env_simps(3,4) by simp_all
  from add_payments [OF demo_env_simps(1) this _ demo_env_simps(6), of "[]" "\<lambda>_. demo_node"]
  obtain p st' where st': "NodeTxPin_add demo_env [] [] (\<lambda>_. demo_node) ?st = Some (\<lambda>_. demo_node, st')"
    "ns_pins st' = [p0, p]" by auto
  have h': "pin_history st'" by (rule hist_add [OF h st'(1)])
  from pin_numbers [OF this, of 1] have "NodeTxPin_GetPin (ns_pins st') 1 = None" using st'(2) by simp
  with h' st'(2) show ?thesis by auto
qed

section \<open>Contract errors\<close>

lemma hexNumber_hexEncode: "hexNumber (hexEncode bs) n = Some (n * 256 ^ length bs + nat (SetBytes bs))"
proof (induction bs arbitrary: n)
  case Nil
  then show ?case by simp
next
  case (Cons b bs)
  have "unat b div 16 < 16" using unsigned_less [of b, where ?'a = nat] by simp
  then have "hexNumber (hexEncode (b # bs)) n = hexNumber (hexEncode bs) (n * 256 + unat b)"
    by (simp add: algebra_simps)
  also have "\<dots> = Some ((n * 256 + unat b) * 256 ^ length bs + nat (SetBytes bs))" by (rule Cons.IH)
  also have "(n * 256 + unat b) * 256 ^ length bs + nat (SetBytes bs) =
      n * 256 ^ length (b # bs) + nat (SetBytes (b # bs))"
    by (simp add: SetBytes_Cons nat_add_distrib nat_mult_distrib nat_power_eq algebra_simps
        flip: unat_eq_nat_uint)
  finally show ?case .
qed

lemma take_drop_hexEncode:
  "take (2 * n) (hexEncode bs) = hexEncode (take n bs) \<and> drop (2 * n) (hexEncode bs) = hexEncode (drop n bs)"
proof (induction n arbitrary: bs)
  case 0
  then show ?case by simp
next
  case (Suc n)
  then show ?case by (cases bs) simp_all
qed

lemma slice_hexEncode:
  assumes "unat lo = 2 * i" and "unat hi = 2 * j" and "i \<le> j" and "j \<le> length bs"
  shows "goSlice (hexEncode bs) lo hi = Some (hexEncode (drop i (take j bs)))"
proof -
  have "lo \<le> hi" using assms(1-3) by (simp add: word_le_nat_alt)
  with assms show ?thesis by (simp add: goSlice_def take_drop_hexEncode)
qed

text \<open>
  The reason of a reverted contract call survives. An error encoded the way Solidity does it, a
  four-byte selector, the offset 32, the length of the text and the text padded with zeros, each
  number in 32 bytes, is decoded to exactly its text, length, offset and selector.
\<close>
lemma solidity_error_decoded:
  assumes "length sel = 4" and "length off = 32" and "SetBytes off = 32"
    and "length len = 32" and "SetBytes len = int (length msg)" and "length msg < 2 ^ 60"
    and "32 \<le> length msg + length pad"
  shows "newSolidityError (''0x'' @ hexEncode (sel @ off @ len @ msg @ pad)) =
    Some \<lparr>se_signature = hexEncode sel, se_offset = 32, se_dataLen = of_nat (length msg),
          se_data = map (\<lambda>b. char_of (unat b)) msg,
          se_raw = ''0x'' @ hexEncode (sel @ off @ len @ msg @ pad)\<rparr>"
proof -
  let ?bs = "sel @ off @ len @ msg @ pad"
  have lenbs: "length ?bs \<ge> 100" using assms by simp
  have u: "unat (72 + 32 * 2 + of_nat (length msg) * 2 :: 64 word) = 2 * (68 + length msg)"
  proof -
    have "(72 + 32 * 2 + of_nat (length msg) * 2 :: 64 word) = of_nat (2 * (68 + length msg))" by simp
    then show ?thesis using assms(6) by (simp only: unat_of_nat) simp
  qed
  have s1: "goSlice (hexEncode ?bs) 8 72 = Some (hexEncode off)"
    using slice_hexEncode [of 8 4 72 36 ?bs] assms lenbs by simp
  have s2: "goSlice (hexEncode ?bs) 72 (72 + 32 * 2) = Some (hexEncode len)"
    using slice_hexEncode [of 72 36 "72 + 32 * 2" 68 ?bs] assms lenbs by simp
  have s3: "goSlice (hexEncode ?bs) (72 + 32 * 2) (72 + 32 * 2 + of_nat (length msg) * 2) = Some (hexEncode msg)"
  proof -
    have "drop 68 (take (68 + length msg) ?bs) = msg" using assms by simp
    then show ?thesis using slice_hexEncode [OF _ u, of "72 + 32 * 2" 68 ?bs] assms by simp
  qed
  have p1: "ParseUint16 (hexEncode off) = Some 32"
    using assms(2,3) hexNumber_hexEncode [of off 0] by (cases off) (auto simp: ParseUint16_def)
  have p2: "ParseUint16 (hexEncode len) = Some (of_nat (length msg))"
    using assms(4-6) hexNumber_hexEncode [of len 0] by (cases len) (auto simp: ParseUint16_def)
  have sig: "take 8 (hexEncode ?bs) = hexEncode sel"
    using take_drop_hexEncode [of 4 ?bs] assms(1) by simp
  have trim: "TrimPrefix (''0x'' @ hexEncode ?bs) ''0x'' = hexEncode ?bs" by (rule TrimPrefix_append)
  have pre: "HasPrefix (''0x'' @ hexEncode ?bs) ''0x''" by (simp add: HasPrefix_def)
  show ?thesis
    unfolding newSolidityError_def Let_def trim using lenbs pre
    by (simp only: hexDecode_hexEncode s1 s2 s3 p1 p2 sig Option.bind.simps option.case prod.case) simp
qed

end
