(* ===== verification/Confirmation.thy ===== *)
theory Confirmation
  imports Dag_Node
begin

text \<open>
  The confirmation counter, \<^verbatim>\<open>src/dag/confirmation.go\<close>: which vertices of the DAG are tips, and which have
  been approved often enough to go into the next pin.

  The three fields of the struct are a record; the set library the source uses is a HOL set, and the
  order in which it or a Go map is visited is an argument. Every method holds the counter's lock from
  its first to its last statement, so each is one step. The relation \<open>counter_trace\<close> collects
  the sequences of calls from the empty counter on.
\<close>

section \<open>The counter\<close>

record ConfirmationCounter =
  cc_tips :: "uuid \<rightharpoonup> uuid list"
  cc_cache :: "uuid \<rightharpoonup> addr"
  cc_confirmed :: "uuid set"

definition newConfirmationCounter :: ConfirmationCounter where
  "newConfirmationCounter = \<lparr>cc_tips = Map.empty, cc_cache = Map.empty, cc_confirmed = {}\<rparr>"

definition isTip :: "ConfirmationCounter \<Rightarrow> uuid \<Rightarrow> bool" where
  "isTip c x = (cc_tips c x \<noteq> None)"

definition getTips :: "uuid visit_order \<Rightarrow> ConfirmationCounter \<Rightarrow> addr list" where
  "getTips ord c = List.map_filter (cc_cache c) (ord (dom (cc_tips c)))"

definition approve_one :: "uuid \<Rightarrow> uuid \<Rightarrow> ConfirmationCounter \<Rightarrow> ConfirmationCounter" where
  "approve_one x v c =
     (let l = (case cc_tips c v of None \<Rightarrow> [] | Some l \<Rightarrow> l) @ [x];
          c1 = c\<lparr>cc_tips := (cc_tips c)(v \<mapsto> l)\<rparr> in
      if 2 < length l
      then c1\<lparr>cc_confirmed := insert v (cc_confirmed c1), cc_tips := (cc_tips c1)(v := None)\<rparr>
      else c1)"

definition counter_add :: "heap \<Rightarrow> addr \<Rightarrow> ConfirmationCounter \<Rightarrow> ConfirmationCounter" where
  "counter_add h vertex c =
     (let x = node_uuid h vertex in
      fold (\<lambda>v. approve_one x (node_uuid h v)) (n_targets (h vertex))
        (c\<lparr>cc_cache := (cc_cache c)(x \<mapsto> vertex), cc_tips := (cc_tips c)(x \<mapsto> [x])\<rparr>))"

text \<open>A confirmed vertex that was never cached is handed out as nil, here \<open>None\<close>.\<close>

definition counter_pop :: "uuid visit_order \<Rightarrow> ConfirmationCounter \<Rightarrow> addr option list \<times> ConfirmationCounter" where
  "counter_pop ord c = (map (cc_cache c) (ord (cc_confirmed c)), c\<lparr>cc_confirmed := {}\<rparr>)"

definition counter_tip :: "uuid visit_order \<Rightarrow> ConfirmationCounter \<Rightarrow> addr option list" where
  "counter_tip ord c = map (cc_cache c) (ord (dom (cc_tips c)))"

section \<open>Histories\<close>

text \<open>
  An event is a vertex added with the identifiers of its targets, or a batch of confirmed vertices
  taken by \<^verbatim>\<open>pop\<close>.
\<close>

datatype counter_event = Added uuid "uuid list" | Popped "uuid set"

inductive counter_trace :: "counter_event list \<Rightarrow> ConfirmationCounter \<Rightarrow> bool" where
  trace_new: "counter_trace [] newConfirmationCounter"
| trace_add: "counter_trace tr c \<Longrightarrow>
    counter_trace (tr @ [Added (node_uuid h v) (map (node_uuid h) (n_targets (h v)))]) (counter_add h v c)"
| trace_pop: "counter_trace tr c \<Longrightarrow> range_order ord \<Longrightarrow> counter_pop ord c = (vs, c') \<Longrightarrow>
    counter_trace (tr @ [Popped (cc_confirmed c)]) c'"

fun event_approvals :: "uuid \<Rightarrow> counter_event \<Rightarrow> nat" where
  "event_approvals x (Added _ ts) = count_list ts x"
| "event_approvals x (Popped _) = 0"

definition approvals :: "uuid \<Rightarrow> counter_event list \<Rightarrow> nat" where
  "approvals x tr = sum_list (map (event_approvals x) tr)"

text \<open>A vertex is introduced once, and before any approval of it.\<close>

fun adds :: "uuid \<Rightarrow> counter_event \<Rightarrow> bool" where
  "adds x (Added y _) = (x = y)"
| "adds x (Popped _) = False"

definition introduced :: "uuid \<Rightarrow> counter_event list \<Rightarrow> bool" where
  "introduced x tr \<longleftrightarrow>
     (\<exists>pre ts post. tr = pre @ Added x ts # post \<and> approvals x pre = 0 \<and>
        \<not> list_ex (adds x) pre \<and> \<not> list_ex (adds x) post)"

definition popped :: "uuid \<Rightarrow> counter_event list \<Rightarrow> bool" where
  "popped x tr \<longleftrightarrow> (\<exists>b. Popped b \<in> set tr \<and> x \<in> b)"

section \<open>Lemmas\<close>

text \<open>The number of approvals a vertex currently has on record: 0 when it is not a tip.\<close>

definition recorded :: "ConfirmationCounter \<Rightarrow> uuid \<Rightarrow> nat" where
  "recorded c x = (case cc_tips c x of None \<Rightarrow> 0 | Some l \<Rightarrow> length l)"

definition counter_ok :: "ConfirmationCounter \<Rightarrow> bool" where
  "counter_ok c \<longleftrightarrow> (\<forall>x l. cc_tips c x = Some l \<longrightarrow> l \<noteq> [] \<and> length l \<le> 2)"

lemma counter_ok_recorded: "counter_ok c \<Longrightarrow> recorded c x \<le> 2"
  by (auto simp: counter_ok_def recorded_def split: option.split)

lemma isTip_recorded: "counter_ok c \<Longrightarrow> isTip c x \<longleftrightarrow> recorded c x \<noteq> 0"
  by (auto simp: counter_ok_def recorded_def isTip_def split: option.split)

lemma approve_one_ok: "counter_ok c \<Longrightarrow> counter_ok (approve_one x v c)"
  by (auto simp: counter_ok_def approve_one_def Let_def split: if_splits option.splits)

lemma third_approval: "Suc 0 < n \<Longrightarrow> n \<le> 2 \<Longrightarrow> Suc n mod 3 = 0" for n :: nat
  by (cases "n = 2") auto

lemma approve_one_recorded:
  assumes "counter_ok c"
  shows "recorded (approve_one x v c) y = (if y = v then (recorded c y + 1) mod 3 else recorded c y)"
proof -
  have "recorded c v \<le> 2" by (rule counter_ok_recorded [OF assms])
  then show ?thesis
    by (auto simp: recorded_def approve_one_def Let_def third_approval split: option.split)
qed

lemma approve_one_confirmed:
  "cc_confirmed (approve_one x v c) =
     (if 2 \<le> recorded c v then insert v (cc_confirmed c) else cc_confirmed c)"
  by (auto simp: approve_one_def recorded_def Let_def split: option.split)

lemma approve_one_cache [simp]: "cc_cache (approve_one x v c) = cc_cache c"
  by (simp add: approve_one_def Let_def)
lemma fold_approve_all:
  "counter_ok c \<Longrightarrow>
     counter_ok (fold (approve_one x) ts c) \<and>
     recorded (fold (approve_one x) ts c) y = (recorded c y + count_list ts y) mod 3 \<and>
     (y \<in> cc_confirmed (fold (approve_one x) ts c) \<longleftrightarrow>
        y \<in> cc_confirmed c \<or> 3 \<le> recorded c y + count_list ts y)"
proof (induction ts arbitrary: c)
  case Nil
  then show ?case using counter_ok_recorded [OF Nil, of y] by simp
next
  case (Cons t ts)
  have le: "recorded c y \<le> 2" "recorded c t \<le> 2" by (rule counter_ok_recorded [OF Cons.prems])+
  have "recorded c y = 2 \<or> recorded c y < 2" using le by auto
  then show ?case
    using Cons.IH [OF approve_one_ok [OF Cons.prems, of x t]] approve_one_recorded [OF Cons.prems, of x t y] le
    by (auto simp: approve_one_confirmed mod_simps)
qed

lemmas fold_approve =
  fold_approve_all [THEN conjunct1]
  fold_approve_all [THEN conjunct2, THEN conjunct1]
  fold_approve_all [THEN conjunct2, THEN conjunct2]

lemma counter_add_fold:
  "counter_add h v c =
     fold (approve_one (node_uuid h v)) (map (node_uuid h) (n_targets (h v)))
       (c\<lparr>cc_cache := (cc_cache c)(node_uuid h v \<mapsto> v), cc_tips := (cc_tips c)(node_uuid h v \<mapsto> [node_uuid h v])\<rparr>)"
  by (simp add: counter_add_def Let_def fold_map o_def)

lemma counter_enter:
  assumes "counter_ok c"
  shows "counter_ok (c\<lparr>cc_cache := m, cc_tips := (cc_tips c)(x \<mapsto> [x])\<rparr>)"
    and "recorded (c\<lparr>cc_cache := m, cc_tips := (cc_tips c)(x \<mapsto> [x])\<rparr>) y = (if y = x then 1 else recorded c y)"
  using assms by (auto simp: counter_ok_def recorded_def)

lemma counter_add_facts:
  assumes "counter_ok c"
  shows "counter_ok (counter_add h v c)"
    and "recorded (counter_add h v c) y =
           ((if y = node_uuid h v then 1 else recorded c y) + count_list (map (node_uuid h) (n_targets (h v))) y) mod 3"
    and "y \<in> cc_confirmed (counter_add h v c) \<longleftrightarrow>
           y \<in> cc_confirmed c \<or>
           3 \<le> (if y = node_uuid h v then 1 else recorded c y) + count_list (map (node_uuid h) (n_targets (h v))) y"
  unfolding counter_add_fold
  using fold_approve [OF counter_enter(1) [OF assms]] counter_enter(2) [OF assms]
  by simp_all

lemma fold_approve_cache [simp]: "cc_cache (fold (approve_one x) ts c) = cc_cache c"
  by (induction ts arbitrary: c) auto

lemma counter_add_cache [simp]: "cc_cache (counter_add h v c) = (cc_cache c)(node_uuid h v \<mapsto> v)"
  by (simp add: counter_add_fold)

lemma approvals_snoc [simp]: "approvals x (tr @ [e]) = approvals x tr + event_approvals x e"
  by (simp add: approvals_def)

lemma approvals_Nil [simp]: "approvals x [] = 0"
  by (simp add: approvals_def)

lemma popped_snoc [simp]: "popped x (tr @ [e]) \<longleftrightarrow> popped x tr \<or> (\<exists>b. e = Popped b \<and> x \<in> b)"
  by (auto simp: popped_def)

lemma popped_Nil [simp]: "\<not> popped x []"
  by (simp add: popped_def)

lemma introduced_snoc:
  assumes "introduced x (tr @ [e])"
  shows "introduced x tr \<and> \<not> adds x e \<or> approvals x tr = 0 \<and> (\<exists>ts. e = Added x ts)"
proof -
  from assms obtain pre ts post where
    tr: "tr @ [e] = pre @ Added x ts # post" and pre: "approvals x pre = 0" "\<not> list_ex (adds x) pre"
    and post: "\<not> list_ex (adds x) post"
    by (auto simp: introduced_def)
  show ?thesis
  proof (cases post rule: rev_cases)
    case Nil
    then show ?thesis using tr pre by simp
  next
    case (snoc post' e')
    with tr have "tr = pre @ Added x ts # post'" "e' = e" by simp_all
    then show ?thesis using pre post snoc by (auto simp: introduced_def)
  qed
qed

lemma counter_trace_ok: "counter_trace tr c \<Longrightarrow> counter_ok c"
proof (induction rule: counter_trace.induct)
  case trace_new show ?case by (simp add: counter_ok_def newConfirmationCounter_def)
next
  case (trace_add tr c h v) then show ?case by (simp add: counter_add_facts)
next
  case (trace_pop tr c ord vs c')
  then have "cc_tips c' = cc_tips c" by (auto simp: counter_pop_def)
  then show ?case using trace_pop.IH by (simp add: counter_ok_def)
qed

lemma counter_trace_bound:
  assumes "counter_trace tr c"
  shows "recorded c x \<le> 1 + approvals x tr"
    and "x \<in> cc_confirmed c \<or> popped x tr \<Longrightarrow> 2 \<le> approvals x tr"
  using assms
proof (induction rule: counter_trace.induct)
  case trace_new
  { case 1 show ?case by (simp add: recorded_def newConfirmationCounter_def) next
    case 2 then show ?case by (simp add: newConfirmationCounter_def) }
next
  case (trace_add tr c h v)
  note f = counter_add_facts [OF counter_trace_ok [OF trace_add.hyps], where h = h and v = v]
  { case 1 show ?case
      using trace_add.IH(1) mod_less_eq_dividend order_trans by (fastforce simp: f(2)) next
    case 2 then show ?case
      using trace_add.IH by (auto simp: f(3) split: if_splits) }
next
  case (trace_pop tr c ord vs c')
  { case 1 show ?case using trace_pop by (auto simp: counter_pop_def recorded_def) next
    case 2 then show ?case using trace_pop by (auto simp: counter_pop_def) }
qed

lemma counter_trace_introduced:
  assumes "counter_trace tr c" and "introduced x tr"
  shows "recorded c x = (1 + approvals x tr) mod 3"
    and "2 \<le> approvals x tr \<Longrightarrow> x \<in> cc_confirmed c \<or> popped x tr"
  using assms
proof (induction rule: counter_trace.induct)
  case trace_new
  { case 1 then show ?case by (simp add: introduced_def) next
    case 2 then show ?case by (simp add: introduced_def) }
next
  case (trace_add tr c h v)
  note f = counter_add_facts [OF counter_trace_ok [OF trace_add.hyps], where h = h and v = v]
  { case 1 then show ?case
      using introduced_snoc [OF 1] trace_add.IH(1) by (auto simp: f(2) mod_simps) next
    case 2
    show ?case
    proof (cases "approvals x tr < 2")
      case True
      then have "(1 + approvals x tr) mod 3 = 1 + approvals x tr" by simp
      with 2 show ?thesis using introduced_snoc [OF 2(2)] trace_add.IH(1) by (auto simp: f(3))
    next
      case False
      with 2 show ?thesis using introduced_snoc [OF 2(2)] trace_add.IH(2) by (auto simp: f(3))
    qed }
next
  case (trace_pop tr c ord vs c')
  { case 1 then show ?case
      using introduced_snoc [OF 1] trace_pop by (auto simp: counter_pop_def recorded_def) next
    case 2 then show ?case
      using introduced_snoc [OF 2(2)] trace_pop by (auto simp: counter_pop_def) }
qed

section \<open>Properties\<close>


text \<open>A small DAG: vertices 2, 3, ... all approve vertex 1.\<close>

definition demo_star :: heap where
  "demo_star a = (zeroNode demo_flops (TxV1 demo_tx))
     \<lparr>n_id := \<lparr>nid_id = of_nat a, nid_address = [], nid_idMajor = of_nat a, nid_idMinor = 0\<rparr>,
      n_targets := (if a = 1 then [] else [1])\<rparr>"

definition demo_counter :: "addr list \<Rightarrow> ConfirmationCounter" where
  "demo_counter vs = fold (counter_add demo_star) vs newConfirmationCounter"

definition demo_history :: "addr list \<Rightarrow> counter_event list" where
  "demo_history = map (\<lambda>a. Added (of_nat a) (if a = 1 then [] else [1]))"

lemma demo_star_node [simp]:
  "node_uuid demo_star a = of_nat a" "n_targets (demo_star a) = (if a = 1 then [] else [1])"
  by (simp_all add: demo_star_def)

lemma demo_counter_trace: "counter_trace (demo_history vs) (demo_counter vs)"
proof (induction vs rule: rev_induct)
  case Nil show ?case by (simp add: demo_history_def demo_counter_def trace_new)
next
  case (snoc a vs)
  then show ?case
    using trace_add [OF snoc.IH, of demo_star a]
    by (cases "a = 1") (simp_all add: demo_history_def demo_counter_def)
qed

lemma demo_popped:
  assumes "counter_trace tr c"
  shows "counter_trace (tr @ [Popped (cc_confirmed c)]) (c\<lparr>cc_confirmed := {}\<rparr>)"
  by (rule trace_pop [OF assms range_order_sorted]) (simp add: counter_pop_def)

lemma demo_introduced:
  assumes "\<not> list_ex (adds x) post"
  shows "introduced x (Added x [] # post)"
  unfolding introduced_def using assms by (intro exI [of _ "[]"] exI [of _ post]) auto


text \<open>
  C26. The counter works modulo three: a vertex is offered as a tip exactly when its number of
  approvals is not 2 modulo 3, and an approval confirms it exactly when it makes that number 2 modulo
  3. So a vertex that was confirmed and pinned becomes a tip again at its third approval, and is
  confirmed a second time at its fifth.
\<close>
theorem confirmation_cycle:
  assumes "counter_trace tr c" and "introduced x tr"
  shows "(isTip c x \<longleftrightarrow> approvals x tr mod 3 \<noteq> 2) \<and>
         (node_uuid h v \<noteq> x \<and> count_list (map (node_uuid h) (n_targets (h v))) x = 1 \<and>
          x \<notin> cc_confirmed c \<longrightarrow>
          (x \<in> cc_confirmed (counter_add h v c) \<longleftrightarrow> approvals x tr mod 3 = 1))"
proof (intro conjI impI)
  have ok: "counter_ok c" by (rule counter_trace_ok [OF assms(1)])
  have r: "recorded c x = (1 + approvals x tr) mod 3"
    by (rule counter_trace_introduced(1) [OF assms])
  show "isTip c x \<longleftrightarrow> approvals x tr mod 3 \<noteq> 2"
    unfolding isTip_recorded [OF ok] r by presburger
  have "3 \<le> (1 + approvals x tr) mod 3 + 1 \<longleftrightarrow> approvals x tr mod 3 = 1" by presburger
  then show "x \<in> cc_confirmed (counter_add h v c) \<longleftrightarrow> approvals x tr mod 3 = 1"
    if "node_uuid h v \<noteq> x \<and> count_list (map (node_uuid h) (n_targets (h v))) x = 1 \<and> x \<notin> cc_confirmed c"
    using that unfolding counter_add_facts(3) [OF ok] r by (simp only: if_False if_not_P) auto
qed

theorem confirmation_cycle_witness:
  "let c = (demo_counter [1, 2, 3, 4, 5])\<lparr>cc_confirmed := {}\<rparr> in
     isTip c (1::uuid) \<and> (1::uuid) \<in> cc_confirmed (counter_add demo_star 6 c)"
proof -
  let ?h = "demo_history [1, 2, 3, 4, 5]"
  let ?tr = "?h @ [Popped (cc_confirmed (demo_counter [1, 2, 3, 4, 5]))]"
  have t: "counter_trace ?tr ((demo_counter [1, 2, 3, 4, 5])\<lparr>cc_confirmed := {}\<rparr>)"
    by (rule demo_popped [OF demo_counter_trace])
  have i: "introduced 1 ?tr"
    unfolding demo_history_def by (simp add: demo_introduced)
  show ?thesis
    using confirmation_cycle [OF t i, of demo_star 6]
    by (simp add: Let_def demo_history_def approvals_def)
qed

end
