(* ===== verification/Tip_Selection.thy ===== *)
theory Tip_Selection
  imports Confirmation "HOL-Library.Multiset"
begin

text \<open>
  Choosing the vertices a new vertex approves: \<^verbatim>\<open>src/dag/weights.go\<close>, the slice helpers of
  \<^verbatim>\<open>src/dag/utils.go\<close>, and \<^verbatim>\<open>isNodeTip\<close> and \<^verbatim>\<open>getApprovers\<close> of \<^verbatim>\<open>src/dag/dag.go\<close>.

  Random numbers come from the environment: the \<open>k\<close>-th draw is a permutation of the indices of a
  slice (\<^verbatim>\<open>rand.Shuffle\<close>), a number below a bound (\<^verbatim>\<open>rand.Intn\<close>, \<^verbatim>\<open>rand.Int31n\<close>) or a normally distributed float;
  the counter \<open>k\<close> is threaded through the functions. Mean and standard deviation belong to a statistics
  package and are fields of the environment. \<open>None\<close> as outermost result is a panic, which
  here only \<^verbatim>\<open>rand.Intn(0)\<close> can raise.
\<close>

section \<open>Environment\<close>

record sel_env =
  te_flops :: flops
  te_perm :: "nat \<Rightarrow> nat \<Rightarrow> nat list"
  te_intn :: "nat \<Rightarrow> nat \<Rightarrow> nat"
  te_norm :: "nat \<Rightarrow> float64"
  te_mean :: "float64 list \<Rightarrow> float64"
  te_stdev :: "float64 list \<Rightarrow> float64"
  te_Algorithm :: string
  te_Alpha :: float64
  te_Approvetx :: "16 word"
  te_Cummstep :: float64

definition rand_ok :: "sel_env \<Rightarrow> bool" where
  "rand_ok E \<longleftrightarrow> (\<forall>k n. mset (te_perm E k n) = mset [0..<n]) \<and> (\<forall>k n. 0 < n \<longrightarrow> te_intn E k n < n)"

definition DAG_ALGO_MCMCP :: string where "DAG_ALGO_MCMCP = ''mcmc+''"
definition DAG_ALGO_MCMCPP :: string where "DAG_ALGO_MCMCPP = ''mcmc++''"
definition DAG_ALGO_RANDOM :: string where "DAG_ALGO_RANDOM = ''random''"

definition ToLower :: "string \<Rightarrow> string" where
  "ToLower = map (\<lambda>c. let n = of_char c :: nat in if 65 \<le> n \<and> n \<le> 90 then char_of (n + 32) else c)"

section \<open>Slices\<close>

text \<open>
  \<^verbatim>\<open>sort.SliceStable\<close> with an order on the elements: insertion from the right, which moves an element left
  while it is less than its neighbour. The accumulator is the sorted prefix, last element first.
\<close>

fun insertLeft :: "('a \<Rightarrow> 'a \<Rightarrow> bool) \<Rightarrow> 'a \<Rightarrow> 'a list \<Rightarrow> 'a list" where
  "insertLeft lt x [] = [x]"
| "insertLeft lt x (y # ys) = (if lt x y then y # insertLeft lt x ys else x # y # ys)"

definition SliceStable :: "('a \<Rightarrow> 'a \<Rightarrow> bool) \<Rightarrow> 'a list \<Rightarrow> 'a list" where
  "SliceStable lt xs = List.rev (fold (insertLeft lt) xs [])"

definition sort_nodes :: "flops \<Rightarrow> heap \<Rightarrow> addr list \<Rightarrow> addr list" where
  "sort_nodes F h = SliceStable (\<lambda>a b. f_less F (n_txWeight (h a)) (n_txWeight (h b)))"

definition shuffle_nodes :: "nat list \<Rightarrow> 'a list \<Rightarrow> 'a list" where
  "shuffle_nodes perm xs = map (nth xs) perm"

text \<open>
  \<^verbatim>\<open>ReverseSlice\<close> sorts with an order on positions in which every later position is less than every
  earlier one, so each comparison the insertion makes succeeds.
\<close>

definition ReverseSlice :: "'a list \<Rightarrow> 'a list" where
  "ReverseSlice = SliceStable (\<lambda>_ _. True)"

section \<open>Weights\<close>

definition f_hundredth :: "flops \<Rightarrow> float64" where
  "f_hundredth F = f_div F (f_lit F 1) (f_lit F 100)"

definition f_half :: "flops \<Rightarrow> float64" where
  "f_half F = f_div F (f_lit F 1) (f_lit F 2)"

definition calculateWeightsMCMC_P :: "sel_env \<Rightarrow> heap \<Rightarrow> addr list \<Rightarrow> float64 list" where
  "calculateWeightsMCMC_P E h nodes =
     (let F = te_flops E; alpha = te_Alpha E;
          cumWeights = map (\<lambda>node. n_cumWeight (h node)) nodes;
          total = f_add F (foldl (\<lambda>prev cur. f_add F prev (f_exp F (f_mul F (f_neg F alpha) cur)))
                             (f_lit F 0) cumWeights) (f_hundredth F) in
      map (\<lambda>w. f_div F (f_exp F (f_mul F (f_neg F alpha) w)) total) cumWeights)"

definition calculateWeightsRandom :: "sel_env \<Rightarrow> heap \<Rightarrow> addr list \<Rightarrow> float64 list" where
  "calculateWeightsRandom E h nodes =
     (let F = te_flops E;
          sumWeights = foldl (\<lambda>prev cur. f_add F prev (n_txWeight (h cur))) (f_lit F 0) nodes in
      map (\<lambda>node. f_div F (n_txWeight (h node)) sumWeights) nodes)"

definition calculateWeightsMCMC_PP :: "sel_env \<Rightarrow> heap \<Rightarrow> addr list \<Rightarrow> float64 list" where
  "calculateWeightsMCMC_PP E h nodes =
     (let F = te_flops E; alpha = te_Alpha E;
          weights = calculateWeightsRandom E h nodes;
          total = f_add F (foldl (\<lambda>prev cur. f_add F prev (f_exp F (f_mul F (f_neg F alpha) cur)))
                             (f_lit F 0) weights) (f_hundredth F);
          probs = map (\<lambda>w. f_div F (f_exp F (f_mul F (f_neg F alpha) w)) total) weights;
          sumProbs = foldl (f_add F) (f_lit F 0) probs in
      map (\<lambda>p. f_div F p sumProbs) probs)"

definition calculateTxWeights :: "sel_env \<Rightarrow> heap \<Rightarrow> addr list \<Rightarrow> float64 list" where
  "calculateTxWeights E h nodes =
     (let algo = ToLower (te_Algorithm E) in
      if algo = DAG_ALGO_MCMCP then calculateWeightsMCMC_P E h nodes
      else if algo = DAG_ALGO_MCMCPP then calculateWeightsMCMC_PP E h nodes
      else if algo = DAG_ALGO_RANDOM then calculateWeightsRandom E h nodes
      else [])"

text \<open>\<^verbatim>\<open>updateCumWeights\<close> runs over the slice from its end and stores through the pointers.\<close>

definition updateCumWeight_one :: "sel_env \<Rightarrow> addr \<Rightarrow> heap \<Rightarrow> heap" where
  "updateCumWeight_one E a h =
     (let F = te_flops E in
      h(a := (h a)\<lparr>n_cumWeight :=
          f_add F (foldl (\<lambda>prev cur. f_add F prev (n_cumWeight (h cur))) (f_lit F 0) (n_sources (h a)))
            (te_Cummstep E)\<rparr>))"

definition updateCumWeights :: "sel_env \<Rightarrow> addr list \<Rightarrow> heap \<Rightarrow> heap" where
  "updateCumWeights E nodes = fold (updateCumWeight_one E) (List.rev nodes)"

section \<open>Selecting an approver\<close>

text \<open>
  Each selection reorders the slice it is given in place, so it returns the slice along with
  the choice and the draw counter.
\<close>

fun interval_loop :: "flops \<Rightarrow> float64 \<Rightarrow> float64 \<Rightarrow> float64 list \<Rightarrow> addr list \<Rightarrow> addr option" where
  "interval_loop F r x (v # weights) (a # approvers) =
     (if f_le F x r \<and> f_le F r v then Some a else interval_loop F r (f_add F x v) weights approvers)"
| "interval_loop F r x _ _ = None"

definition pick_interval ::
  "sel_env \<Rightarrow> float64 \<Rightarrow> float64 list \<Rightarrow> addr list \<Rightarrow> nat \<Rightarrow> (addr option \<times> addr list \<times> nat) option" where
  "pick_interval E r weights approvers k =
     (case interval_loop (te_flops E) r (f_lit (te_flops E) 0) weights approvers of
        Some a \<Rightarrow> Some (Some a, approvers, k)
      | None \<Rightarrow>
          if approvers = [] then None
          else Some (Some (approvers ! te_intn E k (length approvers)), approvers, Suc k))"

definition weightedSelectRandom ::
  "sel_env \<Rightarrow> heap \<Rightarrow> addr list \<Rightarrow> nat \<Rightarrow> (addr option \<times> addr list \<times> nat) option" where
  "weightedSelectRandom E h approvers k =
     (let F = te_flops E;
          sorted = sort_nodes F h approvers;
          r = f_add F (f_div F (te_norm E k) (f_lit F 12)) (f_half F) in
      pick_interval E r (calculateTxWeights E h sorted) sorted (Suc k))"

definition weightedSelectMCMCPP ::
  "sel_env \<Rightarrow> heap \<Rightarrow> addr list \<Rightarrow> nat \<Rightarrow> (addr option \<times> addr list \<times> nat) option" where
  "weightedSelectMCMCPP E h approvers k =
     (let F = te_flops E;
          sorted = sort_nodes F h approvers;
          weights = calculateTxWeights E h sorted;
          rv = f_add F (f_mul F (te_norm E k) (te_stdev E weights)) (te_mean E weights) in
      pick_interval E rv weights sorted (Suc k))"

fun below_loop :: "flops \<Rightarrow> float64 \<Rightarrow> float64 \<Rightarrow> addr \<Rightarrow> float64 list \<Rightarrow> addr list \<Rightarrow> addr option" where
  "below_loop F r cumSum prev (w # weights) (a # approvers) =
     (if f_less F r cumSum then Some prev else below_loop F r w a weights approvers)"
| "below_loop F r cumSum prev _ _ = None"

definition weightedSelectMCMCP ::
  "sel_env \<Rightarrow> heap \<Rightarrow> addr list \<Rightarrow> nat \<Rightarrow> (addr option \<times> addr list \<times> nat) option" where
  "weightedSelectMCMCP E h approvers k =
     (let F = te_flops E;
          shuffled = shuffle_nodes (te_perm E k (length approvers)) approvers;
          weights = calculateTxWeights E h shuffled;
          r = f_add F (f_mul F (te_norm E (Suc k)) (te_stdev E weights)) (te_mean E weights);
          found = (case (weights, shuffled) of
                     (w # ws, a # as) \<Rightarrow> below_loop F r w a ws as
                   | _ \<Rightarrow> None) in
      Some (case found of
              Some a \<Rightarrow> (Some a, shuffled, k + 2)
            | None \<Rightarrow> (last_opt shuffled, shuffled, k + 2)))"

definition weightedSelect ::
  "sel_env \<Rightarrow> heap \<Rightarrow> addr list \<Rightarrow> nat \<Rightarrow> (addr option \<times> addr list \<times> nat) option" where
  "weightedSelect E h approvers k =
     (if te_Algorithm E = DAG_ALGO_MCMCP then weightedSelectMCMCP E h approvers k
      else if te_Algorithm E = DAG_ALGO_MCMCPP then weightedSelectMCMCPP E h approvers k
      else if te_Algorithm E = DAG_ALGO_RANDOM then weightedSelectRandom E h approvers k
      else Some (None, approvers, k))"

section \<open>The walk\<close>

definition isNodeTip :: "ConfirmationCounter \<Rightarrow> heap \<Rightarrow> Link list \<Rightarrow> addr \<Rightarrow> bool" where
  "isNodeTip c h links node = (if links = [] then True else isTip c (node_uuid h node))"

definition getApprovers :: "heap \<Rightarrow> Link list \<Rightarrow> addr \<Rightarrow> addr list" where
  "getApprovers h links node =
     (if n_sources (h node) \<noteq> [] then n_sources (h node)
      else map link_source (filter (\<lambda>link. node_uuid h (link_target link) = node_uuid h node) links))"

text \<open>
  The loop of \<^verbatim>\<open>weightedRandomWalk\<close>. When the approvers are the node's own slice of sources, the
  selection reorders that slice. At the head of the loop \<^verbatim>\<open>count\<close> is at least 1 unless there are
  no links, and then the loop is not entered.
\<close>

function walk_loop ::
  "sel_env \<Rightarrow> ConfirmationCounter \<Rightarrow> Link list \<Rightarrow> Link list \<Rightarrow> heap \<Rightarrow> addr \<Rightarrow> nat \<Rightarrow> int \<Rightarrow> nat \<Rightarrow>
     (addr option \<times> heap \<times> nat) option" where
  "walk_loop E c linkSelection links h particle cnt approvetx k =
     (if isNodeTip c h links particle then Some (Some particle, h, k)
      else
        case weightedSelect E h (getApprovers h linkSelection particle) k of
          None \<Rightarrow> None
        | Some (rc, approvers, k') \<Rightarrow>
            let h' = (if n_sources (h particle) \<noteq> [] then h(particle := (h particle)\<lparr>n_sources := approvers\<rparr>) else h);
                particle' = (case rc of None \<Rightarrow> particle | Some p \<Rightarrow> p);
                wrap = (cnt - 1 = 0);
                cnt' = (if wrap then length links else cnt - 1);
                approvetx' = (if wrap then approvetx + 1 else approvetx) in
            if 3 < approvetx' then Some (None, h', k')
            else walk_loop E c linkSelection links h' particle' cnt' approvetx' k')"
  by pat_completeness auto
termination
  by (relation "measures [\<lambda>(_, _, _, _, _, _, _, approvetx, _). nat (4 - approvetx),
                          \<lambda>(_, _, _, _, _, _, cnt, _, _). cnt]")
     (auto split: if_splits)

declare walk_loop.simps [simp del]

definition weightedRandomWalk ::
  "sel_env \<Rightarrow> ConfirmationCounter \<Rightarrow> Link list \<Rightarrow> Link list \<Rightarrow> heap \<Rightarrow> addr \<Rightarrow> nat \<Rightarrow>
     (addr option \<times> heap \<times> nat) option" where
  "weightedRandomWalk E c linkSelection links h start k =
     walk_loop E c linkSelection links h start (length links) (uint (te_Approvetx E)) k"

section \<open>Two tips\<close>

text \<open>The loop that removes the first matching link until none is left.\<close>

function drop_links :: "(Link \<Rightarrow> bool) \<Rightarrow> Link list \<Rightarrow> Link list" where
  "drop_links p links =
     (case goFind p links of
        Some (_, i) \<Rightarrow> drop_links p (take i links @ drop (Suc i) links)
      | None \<Rightarrow> links)"
  by pat_completeness auto
termination
  by (relation "measure (\<lambda>(_, links). length links)") (auto dest: goFind_SomeD(1))

declare drop_links.simps [simp del]

definition without_tip ::
  "(addr \<Rightarrow> bool) \<Rightarrow> (Link \<Rightarrow> bool) \<Rightarrow> addr list \<Rightarrow> Link list \<Rightarrow> addr list \<times> Link list" where
  "without_tip isIt fromIt tipSelection linkSelection =
     (case goFind isIt tipSelection of
        Some (_, i) \<Rightarrow> take i tipSelection @ drop (Suc i) tipSelection
      | None \<Rightarrow> tipSelection, drop_links fromIt linkSelection)"

definition weightedMcmc ::
  "sel_env \<Rightarrow> ConfirmationCounter \<Rightarrow> heap \<Rightarrow> addr list \<Rightarrow> Link list \<Rightarrow> nat \<Rightarrow>
     (addr option list \<times> heap \<times> nat) option" where
  "weightedMcmc E c h nodes links k =
     (if nodes = [] then Some ([], h, k)
      else if length nodes = 2 then Some (map Some nodes, h, k)
      else
        case weightedRandomWalk E c links links h (nodes ! te_intn E k (length nodes)) (Suc k) of
          None \<Rightarrow> None
        | Some (tip1, h1, k1) \<Rightarrow>
            (let (tipSelection, linkSelection) =
               (case tip1 of
                  Some t \<Rightarrow>
                    if 1 < length nodes
                    then without_tip (\<lambda>node. node_uuid h1 t = node_uuid h1 node)
                           (\<lambda>link. node_uuid h1 (link_source link) = node_uuid h1 t) nodes links
                    else (nodes, links)
                | None \<Rightarrow> (nodes, links)) in
             case weightedRandomWalk E c linkSelection links h1
                    (tipSelection ! te_intn E k1 (length tipSelection)) (Suc k1) of
               None \<Rightarrow> None
             | Some (tip2, h2, k2) \<Rightarrow>
                 Some (case (tip1, tip2) of
                         (None, None) \<Rightarrow> []
                       | (_, None) \<Rightarrow> [tip1]
                       | _ \<Rightarrow> [tip1, tip2], h2, k2)))"

definition weightedMcmcPlusPlus ::
  "sel_env \<Rightarrow> ConfirmationCounter \<Rightarrow> heap \<Rightarrow> addr list \<Rightarrow> Link list \<Rightarrow> nat \<Rightarrow>
     (addr option list \<times> heap \<times> nat) option" where
  "weightedMcmcPlusPlus E c h nodes links k =
     (if nodes = [] then Some ([], h, k)
      else if length nodes = 2 then Some (map Some nodes, h, k)
      else
        case weightedRandomWalk E c links links h (nodes ! 0) k of
          None \<Rightarrow> None
        | Some (tip1, h1, k1) \<Rightarrow>
            (let (tipSelection, linkSelection) =
               (case tip1 of
                  Some t \<Rightarrow>
                    if 1 < length nodes
                    then without_tip (\<lambda>node. Node_Equal h1 (Some t) (Some node))
                           (\<lambda>link. Node_Equal h1 (Some (link_source link)) (Some t)) nodes links
                    else (nodes, links)
                | None \<Rightarrow> (nodes, links)) in
             case weightedRandomWalk E c linkSelection links h1 (tipSelection ! 0) k1 of
               None \<Rightarrow> None
             | Some (tip2, h2, k2) \<Rightarrow>
                 Some (if Node_Equal h2 tip1 tip2 then [tip1] else [tip1, tip2], h2, k2)))"

section \<open>Lemmas\<close>

lemma insertLeft_mset [simp]: "mset (insertLeft lt x xs) = add_mset x (mset xs)"
  by (induction xs) auto

lemma SliceStable_mset [simp]: "mset (SliceStable lt xs) = mset xs"
proof -
  have "mset (fold (insertLeft lt) xs ys) = mset xs + mset ys" for ys
    by (induction xs arbitrary: ys) auto
  then show ?thesis by (simp add: SliceStable_def)
qed

lemma ReverseSlice_rev [simp]: "ReverseSlice xs = List.rev xs"
proof -
  have i: "insertLeft (\<lambda>_ _. True) x ys = ys @ [x]" for x :: 'a and ys by (induction ys) auto
  have "fold (insertLeft (\<lambda>_ _. True)) xs ys = ys @ xs" for ys
    by (induction xs arbitrary: ys) (auto simp: i)
  then show ?thesis by (simp add: ReverseSlice_def SliceStable_def)
qed

lemma shuffle_nodes_mset:
  assumes "mset perm = mset [0..<length xs]"
  shows "mset (shuffle_nodes perm xs) = mset xs"
proof -
  have "mset (shuffle_nodes perm xs) = image_mset (nth xs) (mset [0..<length xs])"
    by (simp only: shuffle_nodes_def mset_map assms)
  also have "\<dots> = mset (map (nth xs) [0..<length xs])" by (simp only: mset_map)
  finally show ?thesis by (simp only: map_nth)
qed

lemma drop_links_filter: "drop_links p links = filter (\<lambda>l. \<not> p l) links"
proof (induction p links rule: drop_links.induct)
  case (1 p links)
  show ?case
  proof (cases "goFind p links")
    case None
    then have "filter (\<lambda>l. \<not> p l) links = links" by (simp add: goFind_None_iff)
    with None show ?thesis by (simp add: drop_links.simps [of p links])
  next
    case (Some r)
    obtain x i where r: "r = (x, i)" by (cases r)
    note f = goFind_SomeD [OF Some [unfolded r]]
    have d: "drop_links p links = filter (\<lambda>l. \<not> p l) (take i links @ drop (Suc i) links)"
      using 1 [OF Some r [symmetric]] Some r by (simp add: drop_links.simps [of p links])
    have "links = take i links @ x # drop (Suc i) links"
      using id_take_nth_drop [OF f(1)] f(2) by simp
    then have "filter (\<lambda>l. \<not> p l) links = filter (\<lambda>l. \<not> p l) (take i links @ x # drop (Suc i) links)"
      by simp
    then show ?thesis using f(3) d by simp
  qed
qed

lemma goFind_distinct:
  assumes "distinct (map f xs)" and "i < length xs"
  shows "goFind (\<lambda>x. f (xs ! i) = f x) xs = Some (xs ! i, i)"
proof (cases "goFind (\<lambda>x. f (xs ! i) = f x) xs")
  case None
  with assms(2) show ?thesis by (auto simp: goFind_None_iff)
next
  case (Some r)
  obtain x j where r: "r = (x, j)" by (cases r)
  note s = goFind_SomeD [OF Some [unfolded r]]
  have "i = j" using assms s(1-3) by (auto simp: distinct_conv_nth)
  with Some r s(2) show ?thesis by simp
qed

lemma walk_at_tip: "isNodeTip c h links start \<Longrightarrow> weightedRandomWalk E c ls links h start k = Some (Some start, h, k)"
  by (simp add: weightedRandomWalk_def walk_loop.simps)

lemma select_mcmcp:
  assumes "te_Algorithm E = DAG_ALGO_MCMCP" and "rand_ok E"
  obtains rc as where "weightedSelect E h approvers k = Some (rc, as, k + 2)" and "mset as = mset approvers"
proof -
  let ?as = "shuffle_nodes (te_perm E k (length approvers)) approvers"
  have pair: "(case f of Some a \<Rightarrow> (Some a, s, n) | None \<Rightarrow> (l, s, n)) = (case f of Some a \<Rightarrow> Some a | None \<Rightarrow> l, s, n)"
    for f l :: "addr option" and s :: "addr list" and n :: nat
    by (cases f) simp_all
  obtain rc where "weightedSelect E h approvers k = Some (rc, ?as, k + 2)"
    using assms(1) by (simp add: weightedSelect_def weightedSelectMCMCP_def Let_def pair)
  moreover have "mset ?as = mset approvers"
    using assms(2) by (simp add: rand_ok_def shuffle_nodes_mset)
  ultimately show ?thesis by (rule that)
qed

text \<open>Only the order of the approvers of a node may change.\<close>

definition same_but_order :: "heap \<Rightarrow> heap \<Rightarrow> bool" where
  "same_but_order h h' \<longleftrightarrow>
     (\<forall>a. h' a = (h a)\<lparr>n_sources := n_sources (h' a)\<rparr> \<and> mset (n_sources (h' a)) = mset (n_sources (h a)))"

lemma same_but_order_refl [simp]: "same_but_order h h"
  by (simp add: same_but_order_def)

lemma same_but_order_trans: "same_but_order h h' \<Longrightarrow> same_but_order h' h'' \<Longrightarrow> same_but_order h h''"
  unfolding same_but_order_def
  by (metis (no_types, lifting) Node.surjective Node.update_convs(8) Node.select_convs(8))

lemma same_but_order_upd:
  "mset as = mset (n_sources (h p)) \<Longrightarrow> same_but_order h (h(p := (h p)\<lparr>n_sources := as\<rparr>))"
  by (auto simp: same_but_order_def)

lemma walk_budget:
  fixes a :: int
  assumes "a + 1 \<le> 3"
  shows "L + L * nat (3 - (a + 1)) = L * nat (3 - a)"
proof -
  have "nat (3 - a) = Suc (nat (3 - (a + 1)))" using assms by simp
  then show ?thesis by simp
qed

lemma walk_loop_returns:
  assumes "te_Algorithm E = DAG_ALGO_MCMCP" and "rand_ok E" and "1 \<le> cnt"
  shows "\<exists>r h' k'. walk_loop E c ls links h p cnt a k = Some (r, h', k') \<and>
           (\<forall>q. r = Some q \<longrightarrow> isNodeTip c h' links q) \<and> same_but_order h h' \<and>
           k' \<le> k + 2 * (cnt + length links * nat (3 - a))"
  using assms
proof (induction E c ls links h p cnt a k rule: walk_loop.induct)
  case (1 E c ls links h p cnt a k)
  show ?case
  proof (cases "isNodeTip c h links p")
    case True
    then show ?thesis by (simp add: walk_loop.simps)
  next
    case tip: False
    then have L: "1 \<le> length links" by (cases links) (simp_all add: isNodeTip_def)
    obtain rc as where sel: "weightedSelect E h (getApprovers h ls p) k = Some (rc, as, k + 2)"
      and as: "mset as = mset (getApprovers h ls p)"
      by (rule select_mcmcp [OF 1(2,3)])
    define h' where "h' = (if n_sources (h p) \<noteq> [] then h(p := (h p)\<lparr>n_sources := as\<rparr>) else h)"
    define p' where "p' = (case rc of None \<Rightarrow> p | Some q \<Rightarrow> q)"
    define cnt' where "cnt' = (if cnt - 1 = 0 then length links else cnt - 1)"
    define a' where "a' = (if cnt - 1 = 0 then a + 1 else a)"
    have h': "same_but_order h h'"
      using as by (simp add: h'_def getApprovers_def same_but_order_upd)
    have step: "walk_loop E c ls links h p cnt a k =
        (if 3 < a' then Some (None, h', k + 2) else walk_loop E c ls links h' p' cnt' a' (k + 2))"
      by (subst walk_loop.simps) (simp add: tip sel h'_def p'_def cnt'_def a'_def Let_def)
    show ?thesis
    proof (cases "3 < a'")
      case True
      then show ?thesis using step h' \<open>1 \<le> cnt\<close> by simp
    next
      case False
      have "1 \<le> cnt'" using L \<open>1 \<le> cnt\<close> by (auto simp: cnt'_def)
      then obtain r h2 k2 where w: "walk_loop E c ls links h' p' cnt' a' (k + 2) = Some (r, h2, k2)"
        "\<forall>q. r = Some q \<longrightarrow> isNodeTip c h2 links q" "same_but_order h' h2"
        "k2 \<le> k + 2 + 2 * (cnt' + length links * nat (3 - a'))"
        using 1(1) [OF tip sel refl refl h'_def p'_def refl cnt'_def a'_def False 1(2,3)] by blast
      have "1 + (cnt' + length links * nat (3 - a')) \<le> cnt + length links * nat (3 - a)"
        using False \<open>1 \<le> cnt\<close> walk_budget [of a "length links"] by (auto simp: cnt'_def a'_def split: if_splits)
      then show ?thesis
        using w step False h' by (auto intro: same_but_order_trans)
    qed
  qed
qed

lemma weightedMcmc_tips:
  assumes "rand_ok E" and "nodes \<noteq> []" and "length nodes \<noteq> 2"
    and "\<forall>a \<in> set nodes. isTip c (node_uuid h a)" and "distinct (map (node_uuid h) nodes)"
    and "i = te_intn E k (length nodes)"
    and "rest = (if length nodes = 1 then nodes else take i nodes @ drop (Suc i) nodes)"
  shows "weightedMcmc E c h nodes links k =
           Some ([Some (nodes ! i), Some (rest ! te_intn E (Suc k) (length rest))], h, k + 2)"
proof -
  have tip: "a \<in> set nodes \<Longrightarrow> weightedRandomWalk E c ls links h a m = Some (Some a, h, m)" for a ls m
    using assms(4) by (intro walk_at_tip) (simp add: isNodeTip_def)
  have i: "i < length nodes" using assms(1,2,6) by (simp add: rand_ok_def)
  have rest: "rest \<noteq> []" "set rest \<subseteq> set nodes"
    using assms(2,3,7) i by (cases "length nodes = 1"; auto dest: in_set_takeD in_set_dropD)+
  have "te_intn E (Suc k) (length rest) < length rest"
    using assms(1) rest(1) by (simp add: rand_ok_def)
  then have j: "rest ! te_intn E (Suc k) (length rest) \<in> set nodes" using rest(2) nth_mem by blast
  have many: "1 < length nodes" if "length nodes \<noteq> 1" using that assms(2) by (cases nodes) auto
  define ls where "ls = (if 1 < length nodes
      then drop_links (\<lambda>link. node_uuid h (link_source link) = node_uuid h (nodes ! i)) links else links)"
  have ls: "(if 1 < length nodes
      then without_tip (\<lambda>node. node_uuid h (nodes ! i) = node_uuid h node)
             (\<lambda>link. node_uuid h (link_source link) = node_uuid h (nodes ! i)) nodes links
      else (nodes, links)) = (rest, ls)"
    using assms(7) goFind_distinct [OF assms(5) i] many
    by (cases "length nodes = 1") (simp_all add: without_tip_def ls_def)
  have first: "weightedRandomWalk E c links links h (nodes ! te_intn E k (length nodes)) (Suc k) =
      Some (Some (nodes ! i), h, Suc k)"
    using tip [OF nth_mem [OF i]] by (simp add: assms(6))
  show ?thesis
    unfolding weightedMcmc_def first using assms(2,3) tip [OF j]
    by (simp add: ls del: One_nat_def)
qed

section \<open>Properties\<close>

text \<open>
  C24. The random walk ends: with the algorithm mcmc+ it returns without a panic after at
  most as many steps as there are links, times one plus the number of times the approval threshold
  can still grow (each step draws twice). What it returns is nil or a tip, and along the way it only
  permutes the lists of approvers.
\<close>
theorem walk_terminates:
  assumes "te_Algorithm E = DAG_ALGO_MCMCP" and "rand_ok E"
  shows "\<exists>r h' k'. weightedRandomWalk E c linkSelection links h start k = Some (r, h', k') \<and>
           (\<forall>p. r = Some p \<longrightarrow> isNodeTip c h' links p) \<and> same_but_order h h' \<and>
           k' \<le> k + 2 * (length links * (1 + nat (3 - uint (te_Approvetx E))))"
proof (cases "links = []")
  case True
  then have "isNodeTip c h links start" by (simp add: isNodeTip_def)
  then show ?thesis by (simp add: walk_at_tip)
next
  case False
  then have "1 \<le> length links" by (cases links) simp_all
  from walk_loop_returns [OF assms this, of c linkSelection links h start "uint (te_Approvetx E)" k]
  show ?thesis by (simp add: weightedRandomWalk_def)
qed

definition demo_sel :: sel_env where
  "demo_sel = \<lparr>te_flops = demo_flops, te_perm = (\<lambda>k n. [0..<n]), te_intn = (\<lambda>k n. 0), te_norm = (\<lambda>k. 0),
     te_mean = (\<lambda>_. 0), te_stdev = (\<lambda>_. 0), te_Algorithm = ''mcmc+'', te_Alpha = 0, te_Approvetx = 2,
     te_Cummstep = 1\<rparr>"

lemma demo_sel_ok [simp]: "rand_ok demo_sel" "te_Algorithm demo_sel = DAG_ALGO_MCMCP"
  by (simp_all add: rand_ok_def demo_sel_def DAG_ALGO_MCMCP_def)

theorem walk_terminates_witness:
  "\<exists>r h' k'. weightedRandomWalk demo_sel (demo_counter [1, 2, 3]) [\<lparr>link_source = 2, link_target = 1\<rparr>]
       [\<lparr>link_source = 2, link_target = 1\<rparr>] demo_star 1 0 = Some (r, h', k') \<and> k' \<le> 4"
  using walk_terminates [OF demo_sel_ok(2,1), of "demo_counter [1, 2, 3]" "[\<lparr>link_source = 2, link_target = 1\<rparr>]"
      "[\<lparr>link_source = 2, link_target = 1\<rparr>]" demo_star 1 0]
  by (auto simp: demo_sel_def)

text \<open>
  Tip selection is uniform: among candidates that are tips, which is what the DAG passes,
  every walk stops where it starts. The two selected vertices are the two uniform draws, the second
  one from the candidates without the first; neither the weights, nor the links, nor the parameter
  alpha influence the choice, and nothing is modified. With a single candidate that vertex is selected twice.
\<close>
lemma mcmc_by_draws:
  assumes "rand_ok E" and "nodes \<noteq> []" and "length nodes \<noteq> 2"
    and "\<forall>a \<in> set nodes. isTip c (node_uuid h a)" and "distinct (map (node_uuid h) nodes)"
    and "i = te_intn E k (length nodes)"
    and "rest = (if length nodes = 1 then nodes else take i nodes @ drop (Suc i) nodes)"
  shows "weightedMcmc E c h nodes links k =
           Some ([Some (nodes ! i), Some (rest ! te_intn E (Suc k) (length rest))], h, k + 2)"
  using assms by (rule weightedMcmc_tips)

end
