(* ===== verification/Dag_Store.thy ===== *)
theory Dag_Store
  imports Tip_Selection Pin_Stage
begin

text \<open>
  The DAG: \<^verbatim>\<open>src/dag/dag.go\<close>, \<^verbatim>\<open>src/dag/add.go\<close>, \<^verbatim>\<open>src/dag/insert.go\<close> and \<^verbatim>\<open>src/dag/site.go\<close>.

  The package's globals are the record \<open>World\<close>: the heap of nodes with the next free address, the
  DAG, the confirmation counter, the state behind the pins (\<open>NodeState\<close>) and the number of random draws
  made so far. The methods hold the DAG's lock from entry to return, so each is one step. The channel \<^verbatim>\<open>txCh\<close> is
  nil (\<open>None\<close>) or the list of the notifications sent to the watcher. \<open>None\<close> as outermost result is a panic.
\<close>

section \<open>State\<close>

record TxVL =
  tv_vertex :: Node
  tv_edges :: "Node list"

record Dag =
  dg_dag :: "addr list"
  dg_vertices :: "uuid \<rightharpoonup> addr"
  dg_links :: "Link list"
  dg_edges :: "uuid \<rightharpoonup> uuid list"
  dg_prevMajor :: "64 word"
  dg_prevMinor :: "32 word"
  dg_pins :: "addr list"
  dg_width :: "8 word"
  dg_txCh :: "TxVL list option"

record World =
  w_heap :: heap
  w_next :: addr
  w_dag :: Dag
  w_counter :: ConfirmationCounter
  w_node :: NodeState
  w_draws :: nat
  w_leaderReady :: bool

record dag_env =
  de_pin :: pin_env
  de_sel :: sel_env
  de_ord :: "uuid visit_order"
  de_Versioncollision :: bool
  de_Maxfuellimit :: "64 word"
  de_nilTx :: transaction

datatype dag_error =
    InvalidBalance
  | FailedInsert uuid
  | MissingSources uuid "uuid list"
  | VersionConflict uuid
  | NodeNil
  | NodeInvalid
  | BalanceError pin_error
  | NegativeSender

abbreviation de_ext :: "dag_env \<Rightarrow> ext" where
  "de_ext E \<equiv> pe_ext (de_pin E)"

section \<open>Lookup\<close>

definition lookupCache :: "Dag \<Rightarrow> uuid \<Rightarrow> bool" where
  "lookupCache d x = (dg_vertices d x \<noteq> None)"

definition edges_of :: "Dag \<Rightarrow> uuid \<Rightarrow> uuid list" where
  "edges_of d x = (case dg_edges d x of None \<Rightarrow> [] | Some l \<Rightarrow> l)"

definition lookupCacheUpdate :: "heap \<Rightarrow> addr \<Rightarrow> uuid list \<Rightarrow> Dag \<Rightarrow> Dag" where
  "lookupCacheUpdate h vertex targetIds d =
     (let x = node_uuid h vertex in
      d\<lparr>dg_vertices := (dg_vertices d)(x \<mapsto> vertex),
        dg_edges := (dg_edges d)(x \<mapsto> edges_of d x @ targetIds)\<rparr>)"

definition find_site :: "heap \<Rightarrow> Dag \<Rightarrow> uuid \<Rightarrow> addr option" where
  "find_site h d x = map_option fst (goFind (\<lambda>n. node_uuid h n = x) (dg_dag d))"

definition Dag_getById :: "heap \<Rightarrow> Dag \<Rightarrow> uuid \<Rightarrow> bool \<Rightarrow> addr option" where
  "Dag_getById h d x cacheOnly =
     (case dg_vertices d x of
        Some v \<Rightarrow> Some v
      | None \<Rightarrow> if \<not> cacheOnly then find_site h d x else None)"

definition updateMappedVertices :: "heap \<Rightarrow> Dag \<Rightarrow> Dag" where
  "updateMappedVertices h d =
     d\<lparr>dg_vertices := fold (\<lambda>v m. m(node_uuid h v \<mapsto> v)) (dg_dag d) (dg_vertices d)\<rparr>"

definition mapEdge_one :: "heap \<Rightarrow> Link \<Rightarrow> Dag \<Rightarrow> Dag" where
  "mapEdge_one h edge d =
     (let s = node_uuid h (link_source edge); t = node_uuid h (link_target edge) in
      case goFind (\<lambda>i. i = t) (edges_of d s) of
        Some _ \<Rightarrow> d
      | None \<Rightarrow> d\<lparr>dg_edges := (dg_edges d)(s \<mapsto> edges_of d s @ [t])\<rparr>)"

definition updateMappedEdges :: "heap \<Rightarrow> Dag \<Rightarrow> Dag" where
  "updateMappedEdges h d = fold (mapEdge_one h) (dg_links d) d"

definition Dag_Vertex :: "Dag \<Rightarrow> uuid \<Rightarrow> addr option" where
  "Dag_Vertex d x = dg_vertices d x"

definition getAdjEdges :: "heap \<Rightarrow> Dag \<Rightarrow> addr \<Rightarrow> addr list" where
  "getAdjEdges h d vertex =
     map link_target (filter (\<lambda>link. Node_Equal h (Some (link_source link)) (Some vertex)) (dg_links d))"

definition getGenesis :: "Dag \<Rightarrow> addr option" where
  "getGenesis d = (case dg_dag d of [] \<Rightarrow> None | a # _ \<Rightarrow> Some a)"

definition GetNodeVer :: "heap \<Rightarrow> addr option \<Rightarrow> 64 word \<times> 32 word" where
  "GetNodeVer h node =
     (case node of Some a \<Rightarrow> (nid_idMajor (n_id (h a)), nid_idMinor (n_id (h a))) | None \<Rightarrow> (0, 0))"

section \<open>Adding a vertex\<close>

definition send_tx :: "TxVL \<Rightarrow> Dag \<Rightarrow> Dag" where
  "send_tx m d = d\<lparr>dg_txCh := map_option (\<lambda>sent. sent @ [m]) (dg_txCh d)\<rparr>"

definition insertMissing :: "heap \<Rightarrow> addr \<Rightarrow> Dag \<Rightarrow> Dag" where
  "insertMissing h vertex d =
     send_tx \<lparr>tv_vertex = h vertex, tv_edges = map h (n_targets (h vertex))\<rparr>
       (lookupCacheUpdate h vertex (map (node_uuid h) (n_targets (h vertex)))
          (d\<lparr>dg_dag := dg_dag d @ [vertex]\<rparr>))"

definition link_one :: "addr \<Rightarrow> addr \<Rightarrow> heap \<times> Node list \<Rightarrow> heap \<times> Node list" where
  "link_one node v st =
     (let (h, e) = st;
          h1 = h(v := (h v)\<lparr>n_sources := n_sources (h v) @ [node]\<rparr>);
          h2 = h1(node := (h1 node)\<lparr>n_targets := n_targets (h1 node) @ [v]\<rparr>) in
      (h2, e @ [h v]))"

text \<open>\<open>linksTo\<close> is \<open>None\<close> for nil, which skips the balance update.\<close>

definition addToDag :: "dag_env \<Rightarrow> addr \<Rightarrow> addr list option \<Rightarrow> World \<Rightarrow> (dag_error option \<times> World) option" where
  "addToDag E node linksTo W =
     (let ns = w_node W; tx = n_tx (w_heap W node) in
      case (case linksTo of
              None \<Rightarrow> Some (True, ns_walletCache ns)
            | Some _ \<Rightarrow> UpdateBalanceIfValid (de_ext E) (ns_pins ns) (w_heap W node) (ns_walletCache ns)) of
        None \<Rightarrow> None
      | Some (valid, wc) \<Rightarrow>
          (let W1 = W\<lparr>w_node := ns\<lparr>ns_walletCache := wc\<rparr>\<rparr> in
           if \<not> valid then (if prints tx then Some (Some InvalidBalance, W1) else None)
           else
             (let targets = (case linksTo of None \<Rightarrow> [] | Some l \<Rightarrow> l);
                  (h1, e) = fold (link_one node) targets (w_heap W1, []);
                  h2 = h1(node := (h1 node)\<lparr>n_time := pe_now (de_pin E)\<rparr>);
                  d = w_dag W1;
                  d1 = lookupCacheUpdate h2 node (map (node_uuid h2) targets) (d\<lparr>dg_dag := dg_dag d @ [node]\<rparr>) in
              Some (None,
                W1\<lparr>w_heap := h2,
                   w_dag := send_tx \<lparr>tv_vertex = h2 node, tv_edges = e\<rparr> d1,
                   w_counter := counter_add h2 node (w_counter W1)\<rparr>))))"

section \<open>Approval\<close>

definition approveNode :: "dag_env \<Rightarrow> World \<Rightarrow> addr option \<Rightarrow> dag_error option option" where
  "approveNode E W node =
     (case node of
        None \<Rightarrow> Some (Some NodeNil)
      | Some a \<Rightarrow>
          if \<not> n_valid (w_heap W a) then Some (Some NodeInvalid)
          else
            (case GetSender (de_ext E) (n_tx (w_heap W a)) of
               None \<Rightarrow> None
             | Some sender \<Rightarrow>
                 (case GetBalances (ns_pins (w_node W)) (ns_walletCache (w_node W)) [sender] of
                    None \<Rightarrow> None
                  | Some (Inl e) \<Rightarrow> Some (Some (BalanceError e))
                  | Some (Inr balances) \<Rightarrow>
                      Some (if SetBytes (balances ! 0) < 0 then Some NegativeSender else None))))"

fun approve_loop :: "dag_env \<Rightarrow> World \<Rightarrow> addr option list \<Rightarrow> 16 word \<Rightarrow> 16 word option" where
  "approve_loop E W [] c = Some c"
| "approve_loop E W (None # nodes) c = approve_loop E W nodes (c - 1)"
| "approve_loop E W (Some a # nodes) c =
     (case approveNode E W (Some a) of
        None \<Rightarrow> None
      | Some _ \<Rightarrow> approve_loop E W nodes c)"

definition approveTx :: "dag_env \<Rightarrow> World \<Rightarrow> addr option list \<Rightarrow> bool option" where
  "approveTx E W nodes =
     (if nodes = [] then Some False
      else map_option (\<lambda>c. c = te_Approvetx (de_sel E))
             (approve_loop E W nodes (te_Approvetx (de_sel E))))"
section \<open>\<^verbatim>\<open>AddTxDag\<close>\<close>

definition candidate_links :: "heap \<Rightarrow> addr list \<Rightarrow> Link list" where
  "candidate_links h candidates =
     concat (map (\<lambda>v. map (\<lambda>t. \<lparr>link_source = v, link_target = t\<rparr>) (n_targets (h v))) candidates)"

text \<open>The loop that draws until the second candidate differs from the first; it need not end.\<close>

partial_function (option) draw_other :: "sel_env \<Rightarrow> nat \<Rightarrow> nat \<Rightarrow> nat \<Rightarrow> (nat \<times> nat) option" where
  "draw_other S n c1 k =
     (let c2 = te_intn S k n in
      if c1 \<noteq> c2 then Some (c2, Suc k) else draw_other S n c1 (Suc k))"

definition random_tips :: "sel_env \<Rightarrow> addr list \<Rightarrow> nat \<Rightarrow> (addr option list \<times> nat) option" where
  "random_tips S candidates k =
     (if candidates = [] then None
      else
        (let n = length candidates; c1 = te_intn S k n in
         if 1 < n
         then map_option (\<lambda>(c2, k'). ([Some (candidates ! c1), Some (candidates ! c2)], k'))
                (draw_other S n c1 (Suc k))
         else Some ([Some (candidates ! c1)], Suc k)))"

definition select_tips :: "dag_env \<Rightarrow> addr \<Rightarrow> World \<Rightarrow> (addr option list \<times> World) option" where
  "select_tips E node W =
     (let h = w_heap W; d = w_dag W; S = de_sel E; k = w_draws W in
      if GetTransactionType (n_tx (h node)) \<noteq> PAYMENT then Some ([], W)
      else
        (case dg_dag d of
           [] \<Rightarrow> None
         | genesis # rest \<Rightarrow>
             if length rest < unat (dg_width d) then Some ([Some genesis], W)
             else
               (let candidates = getTips (de_ord E) (w_counter W);
                    candidateLinks = candidate_links h candidates;
                    shuffled = shuffle_nodes (te_perm S k (length candidates)) candidates in
                if te_Algorithm S \<noteq> DAG_ALGO_RANDOM
                then map_option (\<lambda>(tips, h', k'). (tips, W\<lparr>w_heap := h', w_draws := k'\<rparr>))
                       (weightedMcmc S (w_counter W) h shuffled candidateLinks (Suc k))
                else map_option (\<lambda>(tips, k'). (tips, W\<lparr>w_draws := k'\<rparr>))
                       (random_tips S shuffled (Suc k)))))"

text \<open>What the loop over the tips collects: identifiers, signatures, links and the height.\<close>

record tip_data =
  td_ids :: "uuid list"
  td_signatures :: "string \<rightharpoonup> bytes"
  td_links :: "Link list"
  td_height :: Height

definition raise_height :: "64 word \<Rightarrow> 64 word \<Rightarrow> 64 word" where
  "raise_height tip current = (if current < tip then tip + 1 else current)"

fun tips_loop :: "dag_env \<Rightarrow> heap \<Rightarrow> addr \<Rightarrow> addr option list \<Rightarrow> tip_data \<Rightarrow> tip_data option" where
  "tips_loop E h node [] td = Some td"
| "tips_loop E h node (None # tips) td = None"
| "tips_loop E h node (Some tip # tips) td =
     (case GetSignature (n_tx (h tip)) of
        None \<Rightarrow> None
      | Some sig \<Rightarrow>
          tips_loop E h node tips
            \<lparr>td_ids = td_ids td @ [node_uuid h tip],
             td_signatures = (td_signatures td)(uuid_String (de_ext E) (node_uuid h tip) \<mapsto> sig),
             td_links = td_links td @ [\<lparr>link_source = node, link_target = tip\<rparr>],
             td_height = \<lparr>minheight = raise_height (minheight (n_height (h tip))) (minheight (td_height td)),
                          maxheight = raise_height (maxheight (n_height (h tip))) (maxheight (td_height td))\<rparr>\<rparr>)"

definition weigh_added :: "dag_env \<Rightarrow> World \<Rightarrow> World" where
  "weigh_added E W =
     (if te_Algorithm (de_sel E) = DAG_ALGO_MCMCP
      then W\<lparr>w_heap := updateCumWeights (de_sel E) (dg_dag (w_dag W)) (w_heap W)\<rparr> else W)"

definition AddTxDag ::
  "dag_env \<Rightarrow> addr \<Rightarrow> World \<Rightarrow> ((dag_error + uuid list \<times> (string \<rightharpoonup> bytes)) \<times> World) option" where
  "AddTxDag E node W =
     (case select_tips E node W of
        None \<Rightarrow> None
      | Some (tips, W1) \<Rightarrow>
          (case approveTx E W1 tips of
             None \<Rightarrow> None
           | Some False \<Rightarrow> Some (Inr ([], Map.empty), weigh_added E W1)
           | Some True \<Rightarrow>
               (case tips_loop E (w_heap W1) node tips
                       \<lparr>td_ids = [], td_signatures = Map.empty, td_links = [], td_height = zeroHeight\<rparr> of
                  None \<Rightarrow> None
                | Some td \<Rightarrow>
                    (let h = w_heap W1; d = w_dag W1;
                         W2 = W1\<lparr>w_heap := h(node := (h node)\<lparr>n_height := td_height td\<rparr>),
                                 w_dag := d\<lparr>dg_links := dg_links d @ td_links td\<rparr>\<rparr> in
                     case addToDag E node (Some (map the tips)) W2 of
                       None \<Rightarrow> None
                     | Some (Some e, W3) \<Rightarrow> Some (Inl e, W3)
                     | Some (None, W3) \<Rightarrow> Some (Inr (td_ids td, td_signatures td), weigh_added E W3)))))"

section \<open>\<^verbatim>\<open>InsertTxDag\<close>\<close>

definition alloc :: "Node \<Rightarrow> World \<Rightarrow> addr \<times> World" where
  "alloc n W = (w_next W, W\<lparr>w_heap := (w_heap W)(w_next W := n), w_next := Suc (w_next W)\<rparr>)"

text \<open>Looking for the approved vertices: in the cache of the DAG, then in the pins.\<close>

fun candidates_loop ::
  "dag_env \<Rightarrow> uuid list \<Rightarrow> addr list \<times> uuid list \<times> World \<Rightarrow> (addr list \<times> uuid list \<times> World) option" where
  "candidates_loop E [] st = Some st"
| "candidates_loop E (x # ids) (candidates, idsNotFound, W) =
     (case Dag_getById (w_heap W) (w_dag W) x True of
        Some n \<Rightarrow> candidates_loop E ids (candidates @ [n], idsNotFound, W)
      | None \<Rightarrow>
          (case Pins_getById (de_ext E) (pe_flops (de_pin E)) (de_nilTx E) (ns_pins (w_node W)) x of
             None \<Rightarrow> None
           | Some None \<Rightarrow> candidates_loop E ids (candidates, idsNotFound @ [x], W)
           | Some (Some n) \<Rightarrow>
               (let (a, W') = alloc n W in
                candidates_loop E ids (candidates @ [a], idsNotFound, W'))))"

definition collision_one ::
  "heap \<Rightarrow> addr \<Rightarrow> addr \<Rightarrow> 64 word \<times> 32 word \<times> addr option \<Rightarrow> 64 word \<times> 32 word \<times> addr option" where
  "collision_one h inVertex candidate st =
     (let c = n_id (h candidate); i = n_id (h inVertex) in
      if nid_id c \<noteq> nid_id i \<and> nid_idMajor c = nid_idMajor i \<and> nid_idMinor i \<le> nid_idMinor c
      then (nid_idMajor c, nid_idMinor c + 1, Some candidate) else st)"

definition find_collision ::
  "dag_env \<Rightarrow> World \<Rightarrow> addr \<Rightarrow> addr list \<Rightarrow> 64 word \<Rightarrow> 32 word \<Rightarrow> 64 word \<times> 32 word \<times> addr option" where
  "find_collision E W inVertex candidates major minor =
     (if de_Versioncollision E
      then fold (collision_one (w_heap W) inVertex)
             (concat (map (getApprovers (w_heap W) (dg_links (w_dag W))) candidates)) (major, minor, None)
      else (major, minor, None))"

text \<open>The branch that puts the vertex next to the one it collides with.\<close>

definition insert_next_to ::
  "dag_env \<Rightarrow> addr \<Rightarrow> addr list \<Rightarrow> addr \<Rightarrow> 64 word \<Rightarrow> 32 word \<Rightarrow> World \<Rightarrow> (dag_error option \<times> World) option" where
  "insert_next_to E inVertex candidates next major minor W =
     (if node_uuid (w_heap W) next \<noteq> node_uuid (w_heap W) inVertex
      then Some (Some (VersionConflict (node_uuid (w_heap W) inVertex)), W)
      else
        (let h = w_heap W; n = h inVertex; d = w_dag W;
             h1 = h(inVertex := n\<lparr>n_id := (n_id n)\<lparr>nid_idMajor := major, nid_idMinor := minor\<rparr>\<rparr>);
             W1 = W\<lparr>w_heap := h1\<rparr> in
         case goFind (\<lambda>c. node_uuid h1 c = node_uuid h1 next) (dg_dag d) of
           Some (_, idx) \<Rightarrow>
             if Suc idx < length (dg_dag d)
             then Some (None, W1\<lparr>w_dag := d\<lparr>dg_dag :=
                    (take (Suc idx) (dg_dag d) @ drop idx (dg_dag d))[Suc idx := inVertex]\<rparr>\<rparr>)
             else addToDag E inVertex (Some candidates) W1
         | None \<Rightarrow> addToDag E inVertex (Some candidates) W1))"

definition weigh_inserted :: "dag_env \<Rightarrow> World \<Rightarrow> World" where
  "weigh_inserted E W =
     (if te_Algorithm (de_sel E) = DAG_ALGO_MCMCP
      then
        (let d = w_dag W; reversed = ReverseSlice (dg_dag d) in
         W\<lparr>w_heap := updateCumWeights (de_sel E) reversed (w_heap W),
           w_dag := d\<lparr>dg_dag := ReverseSlice reversed\<rparr>\<rparr>)
      else W)"

definition stamp_vertex :: "dag_env \<Rightarrow> addr \<Rightarrow> uuid \<Rightarrow> 64 word \<Rightarrow> 32 word \<Rightarrow> World \<Rightarrow> World" where
  "stamp_vertex E inVertex txId idMajor idMinor W =
     (let h = w_heap W; n = h inVertex in
      W\<lparr>w_heap := h(inVertex := n\<lparr>n_id := (n_id n)\<lparr>nid_id := txId, nid_idMajor := idMajor, nid_idMinor := idMinor\<rparr>,
                                   n_time := pe_now (de_pin E)\<rparr>)\<rparr>)"

definition note_missing :: "dag_env \<Rightarrow> addr \<Rightarrow> uuid list \<Rightarrow> World \<Rightarrow> World" where
  "note_missing E inVertex idsNotFound W =
     (let h = w_heap W; n = h inVertex in
      W\<lparr>w_heap := h(inVertex := n\<lparr>n_missingTargets :=
          fold (\<lambda>x m. m(uuid_String (de_ext E) x \<mapsto> True)) idsNotFound (n_missingTargets n)\<rparr>)\<rparr>)"

definition InsertTxDag ::
  "dag_env \<Rightarrow> addr \<Rightarrow> uuid \<Rightarrow> 64 word \<Rightarrow> 32 word \<Rightarrow> uuid list \<Rightarrow> World \<Rightarrow> (dag_error option \<times> World) option" where
  "InsertTxDag E inVertex txId idMajor idMinor ids W =
     (let W1 = stamp_vertex E inVertex txId idMajor idMinor W in
      if Dag_getById (w_heap W1) (w_dag W1) txId True \<noteq> None then Some (None, W1)
      else
        (case candidates_loop E ids ([], [], W1) of
           None \<Rightarrow> None
         | Some (candidates, idsNotFound, W2) \<Rightarrow>
             if length candidates \<noteq> length ids
             then
               (case addToDag E inVertex (Some candidates) (note_missing E inVertex idsNotFound W2) of
                  None \<Rightarrow> None
                | Some (Some e, W3) \<Rightarrow> Some (Some (FailedInsert txId), W3)
                | Some (None, W3) \<Rightarrow> Some (Some (MissingSources txId idsNotFound), W3))
             else
               (let (major, minor, nextTo) = find_collision E W2 inVertex candidates idMajor idMinor in
                case (case nextTo of
                        Some next \<Rightarrow> insert_next_to E inVertex candidates next major minor W2
                      | None \<Rightarrow> addToDag E inVertex (Some candidates) W2) of
                  None \<Rightarrow> None
                | Some (Some e, W3) \<Rightarrow> Some (Some e, W3)
                | Some (None, W3) \<Rightarrow>
                    (let d = w_dag W3 in
                     Some (None, weigh_inserted E (W3\<lparr>w_dag := d\<lparr>dg_links :=
                       dg_links d @ map (\<lambda>t. \<lparr>link_source = inVertex, link_target = t\<rparr>) candidates\<rparr>\<rparr>))))))"

section \<open>Synchronisation\<close>

definition insertIfMissing_one :: "addr \<Rightarrow> World \<Rightarrow> World" where
  "insertIfMissing_one v W =
     (case Dag_getById (w_heap W) (w_dag W) (node_uuid (w_heap W) v) False of
        Some _ \<Rightarrow> W
      | None \<Rightarrow> W\<lparr>w_dag := insertMissing (w_heap W) v (w_dag W)\<rparr>)"

definition InsertIfNotExist :: "addr list \<Rightarrow> World \<Rightarrow> World" where
  "InsertIfNotExist vertices = fold insertIfMissing_one vertices"

fun unsafe_bypassInsert :: "dag_env \<Rightarrow> addr list \<Rightarrow> World \<Rightarrow> (dag_error option \<times> World) option" where
  "unsafe_bypassInsert E [] W = Some (None, W)"
| "unsafe_bypassInsert E (n # vertices) W =
     (case addToDag E n None W of
        None \<Rightarrow> None
      | Some (Some _, W') \<Rightarrow> Some (Some (FailedInsert (node_uuid (w_heap W') n)), W')
      | Some (None, W') \<Rightarrow> unsafe_bypassInsert E vertices W')"

text \<open>
  \<^verbatim>\<open>ReconcileMissingTargets\<close>: link the vertices whose targets have arrived in the meantime. The
  result lists the identifiers that are requested from the other nodes.
\<close>

definition relink_one :: "ext \<Rightarrow> addr \<Rightarrow> addr \<Rightarrow> World \<Rightarrow> World" where
  "relink_one X v1 v3 W =
     (let h = w_heap W; d = w_dag W; key = uuid_String X (node_uuid h v3) in
      if n_missingTargets (h v1) key \<noteq> None
      then W\<lparr>w_heap := h(v1 := (h v1)\<lparr>n_targets := n_targets (h v1) @ [v3],
                                      n_missingTargets := (n_missingTargets (h v1))(key := None)\<rparr>),
             w_dag := d\<lparr>dg_links := dg_links d @ [\<lparr>link_source = v1, link_target = v3\<rparr>]\<rparr>\<rparr>
      else W)"

definition possible_targets :: "ext \<Rightarrow> World \<Rightarrow> addr \<Rightarrow> addr list" where
  "possible_targets X W v1 =
     (let h = w_heap W in
      filter (\<lambda>v2. node_uuid h v1 \<noteq> node_uuid h v2 \<and>
                   n_missingTargets (h v1) (uuid_String X (node_uuid h v2)) \<noteq> None) (dg_dag (w_dag W)))"

definition reconcile_one ::
  "ext \<Rightarrow> string visit_order \<Rightarrow> addr \<Rightarrow> World \<times> string list \<Rightarrow> World \<times> string list" where
  "reconcile_one X ord v1 st =
     (let (W, requestVertices) = st;
          W' = fold (relink_one X v1) (possible_targets X W v1) W in
      (W', requestVertices @ ord (dom (n_missingTargets (w_heap W' v1)))))"

definition ReconcileMissingTargets :: "ext \<Rightarrow> string visit_order \<Rightarrow> World \<Rightarrow> World \<times> string list" where
  "ReconcileMissingTargets X ord W =
     fold (reconcile_one X ord)
       (filter (\<lambda>v. n_missingTargets (w_heap W v) \<noteq> Map.empty) (dg_dag (w_dag W))) (W, [])"

text \<open>The parser of identifiers is a parameter; its error is ignored. \<open>True\<close> reports the error.\<close>

definition getVertices :: "(string \<Rightarrow> uuid) \<Rightarrow> Dag \<Rightarrow> string list \<Rightarrow> addr list \<times> bool" where
  "getVertices parse d ids =
     (let vertices = List.map_filter (Dag_Vertex d) (map parse ids) in
      (vertices, length vertices < length ids))"

definition GetConfirmedSites :: "uuid visit_order \<Rightarrow> World \<Rightarrow> addr option list \<times> World" where
  "GetConfirmedSites ord W =
     (let (sites, c) = counter_pop ord (w_counter W) in (sites, W\<lparr>w_counter := c\<rparr>))"

definition Dag_GetTips :: "uuid visit_order \<Rightarrow> World \<Rightarrow> addr option list" where
  "Dag_GetTips ord W = counter_tip ord (w_counter W)"

text \<open>\<^verbatim>\<open>genPinTx\<close> forms the next pin; a nil site is dereferenced. Announcing the pin is network output.\<close>

definition genPinTx :: "dag_env \<Rightarrow> World \<Rightarrow> World option" where
  "genPinTx E W =
     (let (sites, W1) = GetConfirmedSites (de_ord E) W; V = de_pin E; ns = w_node W1 in
      case GetAllUncofirmed (pe_ext V) (pe_ord V) (ns_vm ns) (de_Maxfuellimit E) (ns_smc ns) of
        None \<Rightarrow> None
      | Some smcTxs \<Rightarrow>
          if 0 < length sites \<or> 0 < length smcTxs
          then (if None \<in> set sites then None
                else map_option (\<lambda>(h, ns'). W1\<lparr>w_heap := h, w_node := ns'\<rparr>)
                       (NodeTxPin_add V (map the sites) smcTxs (w_heap W1) ns))
          else Some W1)"

definition SyncUp :: "dag_env \<Rightarrow> World \<Rightarrow> World option" where
  "SyncUp E W =
     (case dg_dag (w_dag W) of
        [] \<Rightarrow> None
      | _ # rest \<Rightarrow>
          if length rest = unat (dg_width (w_dag W)) \<or>
             (unat (dg_width (w_dag W)) < length rest \<and> \<not> w_leaderReady W)
          then map_option (\<lambda>W'. W'\<lparr>w_leaderReady := True\<rparr>) (genPinTx E W)
          else Some W)"

section \<open>Start of a node\<close>

definition INITIAL_OFFERING :: int where
  "INITIAL_OFFERING = 10000000000000000000000000000000"

definition genesis_node :: "flops \<Rightarrow> Txv1 \<Rightarrow> Node" where
  "genesis_node F t = (zeroNode F (TxV1 t))\<lparr>n_txWeight := f_lit F 1, n_valid := True\<rparr>"

definition newDag :: "dag_env \<Rightarrow> bool \<Rightarrow> ChainType \<Rightarrow> 16 word \<Rightarrow> World \<Rightarrow> World option" where
  "newDag E leader chaintype initialwidth W =
     (let V = de_pin E; dagWallet = pe_wallet V in
      case NewGenesisTxv1 chaintype dagWallet of
        Inl _ \<Rightarrow> None
      | Inr t \<Rightarrow>
          (case Txv1_Sign (pe_ext V) (privateKey dagWallet) (t\<lparr>Amount := Bytes INITIAL_OFFERING\<rparr>) of
             None \<Rightarrow> None
           | Some genesis_tx \<Rightarrow>
               (let (genesis, W1) = alloc (genesis_node (pe_flops V) genesis_tx) W;
                    d = \<lparr>dg_dag = [], dg_vertices = Map.empty, dg_links = [], dg_edges = Map.empty,
                         dg_prevMajor = 0, dg_prevMinor = 0, dg_pins = [], dg_width = ucast initialwidth,
                         dg_txCh = None\<rparr> in
                if leader
                then
                  map_option (\<lambda>pins.
                    W1\<lparr>w_dag := d\<lparr>dg_dag := [genesis], dg_vertices := [node_uuid (w_heap W1) genesis \<mapsto> genesis],
                                   dg_pins := [genesis]\<rparr>,
                       w_counter := counter_add (w_heap W1) genesis (w_counter W1),
                       w_node := (w_node W1)\<lparr>ns_pins := pins\<rparr>\<rparr>)
                    (NodeTxPin_set (pe_ext V) (pe_marshal V) (pe_ord V) (pe_ts V) dagWallet
                       (w_heap W1 genesis) (walletAddress dagWallet) [])
                else Some (W1\<lparr>w_dag := d, w_node := (w_node W1)\<lparr>ns_pins := []\<rparr>\<rparr>))))"

text \<open>
  \<^verbatim>\<open>Init\<close> with a configuration: fresh caches and counter, then the DAG; the leader checks its own
  balance. The state of the virtual machine and the contract pools are not touched.
\<close>

definition dag_Init :: "dag_env \<Rightarrow> bool \<Rightarrow> ChainType \<Rightarrow> 16 word \<Rightarrow> World \<Rightarrow> World option" where
  "dag_Init E leader chaintype initialwidth W =
     (let W0 = W\<lparr>w_node := (w_node W)\<lparr>ns_walletCache := newWalletCache, ns_walletCacheConfirmed := newWalletCache\<rparr>,
                 w_counter := newConfirmationCounter\<rparr> in
      case newDag E leader chaintype initialwidth W0 of
        None \<Rightarrow> None
      | Some W1 \<Rightarrow>
          if leader then
            (case (unsafe_getBalanceForWallet (ns_pins (w_node W1)) (ns_walletCache (w_node W1))
                     (walletAddress (pe_wallet (de_pin E))), getGenesis (w_dag W1)) of
               ((ico, None), Some g) \<Rightarrow> if ico = GetAmount (n_tx (w_heap W1 g)) then Some W1 else None
             | _ \<Rightarrow> None)
          else Some W1)"

end
