(* ===== verification/Diffusion.thy ===== *)
theory Diffusion
  imports Dag_Store
begin

text \<open>
  The two loops that connect the DAG with the network, \<^verbatim>\<open>src/diffusion/publish.go\<close> and
  \<^verbatim>\<open>src/diffusion/subscribe.go\<close>, one iteration each. The publisher takes a transaction from the publish queue, adds
  it to the own DAG and announces it with the vertices it approves; the subscriber turns a received
  announcement into an entry of the insertion queue, and the inserter inserts it.

  The peer-to-peer layer is a parameter: what arrives is an argument, what is sent is a result, and
  whether a message could be sent is an argument. Fresh identifiers, weights and clocks are arguments.
\<close>

section \<open>Publishing\<close>

record node_source =
  nso_network :: int
  nso_fresh :: uuid
  nso_weight :: float64
  nso_host :: string
  nso_addrs :: "bytes list"
  nso_seq :: "64 word"

datatype publish_result = Stopped | Discarded | Refused | Sent GrapeTx | Unsent

definition new_vertex ::
  "dag_env \<Rightarrow> node_source \<Rightarrow> transaction \<Rightarrow> bool \<Rightarrow> World \<Rightarrow> (addr option \<times> World) option" where
  "new_vertex E S t verifyRequired W =
     (case NewDagNode (de_ext E) (pe_flops (de_pin E)) (nso_network S) (nso_fresh S) (nso_weight S)
             (pe_now (de_pin E)) (dg_prevMinor (w_dag W)) t verifyRequired (dg_prevMajor (w_dag W)) of
        None \<Rightarrow> None
      | Some (major, n) \<Rightarrow>
          (let W1 = W\<lparr>w_dag := (w_dag W)\<lparr>dg_prevMajor := major\<rparr>\<rparr> in
           case n of
             None \<Rightarrow> Some (None, W1)
           | Some node \<Rightarrow> (let (a, W2) = alloc node W1 in Some (Some a, W2))))"

definition announcement :: "dag_env \<Rightarrow> node_source \<Rightarrow> transaction \<Rightarrow> addr \<Rightarrow> uuid list \<Rightarrow> (string \<rightharpoonup> bytes) \<Rightarrow> heap \<Rightarrow> GrapeTx" where
  "announcement E S t a ids signatures h =
     (let (major, minor) = GetNodeVer h (Some a) in
      (NewGrapeTx (nso_host S) (nso_addrs S) (nso_seq S))
        \<lparr>gt_Transaction := Some t,
         gt_Ids := \<lparr>IDs = map (\<lambda>s. \<lparr>Is_empty = (s = uuid_Nil), us_Id = s\<rparr>) ids, Signatures = signatures\<rparr>,
         TxIdMajor := major, TxIdMinor := minor,
         gt_Tx := str_bytes (uuid_String (de_ext E) (GetID h (Some a)))\<rparr>)"

definition TX_SERVICE_STOP :: string where
  "TX_SERVICE_STOP = ''stop''"

definition publish_one ::
  "dag_env \<Rightarrow> node_source \<Rightarrow> bool \<Rightarrow> bool \<Rightarrow> transaction \<Rightarrow> World \<Rightarrow> (publish_result \<times> World) option" where
  "publish_one E S sent leader t W =
     (if IsService t \<and> IsPayload t TX_SERVICE_STOP then Some (Stopped, W)
      else
        (case new_vertex E S t False W of
           None \<Rightarrow> None
         | Some (None, W1) \<Rightarrow> if prints t then Some (Discarded, W1) else None
         | Some (Some a, W1) \<Rightarrow>
             (case AddTxDag E a W1 of
                None \<Rightarrow> None
              | Some (Inl _, W2) \<Rightarrow> if prints t then Some (Refused, W2) else None
              | Some (Inr (ids, signatures), W2) \<Rightarrow>
                  (let rec = announcement E S t a ids signatures (w_heap W2) in
                   if \<not> sent then Some (Unsent, W2)
                   else if leader then map_option (\<lambda>W3. (Sent rec, W3)) (SyncUp E W2)
                   else Some (Sent rec, W2)))))"

section \<open>Subscribing\<close>

record SubInTx =
  sub_vertex :: addr
  sub_id :: uuid
  sub_idMajor :: "64 word"
  sub_idMinor :: "32 word"
  sub_targetIds :: "UuidSlice list"

text \<open>
  A message from the network. \<open>parse\<close> is \<^verbatim>\<open>uuid.MustParse\<close>, which panics on \<open>None\<close>. Messages the host
  published itself are skipped.
\<close>

definition receive_one ::
  "dag_env \<Rightarrow> node_source \<Rightarrow> (bytes \<Rightarrow> uuid option) \<Rightarrow> string \<Rightarrow> GrapeTx \<Rightarrow> World \<Rightarrow>
     (SubInTx option \<times> World) option" where
  "receive_one E S parse receivedFrom rec W =
     (if receivedFrom = nso_host S then Some (None, W)
      else
        (case gt_Transaction rec of
           None \<Rightarrow> None
         | Some t \<Rightarrow>
             (case new_vertex E S t True W of
                None \<Rightarrow> None
              | Some (None, W1) \<Rightarrow> if prints t then Some (None, W1) else None
              | Some (Some a, W1) \<Rightarrow>
                  map_option (\<lambda>txUUID. (Some \<lparr>sub_vertex = a, sub_id = txUUID, sub_idMajor = TxIdMajor rec,
                                               sub_idMinor = TxIdMinor rec, sub_targetIds = IDs (gt_Ids rec)\<rparr>, W1))
                    (parse (gt_Tx rec)))))"

definition insert_one :: "dag_env \<Rightarrow> bool \<Rightarrow> SubInTx \<Rightarrow> World \<Rightarrow> World option" where
  "insert_one E leader q W =
     (case InsertTxDag E (sub_vertex q) (sub_id q) (sub_idMajor q) (sub_idMinor q) (map us_Id (sub_targetIds q)) W of
        None \<Rightarrow> None
      | Some (Some _, W1) \<Rightarrow> if prints (n_tx (w_heap W1 (sub_vertex q))) then Some W1 else None
      | Some (None, W1) \<Rightarrow> if leader then SyncUp E W1 else Some W1)"

end
