(* ===== verification/Dag_Invariant.thy ===== *)
theory Dag_Invariant
  imports Diffusion
begin

text \<open>
  The invariant of the DAG and that every operation keeps it: local additions, insertions of received
  vertices, missing vertices from synchronisation and forming a pin. The relation \<open>dag_run\<close>
  interleaves these operations, with the queue of received vertices between subscriber and inserter.
\<close>

section \<open>The invariant\<close>

text \<open>
  A target may be a copy made from a pin: it is outside the DAG and has no targets itself.
\<close>

definition pinned_copy :: "World \<Rightarrow> addr \<Rightarrow> bool" where
  "pinned_copy W t \<longleftrightarrow> t \<notin> set (dg_dag (w_dag W)) \<and> t < w_next W \<and> n_targets (w_heap W t) = []"

definition unlinked :: "World \<Rightarrow> addr \<Rightarrow> bool" where
  "unlinked W a \<longleftrightarrow> a < w_next W \<and> a \<notin> set (dg_dag (w_dag W)) \<and>
     (\<forall>b \<in> set (dg_dag (w_dag W)). a \<notin> set (n_targets (w_heap W b)))"

definition fresh_node :: "World \<Rightarrow> addr \<Rightarrow> bool" where
  "fresh_node W a \<longleftrightarrow> unlinked W a \<and> n_targets (w_heap W a) = [] \<and> n_sources (w_heap W a) = []"

definition ids_ok :: "World \<Rightarrow> bool" where
  "ids_ok W \<longleftrightarrow> distinct (map (node_uuid (w_heap W)) (dg_dag (w_dag W))) \<and>
     (\<forall>a \<in> set (dg_dag (w_dag W)). a < w_next W) \<and>
     (\<forall>x a. dg_vertices (w_dag W) x = Some a \<longleftrightarrow> a \<in> set (dg_dag (w_dag W)) \<and> node_uuid (w_heap W) a = x)"

definition order_ok :: "World \<Rightarrow> bool" where
  "order_ok W \<longleftrightarrow>
     (\<forall>i < length (dg_dag (w_dag W)). \<forall>t \<in> set (n_targets (w_heap W (dg_dag (w_dag W) ! i))).
        t \<in> set (take i (dg_dag (w_dag W))) \<or> pinned_copy W t)"

definition edges_ok :: "World \<Rightarrow> bool" where
  "edges_ok W \<longleftrightarrow> dom (dg_edges (w_dag W)) \<subseteq> dom (dg_vertices (w_dag W)) \<and>
     (\<forall>a \<in> set (dg_dag (w_dag W)).
        edges_of (w_dag W) (node_uuid (w_heap W) a) = map (node_uuid (w_heap W)) (n_targets (w_heap W a)))"

definition dual_ok :: "World \<Rightarrow> bool" where
  "dual_ok W \<longleftrightarrow>
     (\<forall>a \<in> set (dg_dag (w_dag W)). \<forall>b. count_list (n_sources (w_heap W a)) b =
        (if b \<in> set (dg_dag (w_dag W)) then count_list (n_targets (w_heap W b)) a else 0))"

definition counter_matches :: "World \<Rightarrow> bool" where
  "counter_matches W \<longleftrightarrow> cc_cache (w_counter W) \<subseteq>\<^sub>m dg_vertices (w_dag W) \<and> finite (dom (cc_tips (w_counter W)))"

definition dag_inv :: "World \<Rightarrow> bool" where
  "dag_inv W \<longleftrightarrow> ids_ok W \<and> order_ok W \<and> edges_ok W \<and> dual_ok W \<and> counter_matches W"

lemmas dag_inv_defs =
  dag_inv_def ids_ok_def order_ok_def edges_ok_def dual_ok_def counter_matches_def

section \<open>Changes of the heap\<close>

definition same_links :: "heap \<Rightarrow> heap \<Rightarrow> bool" where
  "same_links h h' \<longleftrightarrow>
     (\<forall>a. n_id (h' a) = n_id (h a) \<and> n_targets (h' a) = n_targets (h a) \<and> n_sources (h' a) = n_sources (h a))"

lemma same_links_refl [simp]: "same_links h h"
  by (simp add: same_links_def)

lemma same_links_trans: "same_links h h' \<Longrightarrow> same_links h' h'' \<Longrightarrow> same_links h h''"
  by (simp add: same_links_def)

text \<open>The invariant does not depend on the other fields of the nodes, nor on the other parts of the state.\<close>

lemma dag_inv_cong:
  assumes "same_links (w_heap W) (w_heap W')" and "w_next W' = w_next W"
    and "dg_dag (w_dag W') = dg_dag (w_dag W)" and "dg_vertices (w_dag W') = dg_vertices (w_dag W)"
    and "dg_edges (w_dag W') = dg_edges (w_dag W)"
    and "cc_cache (w_counter W') = cc_cache (w_counter W)" and "cc_tips (w_counter W') = cc_tips (w_counter W)"
  shows "dag_inv W' \<longleftrightarrow> dag_inv W" and "fresh_node W' a \<longleftrightarrow> fresh_node W a"
    and "pinned_copy W' a \<longleftrightarrow> pinned_copy W a"
proof -
  have uuid: "node_uuid (w_heap W') x = node_uuid (w_heap W) x" for x
    using assms(1) by (simp add: same_links_def)
  have eqs: "n_targets (w_heap W' x) = n_targets (w_heap W x)" "n_sources (w_heap W' x) = n_sources (w_heap W x)" for x
    using assms(1) by (simp_all add: same_links_def)
  have e: "edges_of (w_dag W') = edges_of (w_dag W)" by (simp add: edges_of_def fun_eq_iff assms(5))
  show p: "pinned_copy W' a \<longleftrightarrow> pinned_copy W a" for a
    by (simp add: pinned_copy_def assms eqs)
  show "fresh_node W' a \<longleftrightarrow> fresh_node W a"
    by (simp add: fresh_node_def unlinked_def assms eqs)
  show "dag_inv W' \<longleftrightarrow> dag_inv W"
    by (simp only: dag_inv_defs uuid eqs e p assms(2-))
qed

lemma updateCumWeights_same_links: "same_links h (updateCumWeights E nodes h)"
proof -
  have "same_links h (fold (updateCumWeight_one E) ns h)" for ns h
  proof (induction ns arbitrary: h)
    case (Cons a ns)
    have "same_links h (updateCumWeight_one E a h)"
      by (simp add: same_links_def updateCumWeight_one_def Let_def)
    with Cons.IH show ?case by (auto intro: same_links_trans)
  qed simp
  then show ?thesis by (simp add: updateCumWeights_def)
qed

lemma weigh_inv [simp]:
  "dag_inv (weigh_added E W) \<longleftrightarrow> dag_inv W" "fresh_node (weigh_added E W) a \<longleftrightarrow> fresh_node W a"
  "dag_inv (weigh_inserted E W) \<longleftrightarrow> dag_inv W" "fresh_node (weigh_inserted E W) a \<longleftrightarrow> fresh_node W a"
proof -
  note c = dag_inv_cong [of W "weigh_added E W"] dag_inv_cong [of W "weigh_inserted E W"]
  show "dag_inv (weigh_added E W) \<longleftrightarrow> dag_inv W" "fresh_node (weigh_added E W) a \<longleftrightarrow> fresh_node W a"
    "dag_inv (weigh_inserted E W) \<longleftrightarrow> dag_inv W" "fresh_node (weigh_inserted E W) a \<longleftrightarrow> fresh_node W a"
    by (rule c; simp add: weigh_added_def weigh_inserted_def updateCumWeights_same_links Let_def)+
qed

text \<open>A vertex that is not linked yet may be changed or created freely.\<close>

lemma dag_inv_unlinked_upd:
  assumes "dag_inv W" and "unlinked W a" and "n_targets n = []" and "n_sources n = []"
  shows "dag_inv (W\<lparr>w_heap := (w_heap W)(a := n)\<rparr>)"
    and "fresh_node W b \<or> b = a \<Longrightarrow> fresh_node (W\<lparr>w_heap := (w_heap W)(a := n)\<rparr>) b"
    and "pinned_copy W t \<Longrightarrow> pinned_copy (W\<lparr>w_heap := (w_heap W)(a := n)\<rparr>) t"
proof -
  let ?W = "W\<lparr>w_heap := (w_heap W)(a := n)\<rparr>"
  have a: "x \<in> set (dg_dag (w_dag W)) \<Longrightarrow> x \<noteq> a" "x \<in> set (dg_dag (w_dag W)) \<Longrightarrow> a \<notin> set (n_targets (w_heap W x))" for x
    using assms(2) by (auto simp: unlinked_def)
  show p: "pinned_copy W t \<Longrightarrow> pinned_copy ?W t" for t
    using assms(3) by (simp add: pinned_copy_def)
  show "fresh_node W b \<or> b = a \<Longrightarrow> fresh_node ?W b"
    using assms(2,3,4) a by (auto simp: fresh_node_def unlinked_def)
  have m: "map (\<lambda>x. nid_id (n_id (if x = a then n else w_heap W x))) xs = map (node_uuid (w_heap W)) xs"
    if "a \<notin> set xs" for xs
    using that by auto
  have nin: "a \<notin> set (dg_dag (w_dag W))" using a(1) by blast
  have "ids_ok ?W" using assms(1) a(1) by (auto simp: dag_inv_def ids_ok_def m [OF nin])
  moreover have "order_ok ?W" using assms(1) a(1) p by (fastforce simp: dag_inv_def order_ok_def)
  moreover have "edges_ok ?W" using assms(1) a by (auto simp: dag_inv_def edges_ok_def m)
  moreover have "dual_ok ?W" using assms(1) a(1) by (auto simp: dag_inv_def dual_ok_def)
  ultimately show "dag_inv ?W" using assms(1) by (simp add: dag_inv_def counter_matches_def)
qed

section \<open>Allocation\<close>

lemma dag_inv_target_bound:
  assumes "dag_inv W" and "a \<in> set (dg_dag (w_dag W))" and "t \<in> set (n_targets (w_heap W a))"
  shows "t < w_next W"
proof -
  from assms(2) obtain i where i: "i < length (dg_dag (w_dag W))" "dg_dag (w_dag W) ! i = a"
    by (auto simp: in_set_conv_nth)
  with assms(1,3) have "t \<in> set (take i (dg_dag (w_dag W))) \<or> pinned_copy W t"
    by (auto simp: dag_inv_def order_ok_def)
  then show ?thesis
    using assms(1) by (auto simp: dag_inv_def ids_ok_def pinned_copy_def dest: in_set_takeD)
qed

lemma dag_inv_next:
  assumes "dag_inv W"
  shows "dag_inv (W\<lparr>w_next := Suc (w_next W)\<rparr>)" and "unlinked (W\<lparr>w_next := Suc (w_next W)\<rparr>) (w_next W)"
    and "fresh_node W b \<Longrightarrow> fresh_node (W\<lparr>w_next := Suc (w_next W)\<rparr>) b"
    and "pinned_copy W t \<Longrightarrow> pinned_copy (W\<lparr>w_next := Suc (w_next W)\<rparr>) t"
proof -
  show p: "pinned_copy W t \<Longrightarrow> pinned_copy (W\<lparr>w_next := Suc (w_next W)\<rparr>) t" for t
    by (simp add: pinned_copy_def)
  show "dag_inv (W\<lparr>w_next := Suc (w_next W)\<rparr>)"
    using assms p by (fastforce simp: dag_inv_defs edges_of_def)
  show "unlinked (W\<lparr>w_next := Suc (w_next W)\<rparr>) (w_next W)"
    using assms dag_inv_target_bound [OF assms] by (fastforce simp: unlinked_def dag_inv_def ids_ok_def)
  show "fresh_node W b \<Longrightarrow> fresh_node (W\<lparr>w_next := Suc (w_next W)\<rparr>) b"
    by (simp add: fresh_node_def unlinked_def)
qed

lemma alloc_inv:
  assumes "dag_inv W" and "alloc n W = (a, W')" and "n_targets n = []" and "n_sources n = []"
  shows "dag_inv W'" and "fresh_node W' a" and "fresh_node W b \<Longrightarrow> fresh_node W' b \<and> b \<noteq> a"
    and "pinned_copy W t \<Longrightarrow> pinned_copy W' t" and "pinned_copy W' a"
    and "w_dag W' = w_dag W" and "w_heap W' = (w_heap W)(a := n)"
proof -
  from assms(2) have a: "a = w_next W" and
    W': "W' = (W\<lparr>w_next := Suc (w_next W)\<rparr>)\<lparr>w_heap := (w_heap (W\<lparr>w_next := Suc (w_next W)\<rparr>))(a := n)\<rparr>"
    by (auto simp: alloc_def)
  note n = dag_inv_next [OF assms(1)]
  note u = dag_inv_unlinked_upd [OF n(1) n(2) assms(3,4)]
  show "dag_inv W'" and f: "fresh_node W' a"
    using u(1,2) by (simp_all add: W' a)
  show "fresh_node W b \<Longrightarrow> fresh_node W' b \<and> b \<noteq> a"
    using u(2) n(3) by (auto simp: W' a fresh_node_def unlinked_def)
  show "pinned_copy W t \<Longrightarrow> pinned_copy W' t" using u(3) n(4) by (simp add: W' a)
  from f show "pinned_copy W' a" by (simp add: pinned_copy_def fresh_node_def unlinked_def)
  show "w_dag W' = w_dag W" "w_heap W' = (w_heap W)(a := n)" by (simp_all add: W')
qed

section \<open>Linking\<close>

definition linked :: "time \<Rightarrow> addr \<Rightarrow> addr list \<Rightarrow> heap \<Rightarrow> heap" where
  "linked now node ts h = (\<lambda>a. (h a)
     \<lparr>n_sources := n_sources (h a) @ replicate (count_list ts a) node,
      n_targets := n_targets (h a) @ (if a = node then ts else []),
      n_time := (if a = node then now else n_time (h a))\<rparr>)"

lemma linked_simps [simp]:
  "n_id (linked now node ts h a) = n_id (h a)"
  "n_targets (linked now node ts h a) = n_targets (h a) @ (if a = node then ts else [])"
  "n_sources (linked now node ts h a) = n_sources (h a) @ replicate (count_list ts a) node"
  "n_tx (linked now node ts h a) = n_tx (h a)"
  "n_valid (linked now node ts h a) = n_valid (h a)"
  "n_missingTargets (linked now node ts h a) = n_missingTargets (h a)"
  by (simp_all add: linked_def)

lemma fold_link_one:
  assumes "node \<notin> set ts"
  shows "fst (fold (link_one node) ts (h, e)) = (\<lambda>a. (h a)
     \<lparr>n_sources := n_sources (h a) @ replicate (count_list ts a) node,
      n_targets := n_targets (h a) @ (if a = node then ts else [])\<rparr>)"
  using assms
proof (induction ts arbitrary: h e)
  case Nil
  show ?case by simp
next
  case (Cons t ts)
  then have IH: "fst (fold (link_one node) ts (h', e')) = (\<lambda>a. (h' a)
     \<lparr>n_sources := n_sources (h' a) @ replicate (count_list ts a) node,
      n_targets := n_targets (h' a) @ (if a = node then ts else [])\<rparr>)" for h' e'
    by simp
  have "link_one node t (h, e) =
      (h(t := (h t)\<lparr>n_sources := n_sources (h t) @ [node]\<rparr>, node := (h node)\<lparr>n_targets := n_targets (h node) @ [t]\<rparr>),
       e @ [h t])"
    using Cons.prems by (simp add: link_one_def Let_def)
  then show ?case
    using Cons.prems by (auto simp: IH fun_eq_iff)
qed

lemma addToDag_success:
  assumes "addToDag E node (Some ts) W = Some (None, W')" and "node \<notin> set ts"
  obtains wc m where
    "UpdateBalanceIfValid (de_ext E) (ns_pins (w_node W)) (w_heap W node) (ns_walletCache (w_node W)) = Some (True, wc)"
    and "W' = W\<lparr>w_node := (w_node W)\<lparr>ns_walletCache := wc\<rparr>,
               w_heap := linked (pe_now (de_pin E)) node ts (w_heap W),
               w_dag := (w_dag W)
                 \<lparr>dg_dag := dg_dag (w_dag W) @ [node],
                  dg_vertices := (dg_vertices (w_dag W))(node_uuid (w_heap W) node \<mapsto> node),
                  dg_edges := (dg_edges (w_dag W))(node_uuid (w_heap W) node \<mapsto>
                    edges_of (w_dag W) (node_uuid (w_heap W) node) @ map (node_uuid (w_heap W)) ts),
                  dg_txCh := m\<rparr>,
               w_counter := counter_add (linked (pe_now (de_pin E)) node ts (w_heap W)) node (w_counter W)\<rparr>"
proof -
  obtain h1 e where f: "fold (link_one node) ts (w_heap W, []) = (h1, e)" by fastforce
  have h1: "h1(node := (h1 node)\<lparr>n_time := pe_now (de_pin E)\<rparr>) = linked (pe_now (de_pin E)) node ts (w_heap W)"
    using fold_link_one [OF assms(2), of "w_heap W" "[]"] f by (auto simp: linked_def fun_eq_iff)
  have i: "n_id (h1 a) = n_id (w_heap W a)" for a
    using fold_link_one [OF assms(2), of "w_heap W" "[]"] f by simp
  have ii: "map (\<lambda>a. nid_id (n_id (if a = node then (h1 node)\<lparr>n_time := t\<rparr> else h1 a))) xs = map (node_uuid (w_heap W)) xs" for t xs
    by (simp add: i)
  have e: "edges_of (d\<lparr>dg_dag := x\<rparr>) = edges_of d" for d x by (simp add: edges_of_def fun_eq_iff)
  show ?thesis
    using assms(1) f
    by (auto simp: addToDag_def Let_def h1 i ii lookupCacheUpdate_def send_tx_def e
        split: option.split_asm prod.split_asm if_split_asm intro!: that)
qed
section \<open>Attaching a vertex\<close>

lemma counter_add_finite: "finite (dom (cc_tips c)) \<Longrightarrow> finite (dom (cc_tips (counter_add h v c)))"
proof -
  have f: "finite (dom (cc_tips (approve_one x v c)))" if "finite (dom (cc_tips c))" for x v c
    using that by (simp add: approve_one_def Let_def)
  have "finite (dom (cc_tips (fold (approve_one x) ts c)))" if "finite (dom (cc_tips c))" for x ts c
    using that by (induction ts arbitrary: c) (auto intro: f)
  then show "finite (dom (cc_tips c)) \<Longrightarrow> ?thesis" by (simp add: counter_add_fold)
qed

text \<open>What changes when the vertex \<open>node\<close> with targets \<open>ts\<close> is attached at the end of the DAG.\<close>

definition attached :: "addr \<Rightarrow> addr list \<Rightarrow> World \<Rightarrow> World \<Rightarrow> bool" where
  "attached node ts W W' \<longleftrightarrow>
     w_next W' = w_next W \<and>
     (\<forall>a. n_id (w_heap W' a) = n_id (w_heap W a) \<and>
          n_targets (w_heap W' a) = n_targets (w_heap W a) @ (if a = node then ts else []) \<and>
          n_sources (w_heap W' a) = n_sources (w_heap W a) @ replicate (count_list ts a) node) \<and>
     dg_dag (w_dag W') = dg_dag (w_dag W) @ [node] \<and>
     dg_vertices (w_dag W') = (dg_vertices (w_dag W))(node_uuid (w_heap W) node \<mapsto> node) \<and>
     dg_edges (w_dag W') = (dg_edges (w_dag W))(node_uuid (w_heap W) node \<mapsto>
        edges_of (w_dag W) (node_uuid (w_heap W) node) @ map (node_uuid (w_heap W)) ts) \<and>
     cc_cache (w_counter W') \<subseteq>\<^sub>m (cc_cache (w_counter W))(node_uuid (w_heap W) node \<mapsto> node) \<and>
     finite (dom (cc_tips (w_counter W')))"

definition attachable :: "World \<Rightarrow> addr \<Rightarrow> addr list \<Rightarrow> bool" where
  "attachable W node ts \<longleftrightarrow>
     fresh_node W node \<and> dg_vertices (w_dag W) (node_uuid (w_heap W) node) = None \<and>
     node \<notin> set ts \<and> (\<forall>t \<in> set ts. t \<in> set (dg_dag (w_dag W)) \<or> pinned_copy W t)"

lemma attached_fresh:
  assumes "attached node ts W W'" and "attachable W node ts" and "fresh_node W b" and "b \<noteq> node" and "b \<notin> set ts"
  shows "fresh_node W' b"
  using assms by (auto simp: attached_def attachable_def fresh_node_def unlinked_def)

lemma ids_ok_vertex: "ids_ok W \<Longrightarrow> dg_vertices (w_dag W) x = Some a \<longleftrightarrow> a \<in> set (dg_dag (w_dag W)) \<and> node_uuid (w_heap W) a = x"
  by (simp add: ids_ok_def)

lemma ids_ok_absent:
  assumes "ids_ok W" and "dg_vertices (w_dag W) x = None" and "a \<in> set (dg_dag (w_dag W))"
  shows "node_uuid (w_heap W) a \<noteq> x"
  using ids_ok_vertex [OF assms(1), of x a] assms(2,3) by auto

lemma attached_ids:
  assumes a: "attached node ts W W'" and "attachable W node ts" and "ids_ok W"
  shows "ids_ok W'"
proof -
  let ?x = "node_uuid (w_heap W) node"
  have n: "node < w_next W" "dg_vertices (w_dag W) ?x = None" "node \<notin> set (dg_dag (w_dag W))"
    using assms(2) by (auto simp: attachable_def fresh_node_def unlinked_def)
  have u: "node_uuid (w_heap W) b \<noteq> ?x" if "b \<in> set (dg_dag (w_dag W))" for b
    by (rule ids_ok_absent [OF assms(3) n(2) that])
  have ids: "n_id (w_heap W' b) = n_id (w_heap W b)" for b using a by (simp add: attached_def)
  have "dg_vertices (w_dag W') y = Some b \<longleftrightarrow> b \<in> set (dg_dag (w_dag W) @ [node]) \<and> node_uuid (w_heap W) b = y" for y b
    using a ids_ok_vertex [OF assms(3), of y b] u n by (auto simp: attached_def)
  moreover have "distinct (map (node_uuid (w_heap W)) (dg_dag (w_dag W) @ [node]))"
  proof -
    have "?x \<notin> node_uuid (w_heap W) ` set (dg_dag (w_dag W))"
    proof
      assume "?x \<in> node_uuid (w_heap W) ` set (dg_dag (w_dag W))"
      then obtain b where "b \<in> set (dg_dag (w_dag W))" "?x = node_uuid (w_heap W) b" by (rule imageE)
      with u [of b] show False by simp
    qed
    then show ?thesis using assms(3) by (simp add: ids_ok_def)
  qed
  ultimately show ?thesis
    using a assms(3) n(1) by (simp add: ids_ok_def ids attached_def)
qed

lemma attached_order:
  assumes a: "attached node ts W W'" and "attachable W node ts" and "order_ok W"
  shows "order_ok W'"
proof -
  let ?d = "dg_dag (w_dag W)"
  have n: "node \<notin> set ?d" "\<forall>b \<in> set ?d. node \<notin> set (n_targets (w_heap W b))" "n_targets (w_heap W node) = []"
    and ts: "\<forall>t \<in> set ts. t \<in> set ?d \<or> pinned_copy W t" and nts: "node \<notin> set ts"
    using assms(2) by (auto simp: attachable_def fresh_node_def unlinked_def)
  have p: "pinned_copy W' t" if "pinned_copy W t" "t \<noteq> node" for t
    using a that by (auto simp: attached_def pinned_copy_def)
  have "t \<in> set (take i (?d @ [node])) \<or> pinned_copy W' t"
    if i: "i < length (?d @ [node])" and t: "t \<in> set (n_targets (w_heap W' ((?d @ [node]) ! i)))" for i t
  proof (cases "i < length ?d")
    case True
    then have di: "?d ! i \<in> set ?d" by simp
    with n(1) have "?d ! i \<noteq> node" by blast
    then have t': "t \<in> set (n_targets (w_heap W (?d ! i)))"
      using t a True by (auto simp: attached_def nth_append)
    with n(2) di have "t \<noteq> node" by blast
    with t' True assms(3) p show ?thesis by (auto simp: order_ok_def)
  next
    case False
    with i have "i = length ?d" by simp
    then have "t \<in> set ts" using t a n(3) by (simp add: attached_def)
    with ts nts p \<open>i = length ?d\<close> show ?thesis by auto
  qed
  then show ?thesis using a by (simp add: order_ok_def attached_def)
qed

lemma attached_edges:
  assumes a: "attached node ts W W'" and "attachable W node ts" and "ids_ok W" and "edges_ok W"
  shows "edges_ok W'"
proof -
  let ?x = "node_uuid (w_heap W) node"
  have n: "node \<notin> set (dg_dag (w_dag W))" "n_targets (w_heap W node) = []"
    and x: "dg_vertices (w_dag W) ?x = None"
    using assms(2) by (auto simp: attachable_def fresh_node_def unlinked_def)
  have "dg_edges (w_dag W) ?x = None"
    using x assms(4) by (auto simp: edges_ok_def dom_def)
  then have e: "edges_of (w_dag W') y = (if y = ?x then map (node_uuid (w_heap W)) ts else edges_of (w_dag W) y)" for y
    using a by (auto simp: attached_def edges_of_def)
  have u: "node_uuid (w_heap W) b \<noteq> ?x" if "b \<in> set (dg_dag (w_dag W))" for b
    by (rule ids_ok_absent [OF assms(3) x that])
  have ids: "n_id (w_heap W' b) = n_id (w_heap W b)" for b using a by (simp add: attached_def)
  have "edges_of (w_dag W') (node_uuid (w_heap W') b) = map (node_uuid (w_heap W')) (n_targets (w_heap W' b))"
    if "b \<in> set (dg_dag (w_dag W) @ [node])" for b
  proof (cases "b = node")
    case True
    then show ?thesis using a n(2) by (simp add: e ids attached_def)
  next
    case False
    then have "b \<in> set (dg_dag (w_dag W))" using that by simp
    with u False show ?thesis using a assms(4) by (simp add: e ids attached_def edges_ok_def)
  qed
  moreover have "dom (dg_edges (w_dag W')) \<subseteq> dom (dg_vertices (w_dag W'))"
    using a assms(4) by (auto simp: attached_def edges_ok_def)
  ultimately show ?thesis using a by (simp add: edges_ok_def attached_def)
qed

lemma count_list_replicate: "count_list (replicate n x) y = (if x = y then n else 0)"
  by (induction n) auto

lemma attached_dual:
  assumes a: "attached node ts W W'" and "attachable W node ts" and "dual_ok W"
  shows "dual_ok W'"
proof -
  let ?d = "dg_dag (w_dag W)"
  have n: "node \<notin> set ?d" "\<forall>b \<in> set ?d. node \<notin> set (n_targets (w_heap W b))" "n_targets (w_heap W node) = []"
    "n_sources (w_heap W node) = []" and nts: "node \<notin> set ts"
    using assms(2) by (auto simp: attachable_def fresh_node_def unlinked_def)
  have z: "count_list (n_targets (w_heap W b)) node = 0" if "b \<in> set ?d" for b
    using n(2) that by (simp add: count_list_0_iff)
  have zt: "count_list ts node = 0" using nts by (simp add: count_list_0_iff)
  have old: "count_list (n_sources (w_heap W v)) b = (if b \<in> set ?d then count_list (n_targets (w_heap W b)) v else 0)"
    if "v \<in> set ?d" for v b using assms(3) that by (simp add: dual_ok_def)
  have "count_list (n_sources (w_heap W' v)) b =
     (if b \<in> set ?d \<or> b = node then count_list (n_targets (w_heap W' b)) v else 0)"
    if v: "v \<in> set ?d \<or> v = node" for v b
  proof (cases "v = node")
    case True
    then show ?thesis using a n z zt by (auto simp: attached_def)
  next
    case False
    with v have "v \<in> set ?d" by simp
    then show ?thesis using a n old by (auto simp: attached_def count_list_replicate)
  qed
  then show ?thesis using a by (auto simp: dual_ok_def attached_def)
qed

lemma attached_inv:
  assumes "attached node ts W W'" and "attachable W node ts" and "dag_inv W"
  shows "dag_inv W'"
proof -
  have "counter_matches W'"
    using assms by (auto simp: attached_def dag_inv_def counter_matches_def intro: map_le_trans map_le_upd)
  then show ?thesis
    using assms attached_ids attached_order attached_edges attached_dual by (simp add: dag_inv_def)
qed

lemma addToDag_attached:
  assumes "addToDag E node (Some ts) W = Some (None, W')" and "node \<notin> set ts" and "dag_inv W"
  shows "attached node ts W W'"
proof -
  obtain wc m where W': "W' = W\<lparr>w_node := (w_node W)\<lparr>ns_walletCache := wc\<rparr>,
               w_heap := linked (pe_now (de_pin E)) node ts (w_heap W),
               w_dag := (w_dag W)
                 \<lparr>dg_dag := dg_dag (w_dag W) @ [node],
                  dg_vertices := (dg_vertices (w_dag W))(node_uuid (w_heap W) node \<mapsto> node),
                  dg_edges := (dg_edges (w_dag W))(node_uuid (w_heap W) node \<mapsto>
                    edges_of (w_dag W) (node_uuid (w_heap W) node) @ map (node_uuid (w_heap W)) ts),
                  dg_txCh := m\<rparr>,
               w_counter := counter_add (linked (pe_now (de_pin E)) node ts (w_heap W)) node (w_counter W)\<rparr>"
    by (rule addToDag_success [OF assms(1,2)])
  have "finite (dom (cc_tips (w_counter W)))" using assms(3) by (simp add: dag_inv_def counter_matches_def)
  then show ?thesis by (simp add: attached_def W' counter_add_finite map_le_refl)
qed

lemma addToDag_refused:
  assumes "addToDag E node (Some ts) W = Some (Some e, W')"
  shows "\<exists>wc. W' = W\<lparr>w_node := (w_node W)\<lparr>ns_walletCache := wc\<rparr>\<rparr> \<and> e = InvalidBalance"
  using assms by (auto simp: addToDag_def Let_def split: option.splits prod.splits if_splits)

lemma wallet_inv [simp]:
  "dag_inv (W\<lparr>w_node := ns\<rparr>) \<longleftrightarrow> dag_inv W" "fresh_node (W\<lparr>w_node := ns\<rparr>) b \<longleftrightarrow> fresh_node W b"
  "pinned_copy (W\<lparr>w_node := ns\<rparr>) b \<longleftrightarrow> pinned_copy W b"
  by (rule dag_inv_cong; simp)+

lemma addToDag_inv:
  assumes "addToDag E node (Some ts) W = Some (r, W')" and "attachable W node ts" and "dag_inv W"
  shows "dag_inv W' \<and> (\<forall>b. fresh_node W b \<longrightarrow> b \<noteq> node \<longrightarrow> b \<notin> set ts \<longrightarrow> fresh_node W' b)"
proof (cases r)
  case None
  have "attached node ts W W'"
    using assms None by (intro addToDag_attached) (auto simp: attachable_def)
  then show ?thesis using attached_inv attached_fresh assms(2,3) by blast
next
  case (Some e)
  then show ?thesis using addToDag_refused assms(1,3) by fastforce
qed

section \<open>Candidates\<close>

definition env_ok :: "dag_env \<Rightarrow> bool" where
  "env_ok E \<longleftrightarrow> rand_ok (de_sel E) \<and> range_order (de_ord E)"

lemma getTips_facts:
  assumes "dag_inv W" and "range_order ord"
  shows "\<forall>a \<in> set (getTips ord (w_counter W)). a \<in> set (dg_dag (w_dag W)) \<and> isTip (w_counter W) (node_uuid (w_heap W) a)"
    and "distinct (map (node_uuid (w_heap W)) (getTips ord (w_counter W)))"
proof -
  let ?c = "w_counter W"
  let ?xs = "filter (\<lambda>x. cc_cache ?c x \<noteq> None) (ord (dom (cc_tips ?c)))"
  have fin: "finite (dom (cc_tips ?c))" and le: "cc_cache ?c \<subseteq>\<^sub>m dg_vertices (w_dag W)" and ids: "ids_ok W"
    using assms(1) by (simp_all add: dag_inv_def counter_matches_def)
  have tips: "getTips ord ?c = map (\<lambda>x. the (cc_cache ?c x)) ?xs"
    by (simp add: getTips_def map_filter_def o_def)
  have cached: "the (cc_cache ?c x) \<in> set (dg_dag (w_dag W)) \<and> node_uuid (w_heap W) (the (cc_cache ?c x)) = x"
    if "x \<in> set ?xs" for x
  proof -
    from that obtain a where a: "cc_cache ?c x = Some a" by auto
    with le have "dg_vertices (w_dag W) x = Some a" by (metis domI map_le_def)
    with a ids_ok_vertex [OF ids] show ?thesis by simp
  qed
  have "map (node_uuid (w_heap W)) (getTips ord ?c) = ?xs"
    unfolding tips map_map by (rule map_idI) (simp only: o_def cached)
  then show "distinct (map (node_uuid (w_heap W)) (getTips ord ?c))"
    using range_order_distinct [OF assms(2) fin] by simp
  show "\<forall>a \<in> set (getTips ord ?c). a \<in> set (dg_dag (w_dag W)) \<and> isTip ?c (node_uuid (w_heap W) a)"
    using cached range_order_set [OF assms(2) fin] by (auto simp: tips isTip_def)
qed

lemma mcmc_candidates:
  assumes "rand_ok S" and "\<forall>a \<in> set nodes. isTip c (node_uuid h a)" and "distinct (map (node_uuid h) nodes)"
  obtains ts k' where "weightedMcmc S c h nodes links k = Some (map Some ts, h, k')" and "set ts \<subseteq> set nodes" and "length ts \<le> 2"
proof (cases "nodes = [] \<or> length nodes = 2")
  case True
  then show ?thesis by (intro that [of nodes k]) (auto simp: weightedMcmc_def)
next
  case False
  define i where "i = te_intn S k (length nodes)"
  define rest where "rest = (if length nodes = 1 then nodes else take i nodes @ drop (Suc i) nodes)"
  have m: "weightedMcmc S c h nodes links k =
      Some (map Some [nodes ! i, rest ! te_intn S (Suc k) (length rest)], h, k + 2)"
    using weightedMcmc_tips [OF assms(1) _ _ assms(2,3) i_def rest_def] False by simp
  have i: "i < length nodes" using assms(1) False by (simp add: rand_ok_def i_def)
  have "rest \<noteq> []" "set rest \<subseteq> set nodes"
    using False i by (cases "length nodes = 1"; auto simp: rest_def dest: in_set_takeD in_set_dropD)+
  then have "rest ! te_intn S (Suc k) (length rest) \<in> set nodes"
    using assms(1) nth_mem by (fastforce simp: rand_ok_def)
  with i have "set [nodes ! i, rest ! te_intn S (Suc k) (length rest)] \<subseteq> set nodes" by simp
  with m show ?thesis by (rule that) simp
qed

lemma draw_other_value:
  assumes "draw_other S n c1 k = Some y"
  shows "\<exists>m. fst y = te_intn S m n"
  by (rule draw_other.raw_induct [OF _ assms]) (auto simp: Let_def split: if_splits)

lemma random_tips_candidates:
  assumes "rand_ok S" and "random_tips S nodes k = Some (tips, k')"
  shows "\<exists>ts. tips = map Some ts \<and> set ts \<subseteq> set nodes \<and> length ts \<le> 2"
proof -
  have r: "nodes \<noteq> [] \<Longrightarrow> nodes ! te_intn S m (length nodes) \<in> set nodes" for m
    using assms(1) by (simp add: rand_ok_def)
  show ?thesis
  proof (cases "1 < length nodes")
    case True
    then obtain c2 where d: "draw_other S (length nodes) (te_intn S k (length nodes)) (Suc k) = Some (c2, k')"
      and t: "tips = map Some [nodes ! te_intn S k (length nodes), nodes ! c2]"
      using assms(2) by (auto simp: random_tips_def Let_def split: if_splits)
    have "nodes \<noteq> []" using True by auto
    with draw_other_value [OF d] r t show ?thesis by fastforce
  next
    case False
    then have "nodes \<noteq> []" "tips = map Some [nodes ! te_intn S k (length nodes)]"
      using assms(2) by (auto simp: random_tips_def Let_def split: if_splits)
    with r show ?thesis by (intro exI [of _ "[nodes ! te_intn S k (length nodes)]"]) simp
  qed
qed

lemma select_tips_inv:
  assumes "dag_inv W" and "env_ok E" and "select_tips E node W = Some (tips, W1)"
  shows "\<exists>ts k. tips = map Some ts \<and> W1 = W\<lparr>w_draws := k\<rparr> \<and> set ts \<subseteq> set (dg_dag (w_dag W)) \<and> length ts \<le> 2"
proof -
  let ?cs = "getTips (de_ord E) (w_counter W)" and ?S = "de_sel E"
  let ?sh = "shuffle_nodes (te_perm ?S (w_draws W) (length ?cs)) ?cs"
  have S: "rand_ok ?S" and ord: "range_order (de_ord E)" using assms(2) by (simp_all add: env_ok_def)
  note cs = getTips_facts [OF assms(1) ord]
  have m: "mset ?sh = mset ?cs" using S by (simp add: shuffle_nodes_mset rand_ok_def)
  then have set: "set ?sh = set ?cs" by (metis set_mset_mset)
  have "mset (map (node_uuid (w_heap W)) ?sh) = mset (map (node_uuid (w_heap W)) ?cs)" using m by simp
  then have dist: "distinct (map (node_uuid (w_heap W)) ?sh)"
    using cs(2) mset_eq_imp_distinct_iff by blast
  have sub: "set ts \<subseteq> set (dg_dag (w_dag W))" if "set ts \<subseteq> set ?sh" for ts
    using that cs(1) set by auto
  obtain ts k' where mc: "weightedMcmc ?S (w_counter W) (w_heap W) ?sh (candidate_links (w_heap W) ?cs) (Suc (w_draws W)) =
      Some (map Some ts, w_heap W, k')" "set ts \<subseteq> set ?sh" "length ts \<le> 2"
    by (rule mcmc_candidates [OF S _ dist]) (use cs(1) set in auto)
  show ?thesis
  proof (cases "GetTransactionType (n_tx (w_heap W node)) \<noteq> PAYMENT")
    case True
    then show ?thesis
      using assms(3) by (intro exI [of _ "[]"] exI [of _ "w_draws W"]) (simp add: select_tips_def Let_def)
  next
    case pay: False
    then obtain g rest where d: "dg_dag (w_dag W) = g # rest"
      using assms(3) by (auto simp: select_tips_def Let_def split: list.splits)
    consider (wide) "length rest < unat (dg_width (w_dag W))" |
      (mcmc) "\<not> length rest < unat (dg_width (w_dag W))" "te_Algorithm ?S \<noteq> DAG_ALGO_RANDOM" |
      (random) "\<not> length rest < unat (dg_width (w_dag W))" "te_Algorithm ?S = DAG_ALGO_RANDOM"
      by blast
    then show ?thesis
    proof cases
      case wide
      then have "tips = map Some [g]" "W1 = W" using assms(3) pay d by (simp_all add: select_tips_def Let_def)
      then show ?thesis using d by (intro exI [of _ "[g]"] exI [of _ "w_draws W"]) simp
    next
      case mcmc
      then have "tips = map Some ts" "W1 = W\<lparr>w_draws := k'\<rparr>"
        using assms(3) pay d mc(1) by (simp_all add: select_tips_def Let_def)
      then show ?thesis using mc(3) sub [OF mc(2)] by blast
    next
      case random
      then obtain k2 where "random_tips ?S ?sh (Suc (w_draws W)) = Some (tips, k2)" "W1 = W\<lparr>w_draws := k2\<rparr>"
        using assms(3) pay d by (auto simp: select_tips_def Let_def)
      then show ?thesis using random_tips_candidates [OF S] sub by blast
    qed
  qed
qed

section \<open>The operations keep the invariant\<close>

lemma tips_loop_facts:
  "tips_loop E h node (map Some ts) td0 = Some td \<Longrightarrow>
     td_ids td = td_ids td0 @ map (node_uuid h) ts \<and>
     td_links td = td_links td0 @ map (\<lambda>t. \<lparr>link_source = node, link_target = t\<rparr>) ts"
  by (induction ts arbitrary: td0) (auto split: option.splits)

text \<open>The two ways through \<^verbatim>\<open>AddTxDag\<close>: the vertex is dropped, or it is linked to one or two tips.\<close>

lemma AddTxDag_cases:
  assumes "dag_inv W" and "env_ok E" and "AddTxDag E node W = Some (r, W')"
  obtains (dropped) k where "r = Inr ([], Map.empty)" and "W' = weigh_added E (W\<lparr>w_draws := k\<rparr>)"
  | (linked) ts k hg sigs W2 res W3 where "ts \<noteq> []" and "length ts \<le> 2" and "set ts \<subseteq> set (dg_dag (w_dag W))"
      and "W2 = W\<lparr>w_draws := k, w_heap := (w_heap W)(node := (w_heap W node)\<lparr>n_height := hg\<rparr>),
                 w_dag := (w_dag W)\<lparr>dg_links := dg_links (w_dag W) @
                   map (\<lambda>t. \<lparr>link_source = node, link_target = t\<rparr>) ts\<rparr>\<rparr>"
      and "addToDag E node (Some ts) W2 = Some (res, W3)"
      and "res = None \<and> r = Inr (map (node_uuid (w_heap W)) ts, sigs) \<and> W' = weigh_added E W3 \<or>
           res \<noteq> None \<and> r = Inl (the res) \<and> W' = W3"
proof -
  obtain tips W1 where st: "select_tips E node W = Some (tips, W1)"
    using assms(3) by (auto simp: AddTxDag_def split: option.splits)
  obtain ts k where ts: "tips = map Some ts" "W1 = W\<lparr>w_draws := k\<rparr>" "set ts \<subseteq> set (dg_dag (w_dag W))" "length ts \<le> 2"
    using select_tips_inv [OF assms(1,2) st] by blast
  let ?td0 = "\<lparr>td_ids = [], td_signatures = Map.empty, td_links = [], td_height = zeroHeight\<rparr>"
  show ?thesis
  proof (cases "approveTx E W1 tips = Some False")
    case True
    then show ?thesis using assms(3) st ts(2) by (intro dropped [of k]) (auto simp: AddTxDag_def)
  next
    case False
    then obtain td where ap: "approveTx E W1 tips = Some True"
      and td: "tips_loop E (w_heap W1) node tips ?td0 = Some td"
      using assms(3) st by (auto simp: AddTxDag_def split: option.splits bool.splits)
    have "ts \<noteq> []" using ap ts(1) by (auto simp: approveTx_def)
    note f = tips_loop_facts [OF td [unfolded ts(1)]]
    define W2 where "W2 = W\<lparr>w_draws := k, w_heap := (w_heap W)(node := (w_heap W node)\<lparr>n_height := td_height td\<rparr>),
                 w_dag := (w_dag W)\<lparr>dg_links := dg_links (w_dag W) @
                   map (\<lambda>t. \<lparr>link_source = node, link_target = t\<rparr>) ts\<rparr>\<rparr>"
    have "AddTxDag E node W =
       (case addToDag E node (Some ts) W2 of
          None \<Rightarrow> None
        | Some (Some e, W3) \<Rightarrow> Some (Inl e, W3)
        | Some (None, W3) \<Rightarrow> Some (Inr (map (node_uuid (w_heap W)) ts, td_signatures td), weigh_added E W3))"
      using st ap td f by (simp add: AddTxDag_def ts(1,2) W2_def Let_def split: option.split)
    then obtain res W3 where a: "addToDag E node (Some ts) W2 = Some (res, W3)"
      "res = None \<and> r = Inr (map (node_uuid (w_heap W)) ts, td_signatures td) \<and> W' = weigh_added E W3 \<or>
       res \<noteq> None \<and> r = Inl (the res) \<and> W' = W3"
      using assms(3) by (auto split: option.splits)
    show ?thesis by (rule linked [OF \<open>ts \<noteq> []\<close> ts(4,3) W2_def a])
  qed
qed

lemma AddTxDag_inv:
  assumes "dag_inv W" and "env_ok E" and "AddTxDag E node W = Some (r, W')" and "fresh_node W node"
    and "dg_vertices (w_dag W) (node_uuid (w_heap W) node) = None"
  shows "dag_inv W' \<and> (\<forall>b. fresh_node W b \<longrightarrow> b \<noteq> node \<longrightarrow> fresh_node W' b)"
  using assms(1-3)
proof (cases rule: AddTxDag_cases)
  case (dropped k)
  have "dag_inv (W\<lparr>w_draws := k\<rparr>) \<longleftrightarrow> dag_inv W" "fresh_node (W\<lparr>w_draws := k\<rparr>) b \<longleftrightarrow> fresh_node W b" for b
    by (rule dag_inv_cong; simp)+
  with dropped assms(1) show ?thesis by simp
next
  case (linked ts k hg sigs W2 res W3)
  have same: "same_links (w_heap W) (w_heap W2)" by (simp add: linked(4) same_links_def)
  have c: "dag_inv W2 \<longleftrightarrow> dag_inv W" "fresh_node W2 b \<longleftrightarrow> fresh_node W b" "pinned_copy W2 b \<longleftrightarrow> pinned_copy W b" for b
    by (rule dag_inv_cong [OF same]; simp add: linked(4))+
  have "attachable W2 node ts"
    using assms(4,5) linked(3) by (auto simp: attachable_def c linked(4) fresh_node_def unlinked_def)
  from addToDag_inv [OF linked(5) this] have i: "dag_inv W3"
    "\<forall>b. fresh_node W b \<longrightarrow> b \<noteq> node \<longrightarrow> b \<notin> set ts \<longrightarrow> fresh_node W3 b"
    using assms(1) c by auto
  have "b \<notin> set ts" if "fresh_node W b" for b
    using that linked(3) by (auto simp: fresh_node_def unlinked_def)
  with i linked(6) show ?thesis by auto
qed

lemma Pins_getById_node:
  assumes "Pins_getById E F t0 pins x = Some (Some n)"
  shows "n_targets n = []" and "n_sources n = []" and "ext_ok E \<Longrightarrow> nid_id (n_id n) = x"
proof -
  have found: "getById_loop idb ps = Some p \<Longrightarrow> pbn_Id (pbn_NodeId p) = idb" for idb ps p
    by (induction ps) (auto split: option.splits dest: goFind_SomeD(3))
  obtain p where p: "getById_loop (uuid_MarshalBinary E x) (List.rev pins) = Some p"
    "Node_FromPbNode E F p (zeroNode F t0) = Some n"
    using assms by (auto simp: Pins_getById_def split: option.splits)
  then show "n_targets n = []" "n_sources n = []"
    by (auto simp: Node_FromPbNode_def zeroNode_def)
  show "ext_ok E \<Longrightarrow> nid_id (n_id n) = x"
    using p found [OF p(1)] by (auto simp: Node_FromPbNode_def ext_ok_def uuid_assign_def)
qed

lemma candidates_loop_inv:
  assumes "candidates_loop E ids (cs0, nf0, W) = Some (cs, nf, W')" and "dag_inv W"
    and "\<forall>t \<in> set cs0. t \<in> set (dg_dag (w_dag W)) \<or> pinned_copy W t"
  shows "dag_inv W' \<and> w_dag W' = w_dag W \<and> w_node W' = w_node W \<and>
     (\<forall>t \<in> set cs. t \<in> set (dg_dag (w_dag W')) \<or> pinned_copy W' t) \<and>
     (\<forall>b. fresh_node W b \<and> b \<notin> set cs0 \<longrightarrow> fresh_node W' b \<and> b \<notin> set cs \<and> w_heap W' b = w_heap W b)"
  using assms
proof (induction ids arbitrary: cs0 nf0 W)
  case Nil
  then show ?case by simp
next
  case (Cons x ids)
  show ?case
  proof (cases "dg_vertices (w_dag W) x")
    case (Some n)
    then have n: "n \<in> set (dg_dag (w_dag W))"
      using ids_ok_vertex Cons.prems(2) by (simp add: dag_inv_def)
    have "candidates_loop E ids (cs0 @ [n], nf0, W) = Some (cs, nf, W')"
      using Cons.prems(1) Some by (simp add: Dag_getById_def)
    from Cons.IH [OF this Cons.prems(2)] Cons.prems(3) n
    show ?thesis by (auto simp: fresh_node_def unlinked_def)
  next
    case None
    then obtain pn where pn: "Pins_getById (de_ext E) (pe_flops (de_pin E)) (de_nilTx E) (ns_pins (w_node W)) x = Some pn"
      using Cons.prems(1) by (auto simp: Dag_getById_def split: option.splits)
    show ?thesis
    proof (cases pn)
      case none: None
      have "candidates_loop E ids (cs0, nf0 @ [x], W) = Some (cs, nf, W')"
        using Cons.prems(1) None pn none by (simp add: Dag_getById_def)
      from Cons.IH [OF this Cons.prems(2,3)] show ?thesis .
    next
      case (Some n)
      obtain a W1 where al: "alloc n W = (a, W1)" by fastforce
      have "candidates_loop E ids (cs0 @ [a], nf0, W1) = Some (cs, nf, W')"
        using Cons.prems(1) None pn Some al by (simp add: Dag_getById_def)
      note i = alloc_inv [OF Cons.prems(2) al Pins_getById_node(1,2) [OF pn [unfolded Some]]]
      have "\<forall>t \<in> set (cs0 @ [a]). t \<in> set (dg_dag (w_dag W1)) \<or> pinned_copy W1 t"
        using Cons.prems(3) i(4,5,6) by auto
      from Cons.IH [OF \<open>candidates_loop E ids (cs0 @ [a], nf0, W1) = Some (cs, nf, W')\<close> i(1) this]
      show ?thesis using i(3,6,7) al by (auto simp: alloc_def)
    qed
  qed
qed

lemma find_collision_other:
  assumes "find_collision E W v cs major minor = (ma, mi, Some n)"
  shows "node_uuid (w_heap W) n \<noteq> node_uuid (w_heap W) v"
proof -
  let ?h = "w_heap W"
  define P where "P st \<longleftrightarrow> (\<forall>m. snd (snd st) = Some m \<longrightarrow> node_uuid ?h m \<noteq> node_uuid ?h v)"
    for st :: "64 word \<times> 32 word \<times> addr option"
  have step: "P st \<Longrightarrow> P (collision_one ?h v a st)" for a st
    by (simp add: P_def collision_one_def Let_def)
  have "P st \<Longrightarrow> P (fold (collision_one ?h v) as st)" for as st
    by (induction as arbitrary: st) (simp_all add: step)
  moreover have "P (major, minor, None)" by (simp add: P_def)
  ultimately have "P (find_collision E W v cs major minor)" by (simp add: find_collision_def)
  with assms show ?thesis by (simp add: P_def)
qed

text \<open>The branch after a version collision is never taken: the collision is always an error.\<close>

lemma InsertTxDag_cases:
  assumes "InsertTxDag E v x M m ids W = Some (r, W')"
  obtains (present) "dg_vertices (w_dag W) x \<noteq> None" and "r = None" and "W' = stamp_vertex E v x M m W"
  | (incomplete) cs nf W2 res where "dg_vertices (w_dag W) x = None"
      and "candidates_loop E ids ([], [], stamp_vertex E v x M m W) = Some (cs, nf, W2)"
      and "length cs \<noteq> length ids" and "addToDag E v (Some cs) (note_missing E v nf W2) = Some (res, W')"
      and "r = Some (if res = None then MissingSources x nf else FailedInsert x)"
  | (conflict) cs nf where "dg_vertices (w_dag W) x = None"
      and "candidates_loop E ids ([], [], stamp_vertex E v x M m W) = Some (cs, nf, W')"
      and "r = Some (VersionConflict (node_uuid (w_heap W') v))"
  | (complete) cs nf W2 res W3 where "dg_vertices (w_dag W) x = None"
      and "candidates_loop E ids ([], [], stamp_vertex E v x M m W) = Some (cs, nf, W2)"
      and "length cs = length ids" and "addToDag E v (Some cs) W2 = Some (res, W3)" and "r = res"
      and "W' = (if res = None
             then weigh_inserted E (W3\<lparr>w_dag := (w_dag W3)\<lparr>dg_links :=
                    dg_links (w_dag W3) @ map (\<lambda>t. \<lparr>link_source = v, link_target = t\<rparr>) cs\<rparr>\<rparr>)
             else W3)"
proof -
  let ?W1 = "stamp_vertex E v x M m W"
  have d: "w_dag ?W1 = w_dag W" by (simp add: stamp_vertex_def Let_def)
  show ?thesis
  proof (cases "dg_vertices (w_dag W) x")
    case (Some a)
    then show ?thesis using assms d by (intro present) (auto simp: InsertTxDag_def Let_def Dag_getById_def)
  next
    case None
    then obtain cs nf W2 where c: "candidates_loop E ids ([], [], ?W1) = Some (cs, nf, W2)"
      using assms d by (auto simp: InsertTxDag_def Let_def Dag_getById_def split: option.splits)
    note i = assms [unfolded InsertTxDag_def Let_def Dag_getById_def d None c]
    show ?thesis
    proof (cases "length cs = length ids")
      case False
      then show ?thesis
        using i by (auto split: option.splits prod.splits intro!: incomplete [OF None c])
    next
      case True
      obtain ma mi nx where f: "find_collision E W2 v cs M m = (ma, mi, nx)" by (metis prod_cases3)
      show ?thesis
      proof (cases nx)
        case (Some n)
        with find_collision_other f have "node_uuid (w_heap W2) n \<noteq> node_uuid (w_heap W2) v" by blast
        then have "r = Some (VersionConflict (node_uuid (w_heap W2) v))" "W' = W2"
          using i True f Some by (auto simp: insert_next_to_def)
        then show ?thesis using conflict [OF None] c by blast
      next
        case none: None
        then obtain res W3 where a: "addToDag E v (Some cs) W2 = Some (res, W3)"
          using i True f by (auto split: option.splits)
        then show ?thesis
          using i True f none by (intro complete [OF None c True a]) (auto split: option.splits)
      qed
    qed
  qed
qed

lemma InsertTxDag_inv:
  assumes "dag_inv W" and "fresh_node W v" and "InsertTxDag E v x M m ids W = Some (r, W')"
  shows "dag_inv W' \<and> (\<forall>b. fresh_node W b \<longrightarrow> b \<noteq> v \<longrightarrow> fresh_node W' b)"
proof -
  let ?W1 = "stamp_vertex E v x M m W"
  have v: "unlinked W v" "n_targets (w_heap W v) = []" "n_sources (w_heap W v) = []"
    using assms(2) by (simp_all add: fresh_node_def)
  have W1: "dag_inv ?W1" "\<And>b. fresh_node W b \<Longrightarrow> fresh_node ?W1 b" "node_uuid (w_heap ?W1) v = x" "w_dag ?W1 = w_dag W"
    using dag_inv_unlinked_upd(1,2) [OF assms(1) v(1)] v(2,3) by (simp_all add: stamp_vertex_def Let_def)
  have cands: "dag_inv W2 \<and> attachable W2 v cs \<and> (\<forall>b. fresh_node W b \<longrightarrow> fresh_node W2 b \<and> b \<notin> set cs)"
    if "candidates_loop E ids ([], [], ?W1) = Some (cs, nf, W2)" and "dg_vertices (w_dag W) x = None" for cs nf W2
    using candidates_loop_inv [OF that(1) W1(1)] W1(2-4) assms(2) that(2) by (auto simp: attachable_def)
  show ?thesis
    using assms(3)
  proof (cases rule: InsertTxDag_cases)
    case present
    then show ?thesis using W1 by simp
  next
    case (incomplete cs nf W2 res)
    note c = cands [OF incomplete(2,1)]
    then have u: "unlinked W2 v" "n_targets (w_heap W2 v) = []" "n_sources (w_heap W2 v) = []"
      by (simp_all add: attachable_def fresh_node_def)
    let ?n = "(w_heap W2 v)\<lparr>n_missingTargets :=
          fold (\<lambda>x m. m(uuid_String (de_ext E) x \<mapsto> True)) nf (n_missingTargets (w_heap W2 v))\<rparr>"
    have n: "n_targets ?n = []" "n_sources ?n = []" using u by simp_all
    have W2: "note_missing E v nf W2 = W2\<lparr>w_heap := (w_heap W2)(v := ?n)\<rparr>" by (simp add: note_missing_def Let_def)
    have i: "dag_inv (note_missing E v nf W2)" "\<And>b. fresh_node W2 b \<Longrightarrow> fresh_node (note_missing E v nf W2) b"
      "\<And>t. pinned_copy W2 t \<Longrightarrow> pinned_copy (note_missing E v nf W2) t"
      using dag_inv_unlinked_upd [OF _ u(1) n] c by (auto simp: W2)
    have "attachable (note_missing E v nf W2) v cs"
      using c i by (auto simp: attachable_def W2)
    from addToDag_inv [OF incomplete(4) this i(1)] c i(2) show ?thesis by blast
  next
    case (conflict cs nf)
    from cands [OF conflict(2,1)] show ?thesis by blast
  next
    case (complete cs nf W2 res W3)
    note c = cands [OF complete(2,1)]
    have l: "dag_inv (W3\<lparr>w_dag := (w_dag W3)\<lparr>dg_links := ls\<rparr>\<rparr>) \<longleftrightarrow> dag_inv W3"
      "fresh_node (W3\<lparr>w_dag := (w_dag W3)\<lparr>dg_links := ls\<rparr>\<rparr>) b \<longleftrightarrow> fresh_node W3 b" for ls b
      by (rule dag_inv_cong; simp)+
    from addToDag_inv [OF complete(4)] c complete(6) show ?thesis by (simp add: l)
  qed
qed

lemma insertIfMissing_inv:
  assumes "dag_inv W" and "fresh_node W v"
  shows "dag_inv (insertIfMissing_one v W) \<and> (\<forall>b. fresh_node W b \<longrightarrow> b \<noteq> v \<longrightarrow> fresh_node (insertIfMissing_one v W) b)"
proof (cases "Dag_getById (w_heap W) (w_dag W) (node_uuid (w_heap W) v) False")
  case (Some a)
  then show ?thesis using assms by (simp add: insertIfMissing_one_def)
next
  case None
  let ?x = "node_uuid (w_heap W) v"
  let ?W = "insertIfMissing_one v W"
  have x: "dg_vertices (w_dag W) ?x = None" using None by (simp add: Dag_getById_def split: option.splits)
  have "cc_cache (w_counter W) ?x = None"
    using x assms(1) by (metis dag_inv_def counter_matches_def domIff map_le_implies_dom_le subsetD)
  then have "cc_cache (w_counter W) \<subseteq>\<^sub>m (cc_cache (w_counter W))(?x \<mapsto> v)" by (simp add: map_le_def dom_def)
  then have "attached v [] W ?W"
    using None assms by (simp add: attached_def insertIfMissing_one_def insertMissing_def send_tx_def
        lookupCacheUpdate_def edges_of_def Let_def fresh_node_def dag_inv_def counter_matches_def)
  moreover have "attachable W v []" using assms(2) x by (simp add: attachable_def)
  ultimately show ?thesis using attached_inv attached_fresh assms(1) by simp
qed

lemma sites_loop_same_links:
  "sites_loop V S R vs (h, pin, wc) = Some (h', pin', wc') \<Longrightarrow> same_links h h'"
proof (induction vs arbitrary: h pin wc)
  case Nil
  then show ?case by simp
next
  case (Cons v vs)
  have "same_links h (h(v := (h v)\<lparr>n_valid := False\<rparr>))" by (simp add: same_links_def)
  with Cons show ?case
    by (auto simp: Let_def split: option.splits if_splits intro: same_links_trans)
qed

lemma genPinTx_cong:
  assumes "genPinTx E W = Some W'"
  shows "dag_inv W' \<longleftrightarrow> dag_inv W" and "fresh_node W' b \<longleftrightarrow> fresh_node W b" and "w_dag W' = w_dag W"
proof -
  have "same_links (w_heap W) (w_heap W')" "w_next W' = w_next W" "w_dag W' = w_dag W"
    "cc_cache (w_counter W') = cc_cache (w_counter W)" "cc_tips (w_counter W') = cc_tips (w_counter W)"
    using assms sites_loop_same_links
    by (fastforce simp: genPinTx_def GetConfirmedSites_def counter_pop_def NodeTxPin_add_def Let_def
        split: option.splits if_splits prod.splits)+
  then show "dag_inv W' \<longleftrightarrow> dag_inv W" "fresh_node W' b \<longleftrightarrow> fresh_node W b" "w_dag W' = w_dag W"
    using dag_inv_cong by simp_all
qed

lemma SyncUp_cong:
  assumes "SyncUp E W = Some W'"
  shows "(dag_inv W' \<longleftrightarrow> dag_inv W) \<and> (fresh_node W' b \<longleftrightarrow> fresh_node W b) \<and> w_dag W' = w_dag W"
proof -
  have r: "dag_inv (V\<lparr>w_leaderReady := x\<rparr>) \<longleftrightarrow> dag_inv V" "fresh_node (V\<lparr>w_leaderReady := x\<rparr>) b \<longleftrightarrow> fresh_node V b" for V x
    by (rule dag_inv_cong; simp)+
  show ?thesis
    using assms genPinTx_cong by (auto simp: SyncUp_def r split: list.splits if_splits)
qed

lemma dag_Init_inv:
  assumes "dag_Init E leader ct width W0 = Some W"
  shows "dag_inv W"
  using assms
  by (auto simp: dag_Init_def newDag_def Let_def alloc_def genesis_node_def zeroNode_def dag_inv_defs edges_of_def
      newConfirmationCounter_def counter_add_def split: sum.splits option.splits prod.splits if_splits)

section \<open>Runs of a node\<close>

lemma NewDagNode_shape:
  assumes "NewDagNode E F network fresh weight now prevMinor t verify prevMajor = Some (major, Some n)"
  shows "n_targets n = []" and "n_sources n = []" and "nid_id (n_id n) = fresh"
  using assms
  by (auto simp: NewDagNode_def GenerateAddress_def zeroNode_def Let_def split: option.splits if_splits prod.splits)

lemma new_vertex_inv:
  assumes "new_vertex E S t verify W = Some (ao, W1)" and "dag_inv W"
  shows "dag_inv W1 \<and> dg_vertices (w_dag W1) = dg_vertices (w_dag W) \<and>
     (\<forall>b. fresh_node W b \<longrightarrow> fresh_node W1 b \<and> ao \<noteq> Some b) \<and>
     (\<forall>a. ao = Some a \<longrightarrow> fresh_node W1 a \<and> node_uuid (w_heap W1) a = nso_fresh S)"
proof -
  let ?V = "\<lambda>major. W\<lparr>w_dag := (w_dag W)\<lparr>dg_prevMajor := major\<rparr>\<rparr>"
  have c: "dag_inv (?V major) \<longleftrightarrow> dag_inv W" "fresh_node (?V major) b \<longleftrightarrow> fresh_node W b" for major b
    by (rule dag_inv_cong; simp)+
  obtain major n where n: "NewDagNode (de_ext E) (pe_flops (de_pin E)) (nso_network S) (nso_fresh S) (nso_weight S)
             (pe_now (de_pin E)) (dg_prevMinor (w_dag W)) t verify (dg_prevMajor (w_dag W)) = Some (major, n)"
    using assms(1) by (auto simp: new_vertex_def split: option.splits)
  show ?thesis
  proof (cases n)
    case None
    then have "ao = None" "W1 = ?V major" using assms(1) n by (simp_all add: new_vertex_def)
    then show ?thesis using assms(2) c by simp
  next
    case (Some node)
    obtain a W2 where al: "alloc node (?V major) = (a, W2)" by fastforce
    note sh = NewDagNode_shape [OF n [unfolded Some]]
    note i = alloc_inv [OF _ al sh(1,2), unfolded c, OF assms(2)]
    show ?thesis
      using assms(1) n Some al i sh(3) by (auto simp: new_vertex_def)
  qed
qed

inductive dag_run :: "SubInTx list \<Rightarrow> World \<Rightarrow> bool" where
  run_init: "dag_Init E leader ct width W0 = Some W \<Longrightarrow> dag_run [] W"
| run_publish: "dag_run q W \<Longrightarrow> env_ok E \<Longrightarrow> dg_vertices (w_dag W) (nso_fresh S) = None \<Longrightarrow>
    publish_one E S sent leader t W = Some (r, W') \<Longrightarrow> dag_run q W'"
| run_receive: "dag_run q W \<Longrightarrow> receive_one E S parse from rec W = Some (x, W') \<Longrightarrow>
    dag_run (q @ (case x of None \<Rightarrow> [] | Some m \<Rightarrow> [m])) W'"
| run_insert: "dag_run (m # q) W \<Longrightarrow> insert_one E leader m W = Some W' \<Longrightarrow> dag_run q W'"
| run_sync: "dag_run q W \<Longrightarrow> alloc n W = (a, W1) \<Longrightarrow> n_targets n = [] \<Longrightarrow> n_sources n = [] \<Longrightarrow>
    dag_run q (insertIfMissing_one a W1)"
| run_pin: "dag_run q W \<Longrightarrow> genPinTx E W = Some W' \<Longrightarrow> dag_run q W'"

text \<open>The invariant of a run: the received vertices that wait for insertion are not linked yet.\<close>

definition run_inv :: "SubInTx list \<Rightarrow> World \<Rightarrow> bool" where
  "run_inv q W \<longleftrightarrow> dag_inv W \<and> (\<forall>m \<in> set q. fresh_node W (sub_vertex m)) \<and> distinct (map sub_vertex q)"

lemma publish_inv:
  assumes "run_inv q W" and "env_ok E" and "dg_vertices (w_dag W) (nso_fresh S) = None"
    and "publish_one E S sent leader t W = Some (r, W')"
  shows "run_inv q W'"
proof (cases "IsService t \<and> IsPayload t TX_SERVICE_STOP")
  case True
  then show ?thesis using assms(1,4) by (simp add: publish_one_def)
next
  case service: False
  then obtain ao W1 where nv: "new_vertex E S t False W = Some (ao, W1)"
    using assms(4) by (auto simp: publish_one_def split: option.splits)
  have i: "dag_inv W1" "dg_vertices (w_dag W1) = dg_vertices (w_dag W)"
    "\<forall>m \<in> set q. fresh_node W1 (sub_vertex m) \<and> ao \<noteq> Some (sub_vertex m)"
    "\<forall>a. ao = Some a \<longrightarrow> fresh_node W1 a \<and> node_uuid (w_heap W1) a = nso_fresh S"
    using new_vertex_inv [OF nv] assms(1) by (auto simp: run_inv_def)
  show ?thesis
  proof (cases ao)
    case None
    then show ?thesis using assms(1,4) service nv i by (auto simp: publish_one_def run_inv_def split: if_splits)
  next
    case (Some a)
    then obtain res W2 where add: "AddTxDag E a W1 = Some (res, W2)"
      using assms(4) service nv by (auto simp: publish_one_def split: option.splits)
    have j: "dag_inv W2" "\<forall>m \<in> set q. fresh_node W2 (sub_vertex m)"
      using AddTxDag_inv [OF i(1) assms(2) add] i(2-4) Some assms(3) by auto
    have "W' = W2 \<or> SyncUp E W2 = Some W'"
      using assms(4) service nv Some add
      by (auto simp: publish_one_def Let_def split: option.splits sum.splits if_splits)
    with j assms(1) SyncUp_cong show ?thesis by (auto simp: run_inv_def)
  qed
qed

lemma receive_inv:
  assumes "run_inv q W" and "receive_one E S parse src rec W = Some (x, W')"
  shows "run_inv (q @ (case x of None \<Rightarrow> [] | Some m \<Rightarrow> [m])) W'"
proof (cases "src = nso_host S")
  case True
  then show ?thesis using assms by (simp add: receive_one_def)
next
  case False
  then obtain t ao W1 where t: "gt_Transaction rec = Some t" and nv: "new_vertex E S t True W = Some (ao, W1)"
    using assms(2) by (auto simp: receive_one_def split: option.splits)
  from new_vertex_inv [OF nv] assms False t nv show ?thesis
    by (fastforce simp: receive_one_def run_inv_def split: option.splits if_splits)
qed

lemma insert_inv:
  assumes "run_inv (m # q) W" and "insert_one E leader m W = Some W'"
  shows "run_inv q W'"
proof -
  obtain r W1 where ins: "InsertTxDag E (sub_vertex m) (sub_id m) (sub_idMajor m) (sub_idMinor m) (map us_Id (sub_targetIds m)) W = Some (r, W1)"
    using assms(2) by (auto simp: insert_one_def split: option.splits)
  have "sub_vertex m \<notin> sub_vertex ` set q" using assms(1) by (simp add: run_inv_def)
  then have "\<forall>k \<in> set q. sub_vertex k \<noteq> sub_vertex m" by (metis image_eqI)
  then have "dag_inv W1" "\<forall>k \<in> set q. fresh_node W1 (sub_vertex k)"
    using InsertTxDag_inv [OF _ _ ins] assms(1) by (auto simp: run_inv_def)
  moreover have "W' = W1 \<or> SyncUp E W1 = Some W'"
    using assms(2) ins by (auto simp: insert_one_def split: option.splits if_splits)
  ultimately show ?thesis using assms(1) SyncUp_cong by (auto simp: run_inv_def)
qed

lemma dag_run_inv: "dag_run q W \<Longrightarrow> run_inv q W"
proof (induction rule: dag_run.induct)
  case (run_init E leader ct width W0 W)
  then show ?case by (simp add: run_inv_def dag_Init_inv)
next
  case (run_publish q W E S sent leader t r W')
  then show ?case by (blast intro: publish_inv)
next
  case (run_receive q W E S parse src rec x W')
  then show ?case by (blast intro: receive_inv)
next
  case (run_insert m q W E leader W')
  then show ?case by (blast intro: insert_inv)
next
  case (run_sync q W n a W1)
  then have i: "dag_inv W" by (simp add: run_inv_def)
  note al = alloc_inv [OF i run_sync.hyps(2-4)]
  from insertIfMissing_inv [OF al(1,2)] al(3) run_sync.IH show ?case by (auto simp: run_inv_def)
next
  case (run_pin q W E W')
  then show ?case using genPinTx_cong by (auto simp: run_inv_def)
qed

end
