(* ===== verification/Dag_Properties.thy ===== *)
theory Dag_Properties
  imports Dag_Invariant Pin_Forming
begin

text \<open>
  What the invariant of \<open>Dag_Invariant\<close> means for the DAG, and what its operations do on every branch: the
  graph has no cycles, the lookup caches agree with the graph, the two directions of the links agree,
  a published vertex approves what its announcement says, and a peer that inserts it gets the
  same edges.
\<close>

section \<open>A concrete node\<close>

definition demo_dag_env :: dag_env where
  "demo_dag_env = \<lparr>de_pin = demo_env\<lparr>pe_wallet :=
       \<lparr>privateKey = [3], publicKey = [4], walletAddress = ''0x'' @ hexEncode (replicate 20 1)\<rparr>\<rparr>,
     de_sel = demo_sel, de_ord = sorted_list_of_set, de_Versioncollision = False, de_Maxfuellimit = 0,
     de_nilTx = TxV1 demo_tx\<rparr>"

definition demo_genesis_tx :: Txv1 where
  "demo_genesis_tx = (NewTxv1 2)\<lparr>Tx_Type := SERVICE_GENESIS, Sender_Pubk := [4], Sender := replicate 20 1,
     Recepient := replicate 20 1, Amount := Bytes INITIAL_OFFERING\<rparr>"

definition demo_start :: World where
  "demo_start = \<lparr>w_heap = (\<lambda>_. demo_node), w_next = 0,
     w_dag = \<lparr>dg_dag = [], dg_vertices = Map.empty, dg_links = [], dg_edges = Map.empty, dg_prevMajor = 0,
              dg_prevMinor = 0, dg_pins = [], dg_width = 0, dg_txCh = None\<rparr>,
     w_counter = newConfirmationCounter, w_node = demo_state, w_draws = 0, w_leaderReady = False\<rparr>"

section \<open>The first state of the leader\<close>

lemma Txv1_Sign_total:
  assumes "key_pair E seed pub"
  shows "\<exists>s. Txv1_Sign E seed t = Some (t\<lparr>Signature := s\<rparr>)"
proof -
  have "\<exists>s. ed25519_Sign E seed m = Some s" for m using assms by (auto simp: key_pair_def)
  then show ?thesis
    by (auto simp: Txv1_Sign_def generateSignature_def DSA_Sign_def split: option.split)
      (metis option.distinct(1))+
qed

lemma AddressToBytes_hex: "length b = 20 \<Longrightarrow> AddressToBytes (''0x'' @ hexEncode b) = Inr b"
proof -
  assume "length b = 20"
  then have "hexEncode b \<noteq> []" by (cases b) auto
  then show ?thesis by (simp add: AddressToBytes_def Let_def TrimPrefix_def)
qed

lemma dag_Init_leader:
  fixes E :: dag_env
  defines "w \<equiv> pe_wallet (de_pin E)"
  assumes "walletAddress w = ''0x'' @ hexEncode b" and "length b = 20"
    and "key_pair (de_ext E) (privateKey w) (publicKey w)"
  shows "\<exists>W t p s. dag_Init E True ct width W0 = Some W \<and>
      t = (NewTxv1 ct)\<lparr>Tx_Type := SERVICE_GENESIS, Sender_Pubk := publicKey w, Sender := b, Recepient := b,
            Amount := Bytes INITIAL_OFFERING, Signature := s\<rparr> \<and>
      pin_Balance p = [''0x'' @ hexEncode b \<mapsto> Bytes INITIAL_OFFERING] \<and> pin_Nodes p = [] \<and>
      W = W0\<lparr>w_heap := (w_heap W0)(w_next W0 := genesis_node (pe_flops (de_pin E)) t),
             w_next := Suc (w_next W0),
             w_dag := \<lparr>dg_dag = [w_next W0], dg_vertices = [uuid_Nil \<mapsto> w_next W0], dg_links = [],
                       dg_edges = Map.empty, dg_prevMajor = 0, dg_prevMinor = 0, dg_pins = [w_next W0],
                       dg_width = ucast width, dg_txCh = None\<rparr>,
             w_counter := \<lparr>cc_tips = [uuid_Nil \<mapsto> [uuid_Nil]], cc_cache = [uuid_Nil \<mapsto> w_next W0], cc_confirmed = {}\<rparr>,
             w_node := (w_node W0)\<lparr>ns_pins := [p], ns_walletCache := newWalletCache,
                         ns_walletCacheConfirmed := newWalletCache\<rparr>\<rparr>"
proof -
  let ?t = "(NewTxv1 ct)\<lparr>Tx_Type := SERVICE_GENESIS, Sender_Pubk := publicKey w, Sender := b, Recepient := b\<rparr>"
  have g: "NewGenesisTxv1 ct w = Inr ?t"
    unfolding NewGenesisTxv1_def assms(2) AddressToBytes_hex [OF assms(3)] by simp
  obtain s where s: "Txv1_Sign (de_ext E) (privateKey w) (?t\<lparr>Amount := Bytes INITIAL_OFFERING\<rparr>) =
      Some (?t\<lparr>Amount := Bytes INITIAL_OFFERING, Signature := s\<rparr>)"
    using Txv1_Sign_total [OF assms(4)] by blast
  let ?n = "genesis_node (pe_flops (de_pin E)) (?t\<lparr>Amount := Bytes INITIAL_OFFERING, Signature := s\<rparr>)"
  have n: "nid_id (n_id ?n) = uuid_Nil" "n_targets ?n = []"
    "GetAmount (n_tx ?n) = INITIAL_OFFERING"
    by (simp_all add: genesis_node_def zeroNode_def Txv1_GetAmount_def SetBytes_Bytes INITIAL_OFFERING_def)
  obtain p where p: "NodeTxPin_set (de_ext E) (pe_marshal (de_pin E)) (pe_ord (de_pin E)) (pe_ts (de_pin E)) w ?n
      (walletAddress w) [] = Some [p]" "pin_Balance p = [walletAddress w \<mapsto> Bytes INITIAL_OFFERING]" "pin_Nodes p = []"
  proof -
    let ?p = "(NewTxPin (pe_ts (de_pin E)) [])\<lparr>pin_Balance := [walletAddress w \<mapsto> Bytes INITIAL_OFFERING], pin_Sites := [SiteID_of ?n]\<rparr>"
    obtain sig where "SignTx (de_ext E) (pe_marshal (de_pin E)) (pe_ord (de_pin E)) w ?p =
        Some (?p\<lparr>pin_Sign := sig, pin_Pk := publicKey w\<rparr>)"
      using SignTx_total [OF assms(4)] by blast
    then have "NodeTxPin_set (de_ext E) (pe_marshal (de_pin E)) (pe_ord (de_pin E)) (pe_ts (de_pin E)) w ?n
        (walletAddress w) [] = Some [?p\<lparr>pin_Sign := sig, pin_Pk := publicKey w\<rparr>]"
      by (simp add: NodeTxPin_set_def Let_def n(3))
    then show ?thesis by (rule that) simp_all
  qed
  have u: "unsafe_getBalanceForWallet [p] newWalletCache (walletAddress w) = (INITIAL_OFFERING, None)"
    by (simp add: unsafe_getBalanceForWallet_def newWalletCache_def WalletCache_get_def unsafe_getLatestBalance_def
        p(2) SetBytes_Bytes INITIAL_OFFERING_def)
  define W where "W = W0\<lparr>w_heap := (w_heap W0)(w_next W0 := ?n),
             w_next := Suc (w_next W0),
             w_dag := \<lparr>dg_dag = [w_next W0], dg_vertices = [uuid_Nil \<mapsto> w_next W0], dg_links = [],
                       dg_edges = Map.empty, dg_prevMajor = 0, dg_prevMinor = 0, dg_pins = [w_next W0],
                       dg_width = ucast width, dg_txCh = None\<rparr>,
             w_counter := \<lparr>cc_tips = [uuid_Nil \<mapsto> [uuid_Nil]], cc_cache = [uuid_Nil \<mapsto> w_next W0], cc_confirmed = {}\<rparr>,
             w_node := (w_node W0)\<lparr>ns_pins := [p], ns_walletCache := newWalletCache,
                         ns_walletCacheConfirmed := newWalletCache\<rparr>\<rparr>"
  have "dag_Init E True ct width W0 = Some W"
    using g s p(1) n u
    by (cases W0; cases "w_node W0")
      (simp add: dag_Init_def newDag_def Let_def alloc_def w_def [symmetric] getGenesis_def
        counter_add_def newConfirmationCounter_def W_def)
  then show ?thesis
    using p(2,3) assms(2) W_def
    by (intro exI [of _ W] exI [of _ "?t\<lparr>Amount := Bytes INITIAL_OFFERING, Signature := s\<rparr>"] exI [of _ p] exI [of _ s]) simp
qed

text \<open>The leader starts and publishes one payment from the genesis wallet.\<close>

definition demo_source :: node_source where
  "demo_source = \<lparr>nso_network = 2, nso_fresh = 7, nso_weight = 1, nso_host = ''a'', nso_addrs = [], nso_seq = 0\<rparr>"

definition demo_signed :: Txv1 where
  "demo_signed = demo_tx\<lparr>Signature := replicate 64 9\<rparr>"

definition demo_vertex :: Node where
  "demo_vertex = (zeroNode demo_flops (TxV1 demo_signed))
     \<lparr>n_id := \<lparr>nid_id = 7, nid_address = b64Encode (replicate 64 9), nid_idMajor = 1, nid_idMinor = 0\<rparr>,
      n_txWeight := 1, n_time := 0, n_valid := True\<rparr>"

definition demo_leader :: "bytes \<Rightarrow> TxPin \<Rightarrow> World" where
  "demo_leader s p = demo_start
     \<lparr>w_heap := (w_heap demo_start)(0 := genesis_node demo_flops (demo_genesis_tx\<lparr>Signature := s\<rparr>)),
      w_next := 1,
      w_dag := \<lparr>dg_dag = [0], dg_vertices = [uuid_Nil \<mapsto> 0], dg_links = [],
                dg_edges = Map.empty, dg_prevMajor = 0, dg_prevMinor = 0, dg_pins = [0], dg_width = 5, dg_txCh = None\<rparr>,
      w_counter := \<lparr>cc_tips = [uuid_Nil \<mapsto> [uuid_Nil]], cc_cache = [uuid_Nil \<mapsto> 0], cc_confirmed = {}\<rparr>,
      w_node := demo_state\<lparr>ns_pins := [p]\<rparr>\<rparr>"

definition demo_second :: "bytes \<Rightarrow> TxPin \<Rightarrow> World" where
  "demo_second s p = (demo_leader s p)
     \<lparr>w_dag := (w_dag (demo_leader s p))\<lparr>dg_prevMajor := 1\<rparr>,
      w_heap := (w_heap (demo_leader s p))(1 := demo_vertex), w_next := 2\<rparr>"

lemma demo_env_fields [simp]:
  "de_ext demo_dag_env = demo_ext" "pe_flops (de_pin demo_dag_env) = demo_flops" "de_sel demo_dag_env = demo_sel"
  "pe_now (de_pin demo_dag_env) = 0" "env_ok demo_dag_env"
  by (simp_all add: demo_dag_env_def demo_env_def env_ok_def range_order_sorted)

lemma demo_leader_start:
  obtains s p where "dag_Init demo_dag_env True 2 5 demo_start = Some (demo_leader s p)"
    and "pin_Balance p = [''0x'' @ hexEncode (replicate 20 1) \<mapsto> Bytes INITIAL_OFFERING]" and "pin_Nodes p = []"
proof -
  have w: "walletAddress (pe_wallet (de_pin demo_dag_env)) = ''0x'' @ hexEncode (replicate 20 1)"
    "key_pair (de_ext demo_dag_env) (privateKey (pe_wallet (de_pin demo_dag_env))) (publicKey (pe_wallet (de_pin demo_dag_env)))"
    by (simp_all add: demo_dag_env_def demo_env_def)
  obtain W t p s where i: "dag_Init demo_dag_env True 2 5 demo_start = Some W"
    and t: "t = demo_genesis_tx\<lparr>Signature := s\<rparr>"
    and p: "pin_Balance p = [''0x'' @ hexEncode (replicate 20 1) \<mapsto> Bytes INITIAL_OFFERING]" "pin_Nodes p = []"
    and W: "W = demo_start\<lparr>w_heap := (w_heap demo_start)(0 := genesis_node demo_flops t), w_next := Suc 0,
             w_dag := \<lparr>dg_dag = [0], dg_vertices = [uuid_Nil \<mapsto> 0], dg_links = [],
                       dg_edges = Map.empty, dg_prevMajor = 0, dg_prevMinor = 0, dg_pins = [0],
                       dg_width = ucast (5 :: 16 word), dg_txCh = None\<rparr>,
             w_counter := \<lparr>cc_tips = [uuid_Nil \<mapsto> [uuid_Nil]], cc_cache = [uuid_Nil \<mapsto> 0], cc_confirmed = {}\<rparr>,
             w_node := demo_state\<lparr>ns_pins := [p], ns_walletCache := newWalletCache, ns_walletCacheConfirmed := newWalletCache\<rparr>\<rparr>"
    using dag_Init_leader [OF w(1) _ w(2), of 2 5 demo_start]
    by (auto simp: demo_genesis_tx_def demo_start_def) (simp add: demo_dag_env_def)
  have "W = demo_leader s p"
    by (simp add: W t demo_leader_def demo_state_def)
  with i p show ?thesis by (intro that) simp_all
qed

abbreviation demo_wallet :: string where
  "demo_wallet \<equiv> ''0x'' @ hexEncode (replicate 20 1)"

lemma demo_verify: "VerifySignature demo_ext (TxV1 demo_signed) = Some (True, TxV1 demo_signed)"
proof -
  have c: "demo_signed\<lparr>Signature := []\<rparr> = demo_tx" "demo_tx\<lparr>Signature := replicate 64 9\<rparr> = demo_signed"
    "Signature demo_signed = replicate 64 9" "Sender_Pubk demo_signed = [1]"
    by (simp_all add: demo_signed_def demo_tx_def)
  show ?thesis
    by (simp add: Txv1_Verify_def c DSA_Verify_def demo_ext_simps demo_tx_simps Let_def)
qed

lemma demo_new_vertex: "new_vertex demo_dag_env demo_source (TxV1 demo_signed) v (demo_leader s p) = Some (Some 1, demo_second s p)"
proof -
  have t: "GetChainType (TxV1 demo_signed) = Some 2" "GetSignature (TxV1 demo_signed) = Some (replicate 64 9)"
    by (simp_all add: demo_signed_def demo_tx_def)
  have l: "dg_prevMinor (w_dag (demo_leader s p)) = 0" "dg_prevMajor (w_dag (demo_leader s p)) = 0" "w_next (demo_leader s p) = 1"
    by (simp_all add: demo_leader_def)
  show ?thesis
    by (cases v) (simp_all add: new_vertex_def NewDagNode_def demo_source_def t l demo_verify demo_second_def
      GenerateAddress_def zeroNode_def demo_vertex_def alloc_def Let_def del: GetChainType.simps GetSignature.simps VerifySignature.simps)
qed

lemma demo_genesis_fields [simp]:
  "n_valid (w_heap (demo_second s p) 0)" "GetSender E (n_tx (w_heap (demo_second s p) 0)) = Some (replicate 20 1)"
  "GetSignature (n_tx (w_heap (demo_second s p) 0)) = Some s" "node_uuid (w_heap (demo_second s p)) 0 = 0"
  by (simp_all add: demo_second_def demo_leader_def genesis_node_def zeroNode_def demo_genesis_tx_def)

lemma demo_second_fields [simp]:
  "w_heap (demo_second s p) (Suc 0) = demo_vertex" "dg_dag (w_dag (demo_second s p)) = [0]"
  "dg_width (w_dag (demo_second s p)) = 5" "ns_pins (w_node (demo_second s p)) = [p]"
  "ns_walletCache (w_node (demo_second s p)) = Map.empty"
  by (simp_all add: demo_second_def demo_leader_def demo_state_def newWalletCache_def)

lemma demo_balance:
  assumes "pin_Balance p = [demo_wallet \<mapsto> Bytes INITIAL_OFFERING]"
    and "n_tx n = TxV1 demo_signed"
  shows "\<exists>wc. UpdateBalanceIfValid demo_ext [p] n Map.empty = Some (True, wc)"
proof -
  have l: "unsafe_getLatestBalance [p] demo_wallet = Some INITIAL_OFFERING"
    by (simp add: unsafe_getLatestBalance_def assms(1) SetBytes_Bytes INITIAL_OFFERING_def)
  have a: "addressOf (replicate 20 1) = Some demo_wallet" "addressOf (replicate 20 2) = Some (''0x'' @ hexEncode (replicate 20 2))"
    by (simp_all add: addressOf_Some)
  have m: "SetBytes (Bytes (GetAmount (TxV1 demo_signed))) = 7"
  proof -
    have "GetAmount (TxV1 demo_signed) = 7" by (simp add: Txv1_GetAmount_def demo_signed_def demo_tx_simps SetBytes_def)
    then show ?thesis by (simp add: SetBytes_Bytes)
  qed
  have t: "n_tx n = TxV1 demo_signed" "GetSender demo_ext (TxV1 demo_signed) = Some (replicate 20 1)"
    "GetRecipient (TxV1 demo_signed) = replicate 20 2"
    by (simp_all add: assms(2) demo_signed_def demo_tx_simps)
  let ?L = "unsafe_getLatestBalance [p]" and ?i = "uuid_String demo_ext (nid_id (n_id n))"
  have sub: "WalletCache_sub ?L demo_wallet ?i 7 Map.empty = (None, [demo_wallet \<mapsto> [(?i, INITIAL_OFFERING - 7)]])"
    unfolding WalletCache_sub_def Let_def l by (simp add: INITIAL_OFFERING_def)
  have add: "\<exists>wc'. WalletCache_add ?L w ?i 7 wc = (None, wc')" if "wc w = None" for w wc
  proof -
    have "0 \<le> (case ?L w of None \<Rightarrow> 0 | Some b \<Rightarrow> b)"
      using pinned_ok_latest [of "[p]"] by (auto simp: pinned_ok_def split: option.split)
    then show ?thesis using that by (simp add: WalletCache_add_def)
  qed
  have ne: "''0x'' @ hexEncode (replicate 20 2) \<noteq> demo_wallet"
    by simp
  obtain wc' where wc': "WalletCache_add ?L (''0x'' @ hexEncode (replicate 20 2)) ?i 7
      [demo_wallet \<mapsto> [(?i, INITIAL_OFFERING - 7)]] = (None, wc')"
    using add [of "[demo_wallet \<mapsto> [(?i, INITIAL_OFFERING - 7)]]", OF fun_upd_other [OF ne, THEN trans]] by blast
  have r: "replicate 20 (1 :: byte) \<noteq> replicate 20 2" by simp
  show ?thesis
    unfolding UpdateBalanceIfValid_def Let_def t m a option.case sub wc' prod.case if_P [OF r] by blast
qed

lemma demo_add:
  assumes "pin_Balance p = [demo_wallet \<mapsto> Bytes INITIAL_OFFERING]"
  shows "\<exists>sg W. AddTxDag demo_dag_env 1 (demo_second s p) = Some (Inr ([0], sg), W)"
proof -
  let ?W = "demo_second s p"
  have v: "n_tx demo_vertex = TxV1 demo_signed" by (simp add: demo_vertex_def zeroNode_def)
  have st: "select_tips demo_dag_env 1 ?W = Some ([Some 0], ?W)"
    by (simp add: select_tips_def Let_def v) (simp add: demo_signed_def demo_tx_def)
  have l: "latestBalance_loop demo_wallet [p] = Some (Bytes INITIAL_OFFERING)" by (simp add: assms)
  have b: "GetBalances [p] Map.empty [replicate 20 1] = Some (Inr [Bytes INITIAL_OFFERING])"
    unfolding GetBalances_def GetBalances_loop.simps addressOf_Some [of "replicate 20 1", simplified length_replicate, OF refl]
    using l by simp
  have ap: "approveTx demo_dag_env ?W [Some 0] = Some True"
    by (simp add: approveTx_def approveNode_def b SetBytes_Bytes INITIAL_OFFERING_def)
  obtain td where td: "tips_loop demo_dag_env (w_heap ?W) 1 [Some 0]
      \<lparr>td_ids = [], td_signatures = Map.empty, td_links = [], td_height = zeroHeight\<rparr> = Some td" "td_ids td = [0]"
    by simp
  let ?W2 = "?W\<lparr>w_heap := (w_heap ?W)(1 := (w_heap ?W 1)\<lparr>n_height := td_height td\<rparr>),
                 w_dag := (w_dag ?W)\<lparr>dg_links := dg_links (w_dag ?W) @ td_links td\<rparr>\<rparr>"
  obtain wc where "UpdateBalanceIfValid demo_ext [p] (demo_vertex\<lparr>n_height := td_height td\<rparr>) Map.empty = Some (True, wc)"
    using demo_balance [OF assms, of "demo_vertex\<lparr>n_height := td_height td\<rparr>"] v by auto
  then obtain W3 where "addToDag demo_dag_env 1 (Some [0]) ?W2 = Some (None, W3)"
    by (simp add: addToDag_def Let_def link_one_def)
  then show ?thesis using st ap td by (simp add: AddTxDag_def Let_def)
qed

section \<open>The graph\<close>

lemma dag_run_ok: "dag_run q W \<Longrightarrow> dag_inv W"
  using dag_run_inv by (simp add: run_inv_def)

lemma takeWhile_before: "t \<in> set (take i xs) \<Longrightarrow> length (takeWhile (\<lambda>x. x \<noteq> t) xs) < i"
proof (induction xs arbitrary: i)
  case (Cons x xs)
  then show ?case by (cases i) auto
qed simp

lemma takeWhile_at: "distinct xs \<Longrightarrow> i < length xs \<Longrightarrow> length (takeWhile (\<lambda>x. x \<noteq> xs ! i) xs) = i"
proof (induction xs arbitrary: i)
  case (Cons x xs)
  then show ?case by (cases i) auto
qed simp

lemma dag_distinct: "dag_inv W \<Longrightarrow> distinct (dg_dag (w_dag W))"
  by (simp add: dag_inv_def ids_ok_def distinct_map)

lemma dag_inv_acyclic:
  assumes "dag_inv W"
  shows "acyclic {(u, t). u \<in> set (dg_dag (w_dag W)) \<and> t \<in> set (n_targets (w_heap W u))}"
proof (rule acyclicI_order)
  fix u t
  let ?d = "dg_dag (w_dag W)"
  let ?rank = "\<lambda>a. if a \<in> set ?d then Suc (length (takeWhile (\<lambda>x. x \<noteq> a) ?d)) else 0"
  assume "(u, t) \<in> {(u, t). u \<in> set ?d \<and> t \<in> set (n_targets (w_heap W u))}"
  then obtain i where i: "i < length ?d" "u = ?d ! i" "t \<in> set (n_targets (w_heap W (?d ! i)))"
    by (auto simp: in_set_conv_nth)
  have u: "?rank u = Suc i" using i takeWhile_at [OF dag_distinct [OF assms] i(1)] by simp
  have "t \<in> set (take i ?d) \<or> pinned_copy W t" using assms i by (auto simp: dag_inv_def order_ok_def)
  then show "?rank t < ?rank u"
    using u takeWhile_before by (auto simp: pinned_copy_def dest: in_set_takeD)
qed

lemma find_site_vertex:
  assumes "dag_inv W"
  shows "find_site (w_heap W) (w_dag W) x = dg_vertices (w_dag W) x"
proof (cases "goFind (\<lambda>n. node_uuid (w_heap W) n = x) (dg_dag (w_dag W))")
  case None
  then have "\<forall>a \<in> set (dg_dag (w_dag W)). node_uuid (w_heap W) a \<noteq> x" by (simp add: goFind_None_iff)
  then have "dg_vertices (w_dag W) x = None"
    using ids_ok_vertex assms by (metis dag_inv_def not_Some_eq)
  with None show ?thesis by (simp add: find_site_def)
next
  case (Some r)
  obtain a i where r: "r = (a, i)" by (cases r)
  note s = goFind_SomeD [OF Some [unfolded r]]
  have "dg_vertices (w_dag W) x = Some a"
    using ids_ok_vertex assms s(1-3) nth_mem [of i "dg_dag (w_dag W)"] by (simp add: dag_inv_def)
  with Some r show ?thesis by (simp add: find_site_def)
qed

text \<open>What a successful addition and a refused one leave behind.\<close>

lemma AddTxDag_added:
  assumes "dag_inv W" and "env_ok E" and "fresh_node W node"
    and "AddTxDag E node W = Some (Inr (ids, sigs), W')" and "ids \<noteq> []"
  shows "\<exists>ts. set ts \<subseteq> set (dg_dag (w_dag W)) \<and> length ts \<le> 2 \<and> ids = map (node_uuid (w_heap W)) ts \<and>
     n_targets (w_heap W' node) = ts \<and> n_id (w_heap W' node) = n_id (w_heap W node) \<and> dg_dag (w_dag W') = dg_dag (w_dag W) @ [node] \<and>
     dg_links (w_dag W') = dg_links (w_dag W) @ map (\<lambda>t. \<lparr>link_source = node, link_target = t\<rparr>) ts \<and>
     dg_vertices (w_dag W') = (dg_vertices (w_dag W))(node_uuid (w_heap W) node \<mapsto> node) \<and>
     dg_edges (w_dag W') = (dg_edges (w_dag W))(node_uuid (w_heap W) node \<mapsto> edges_of (w_dag W) (node_uuid (w_heap W) node) @ ids)"
  using assms(1,2,4)
proof (cases rule: AddTxDag_cases)
  case (dropped k)
  then show ?thesis using assms(5) by simp
next
  case (linked ts k hg sg W2 res W3)
  then have res: "res = None" "ids = map (node_uuid (w_heap W)) ts" "W' = weigh_added E W3" by auto
  have "node \<notin> set ts" using assms(3) linked(3) by (auto simp: fresh_node_def unlinked_def)
  with linked(5) res(1) obtain wc m where W3: "W3 = W2\<lparr>w_node := (w_node W2)\<lparr>ns_walletCache := wc\<rparr>,
               w_heap := linked (pe_now (de_pin E)) node ts (w_heap W2),
               w_dag := (w_dag W2)
                 \<lparr>dg_dag := dg_dag (w_dag W2) @ [node],
                  dg_vertices := (dg_vertices (w_dag W2))(node_uuid (w_heap W2) node \<mapsto> node),
                  dg_edges := (dg_edges (w_dag W2))(node_uuid (w_heap W2) node \<mapsto>
                    edges_of (w_dag W2) (node_uuid (w_heap W2) node) @ map (node_uuid (w_heap W2)) ts),
                  dg_txCh := m\<rparr>,
               w_counter := counter_add (linked (pe_now (de_pin E)) node ts (w_heap W2)) node (w_counter W2)\<rparr>"
    by (auto elim: addToDag_success)
  have w: "w_dag (weigh_added E W3) = w_dag W3" "n_targets (w_heap (weigh_added E W3) node) = n_targets (w_heap W3 node)"
    "n_id (w_heap (weigh_added E W3) node) = n_id (w_heap W3 node)"
    using updateCumWeights_same_links by (auto simp: weigh_added_def same_links_def)
  have h: "node_uuid (w_heap W2) a = node_uuid (w_heap W) a" for a by (simp add: linked(4))
  have e: "edges_of (w_dag W2) = edges_of (w_dag W)" by (simp add: linked(4) edges_of_def fun_eq_iff)
  have n: "n_targets (w_heap W2 node) = []" using assms(3) by (simp add: linked(4) fresh_node_def)
  show ?thesis
    using linked(2,3) res w n by (intro exI [of _ ts]) (simp add: W3 h e, simp add: linked(4))
qed

lemma candidates_loop_known:
  "\<forall>x \<in> set ids. dg_vertices (w_dag W) x \<noteq> None \<Longrightarrow>
     candidates_loop E ids (cs, nf, W) = Some (cs @ map (\<lambda>x. the (dg_vertices (w_dag W) x)) ids, nf, W)"
  by (induction ids arbitrary: cs) (auto simp: Dag_getById_def)

text \<open>Which of the approved vertices are missing: neither in the DAG nor in a pin.\<close>

definition unknown_id :: "dag_env \<Rightarrow> World \<Rightarrow> uuid \<Rightarrow> bool" where
  "unknown_id E W x \<longleftrightarrow> dg_vertices (w_dag W) x = None \<and>
     getById_loop (uuid_MarshalBinary (de_ext E) x) (List.rev (ns_pins (w_node W))) = None"

lemma candidates_loop_missing:
  "candidates_loop E ids (cs0, nf0, W) = Some (cs, nf, W') \<Longrightarrow> nf = nf0 @ filter (unknown_id E W) ids"
proof (induction ids arbitrary: cs0 nf0 W)
  case (Cons x ids)
  show ?case
  proof (cases "dg_vertices (w_dag W) x")
    case (Some n)
    then have "candidates_loop E ids (cs0 @ [n], nf0, W) = Some (cs, nf, W')"
      using Cons.prems by (simp add: Dag_getById_def)
    from Cons.IH [OF this] Some show ?thesis by (simp add: unknown_id_def)
  next
    case None
    then obtain pn where pn: "Pins_getById (de_ext E) (pe_flops (de_pin E)) (de_nilTx E) (ns_pins (w_node W)) x = Some pn"
      using Cons.prems by (auto simp: Dag_getById_def split: option.splits)
    show ?thesis
    proof (cases pn)
      case none: None
      then have l: "candidates_loop E ids (cs0, nf0 @ [x], W) = Some (cs, nf, W')"
        using Cons.prems None pn by (simp add: Dag_getById_def)
      have "unknown_id E W x"
        using None pn none by (auto simp: unknown_id_def Pins_getById_def split: option.splits)
      then show ?thesis using Cons.IH [OF l] by simp
    next
      case (Some n)
      obtain a W1 where al: "alloc n W = (a, W1)" by fastforce
      then have l: "candidates_loop E ids (cs0 @ [a], nf0, W1) = Some (cs, nf, W')"
        using Cons.prems None pn Some by (simp add: Dag_getById_def)
      have "unknown_id E W1 = unknown_id E W" using al by (auto simp: alloc_def unknown_id_def fun_eq_iff)
      moreover have "\<not> unknown_id E W x"
        using pn Some by (auto simp: unknown_id_def Pins_getById_def split: option.splits)
      ultimately show ?thesis using Cons.IH [OF l] by simp
    qed
  qed
qed simp

lemma stamp_fields:
  "w_dag (stamp_vertex E v x M m W) = w_dag W" "w_node (stamp_vertex E v x M m W) = w_node W"
  "node_uuid (w_heap (stamp_vertex E v x M m W)) v = x"
  by (simp_all add: stamp_vertex_def Let_def)

lemma stamp_inv:
  assumes "dag_inv W" and "fresh_node W v"
  shows "dag_inv (stamp_vertex E v x M m W)" and "fresh_node (stamp_vertex E v x M m W) v"
  using dag_inv_unlinked_upd(1,2) [OF assms(1), of v] assms(2)
  by (simp_all add: stamp_vertex_def Let_def fresh_node_def)

text \<open>An insertion whose targets are all known copies the announced edges.\<close>

lemma InsertTxDag_known:
  assumes "dag_inv W" and "fresh_node W v" and "InsertTxDag E v x M m ids W = Some (r, W')"
    and "dg_vertices (w_dag W) x = None" and "\<forall>i \<in> set ids. dg_vertices (w_dag W) i \<noteq> None"
    and "dg_vertices (w_dag W') x \<noteq> None"
  shows "edges_of (w_dag W') x = ids"
proof -
  let ?W1 = "stamp_vertex E v x M m W"
  let ?cs = "map (\<lambda>i. the (dg_vertices (w_dag W) i)) ids"
  note W1 = stamp_inv [OF assms(1,2), of E x M m] stamp_fields [of E v x M m W]
  have known: "candidates_loop E ids ([], [], ?W1) = Some (?cs, [], ?W1)"
    using candidates_loop_known [of ids ?W1 E "[]" "[]"] assms(5) by (simp add: W1(3))
  have cs: "t \<in> set (dg_dag (w_dag W))" if "t \<in> set ?cs" for t
    using that assms(1,5) ids_ok_vertex by (fastforce simp: dag_inv_def)
  then have v: "v \<notin> set ?cs" using assms(2) by (auto simp: fresh_node_def unlinked_def)
  have ids: "map (node_uuid (w_heap ?W1)) ?cs = ids"
    unfolding map_map
  proof (rule map_idI)
    fix i assume "i \<in> set ids"
    then obtain a where "dg_vertices (w_dag ?W1) i = Some a" using assms(5) W1(3) by auto
    then show "(node_uuid (w_heap ?W1) \<circ> (\<lambda>i. the (dg_vertices (w_dag W) i))) i = i"
      using W1(1,3) ids_ok_vertex [of ?W1 i a] by (simp add: dag_inv_def)
  qed
  have none: "edges_of (w_dag W) x = []"
    using assms(1,4) by (auto simp: dag_inv_def edges_ok_def edges_of_def dom_def split: option.splits)
  show ?thesis
    using assms(3)
  proof (cases rule: InsertTxDag_cases)
    case present
    then show ?thesis using assms(4) by simp
  next
    case (incomplete cs nf W2 res)
    then show ?thesis using known by auto
  next
    case (conflict cs nf)
    then show ?thesis using known assms(4,6) W1(3) by auto
  next
    case (complete cs nf W2 res W3)
    then have add: "addToDag E v (Some ?cs) ?W1 = Some (res, W3)" using known by auto
    have wd: "dg_vertices (w_dag W') = dg_vertices (w_dag W3)" "edges_of (w_dag W') = edges_of (w_dag W3)"
      using complete(6) by (auto simp: weigh_inserted_def edges_of_def Let_def fun_eq_iff)
    show ?thesis
    proof (cases res)
      case None
      then have "attached v ?cs ?W1 W3" using addToDag_attached [OF _ v W1(1)] add by simp
      then show ?thesis using none ids by (simp add: wd attached_def edges_of_def W1)
    next
      case (Some e)
      then show ?thesis using addToDag_refused [of E v ?cs ?W1 e W3] add assms(4,6) W1(3) by (auto simp: wd)
    qed
  qed
qed

lemma publish_sent:
  assumes "publish_one E S sent leader t W = Some (Sent rec, W')"
  obtains a W1 ids sigs W2 where "new_vertex E S t False W = Some (Some a, W1)"
    and "AddTxDag E a W1 = Some (Inr (ids, sigs), W2)" and "rec = announcement E S t a ids sigs (w_heap W2)"
    and "w_dag W' = w_dag W2"
proof -
  have ns: "\<not> (IsService t \<and> IsPayload t TX_SERVICE_STOP)" using assms by (auto simp: publish_one_def split: if_splits)
  then obtain a W1 where nv: "new_vertex E S t False W = Some (Some a, W1)"
    using assms by (auto simp: publish_one_def split: option.splits if_splits)
  obtain ids sigs W2 where add: "AddTxDag E a W1 = Some (Inr (ids, sigs), W2)"
    using assms ns nv by (auto simp: publish_one_def split: option.splits if_splits sum.splits)
  have "rec = announcement E S t a ids sigs (w_heap W2)" "w_dag W' = w_dag W2"
    using assms ns nv add SyncUp_cong
    by (auto simp: publish_one_def Let_def split: if_splits)
  with nv add show ?thesis by (rule that)
qed

lemma announcement_fields:
  "map us_Id (IDs (gt_Ids (announcement E S t a ids sigs h))) = ids"
  "gt_Tx (announcement E S t a ids sigs h) = str_bytes (uuid_String (de_ext E) (node_uuid h a))"
  by (simp_all add: announcement_def GetNodeVer_def GetID_def o_def)

lemma receive_fields:
  assumes "receive_one E S parse src rec W = Some (Some msg, W1)"
  shows "parse (gt_Tx rec) = Some (sub_id msg)" and "sub_targetIds msg = IDs (gt_Ids rec)"
  using assms by (auto simp: receive_one_def split: if_splits option.splits)

lemma insert_one_dag:
  assumes "insert_one E leader msg W = Some W'"
  obtains r W1 where "InsertTxDag E (sub_vertex msg) (sub_id msg) (sub_idMajor msg) (sub_idMinor msg)
      (map us_Id (sub_targetIds msg)) W = Some (r, W1)" and "w_dag W' = w_dag W1"
proof -
  obtain r W1 where ins: "InsertTxDag E (sub_vertex msg) (sub_id msg) (sub_idMajor msg) (sub_idMinor msg)
      (map us_Id (sub_targetIds msg)) W = Some (r, W1)"
    using assms by (auto simp: insert_one_def split: option.splits)
  then have "W' = W1 \<or> SyncUp E W1 = Some W'"
    using assms by (auto simp: insert_one_def split: option.splits if_splits)
  then have "w_dag W' = w_dag W1" using SyncUp_cong by auto
  with ins show ?thesis by (rule that)
qed

section \<open>Properties\<close>


lemma demo_published:
  obtains s p rec W where "dag_run [] W" and "dg_dag (w_dag W) = [0, 1]" and "n_targets (w_heap W 1) = [0]"
    and "node_uuid (w_heap W) 1 = 7"
    and "pin_Balance p = [demo_wallet \<mapsto> Bytes INITIAL_OFFERING]" and "dag_run [] (demo_leader s p)"
    and "publish_one demo_dag_env demo_source True False (TxV1 demo_signed) (demo_leader s p) = Some (Sent rec, W)"
    and "map us_Id (IDs (gt_Ids rec)) = [0]" and "gt_Tx rec = str_bytes (uuid_String demo_ext 7)"
proof -
  obtain s p where i: "dag_Init demo_dag_env True 2 5 demo_start = Some (demo_leader s p)"
    and p: "pin_Balance p = [demo_wallet \<mapsto> Bytes INITIAL_OFFERING]"
    by (rule demo_leader_start)
  have r: "dag_run [] (demo_leader s p)" by (rule run_init [OF i])
  obtain sg W where a: "AddTxDag demo_dag_env 1 (demo_second s p) = Some (Inr ([0], sg), W)"
    using demo_add [OF p] by blast
  have ns: "\<not> IsService (TxV1 demo_signed)" by (simp add: Txv1_IsService_def demo_signed_def demo_tx_def)
  define rec where "rec = announcement demo_dag_env demo_source (TxV1 demo_signed) 1 [0] sg (w_heap W)"
  have pub: "publish_one demo_dag_env demo_source True False (TxV1 demo_signed) (demo_leader s p) = Some (Sent rec, W)"
    using demo_new_vertex [of False s p] a ns by (simp add: publish_one_def Let_def rec_def del: IsService.simps)
  have v: "dg_vertices (w_dag (demo_leader s p)) (nso_fresh demo_source) = None"
    by (simp add: demo_leader_def demo_source_def)
  have run: "dag_run [] W" by (rule run_publish [OF r demo_env_fields(5) v pub])
  have f: "dag_inv (demo_second s p)" "fresh_node (demo_second s p) 1" "node_uuid (w_heap (demo_second s p)) 1 = 7"
    using new_vertex_inv [OF demo_new_vertex dag_run_ok [OF r]] by (auto simp: demo_source_def)
  have W: "dg_dag (w_dag W) = [0, 1]" "n_targets (w_heap W 1) = [0]" "node_uuid (w_heap W) 1 = 7"
    using AddTxDag_added [OF f(1) demo_env_fields(5) f(2) a] f(3) by auto
  have "map us_Id (IDs (gt_Ids rec)) = [0]" "gt_Tx rec = str_bytes (uuid_String demo_ext 7)"
    using W(3) by (simp_all only: rec_def announcement_fields demo_env_fields)
  with run W p r pub show ?thesis by (rule that)
qed




text \<open>
  C23. What \<^verbatim>\<open>AddTxDag\<close> does on each branch. Either it reports identifiers and then the vertex is the
  last of the DAG, its targets are one or two earlier vertices with exactly these identifiers, and one link
  per target is stored; or it reports none and the DAG is as before, the transaction being lost without
  an error; or the balance is refused, and then the DAG has no new vertex but keeps the links of the
  refused one.
\<close>
theorem AddTxDag_outcome:
  assumes "dag_inv W" and "env_ok E" and "fresh_node W node" and "AddTxDag E node W = Some (r, W')"
  shows "case r of
      Inr (ids, sigs) \<Rightarrow>
        if ids = [] then dg_dag (w_dag W') = dg_dag (w_dag W) \<and> dg_links (w_dag W') = dg_links (w_dag W)
        else \<exists>ts. set ts \<subseteq> set (dg_dag (w_dag W)) \<and> length ts \<in> {1, 2} \<and> ids = map (node_uuid (w_heap W)) ts \<and>
               dg_dag (w_dag W') = dg_dag (w_dag W) @ [node] \<and> n_targets (w_heap W' node) = ts \<and>
               dg_links (w_dag W') = dg_links (w_dag W) @ map (\<lambda>t. \<lparr>link_source = node, link_target = t\<rparr>) ts
    | Inl e \<Rightarrow> e = InvalidBalance \<and> dg_dag (w_dag W') = dg_dag (w_dag W) \<and>
        (\<exists>ts. ts \<noteq> [] \<and> dg_links (w_dag W') = dg_links (w_dag W) @ map (\<lambda>t. \<lparr>link_source = node, link_target = t\<rparr>) ts)"
proof (cases r)
  case (Inl e)
  from assms(1,2,4) show ?thesis
  proof (cases rule: AddTxDag_cases)
    case (linked ts k hg sigs W2 res W3)
    then have "res = Some e" "W' = W3" using Inl by auto
    with addToDag_refused linked(5) have "e = InvalidBalance" "w_dag W' = w_dag W2" by fastforce+
    with Inl linked(1,4) show ?thesis by auto
  qed (simp add: Inl)
next
  case (Inr p)
  obtain ids sigs where p: "p = (ids, sigs)" by (cases p)
  show ?thesis
  proof (cases "ids = []")
    case True
    from assms(1,2,4) have "w_dag W' = w_dag W"
    proof (cases rule: AddTxDag_cases)
      case (dropped k)
      then show ?thesis by (simp add: weigh_added_def)
    qed (use True Inr p in auto)
    then show ?thesis using Inr p True by simp
  next
    case False
    with AddTxDag_added [OF assms(1-3) assms(4) [unfolded Inr p] False]
    obtain ts where "set ts \<subseteq> set (dg_dag (w_dag W))" "length ts \<le> 2" "ids = map (node_uuid (w_heap W)) ts"
      "dg_dag (w_dag W') = dg_dag (w_dag W) @ [node]" "n_targets (w_heap W' node) = ts"
      "dg_links (w_dag W') = dg_links (w_dag W) @ map (\<lambda>t. \<lparr>link_source = node, link_target = t\<rparr>) ts"
      by blast
    moreover have "length ts \<noteq> 0" using calculation(3) False by auto
    with calculation(2) have "length ts = 1 \<or> length ts = 2" by linarith
    ultimately show ?thesis using Inr p False by auto
  qed
qed

theorem AddTxDag_outcome_witness:
  "\<exists>W W' sg. AddTxDag demo_dag_env 1 W = Some (Inr ([0], sg), W') \<and> dg_dag (w_dag W') = dg_dag (w_dag W) @ [1]"
proof -
  obtain s p where i: "dag_Init demo_dag_env True 2 5 demo_start = Some (demo_leader s p)"
    and p: "pin_Balance p = [demo_wallet \<mapsto> Bytes INITIAL_OFFERING]"
    by (rule demo_leader_start)
  have f: "dag_inv (demo_second s p)" "fresh_node (demo_second s p) 1"
    using new_vertex_inv [OF demo_new_vertex dag_run_ok [OF run_init [OF i]]] by auto
  obtain sg W where a: "AddTxDag demo_dag_env 1 (demo_second s p) = Some (Inr ([0], sg), W)"
    using demo_add [OF p] by blast
  from AddTxDag_outcome [OF f(1) demo_env_fields(5) f(2) a] a show ?thesis
    by (intro exI [of _ "demo_second s p"] exI [of _ W] exI [of _ sg]) auto
qed

text \<open>
  C2. Replicas agree. Take a vertex one node publishes with at least one approved vertex, and another
  node that receives the announcement, leaves it in its queue for any time and then inserts it.
  If that node knows the approved vertices and accepts the vertex, both DAGs hold the vertex under the same
  identifier with the same edges.
\<close>
theorem replicas_agree:
  assumes "dag_run ql W" and "env_ok E" and "dg_vertices (w_dag W) (nso_fresh S) = None"
    and "publish_one E S sent leader t W = Some (Sent rec, W')" and "IDs (gt_Ids rec) \<noteq> []"
    and "\<forall>x. parse (str_bytes (uuid_String (de_ext E) x)) = Some x"
    and "receive_one E' S' parse src rec P0 = Some (Some msg, P1)"
    and "dag_run (msg # qp) P" and "dg_vertices (w_dag P) (nso_fresh S) = None"
    and "\<forall>i \<in> set (IDs (gt_Ids rec)). dg_vertices (w_dag P) (us_Id i) \<noteq> None"
    and "insert_one E' leader' msg P = Some P'" and "dg_vertices (w_dag P') (nso_fresh S) \<noteq> None"
  shows "edges_of (w_dag P') (nso_fresh S) = edges_of (w_dag W') (nso_fresh S) \<and>
         edges_of (w_dag W') (nso_fresh S) = map us_Id (IDs (gt_Ids rec))"
proof -
  obtain a W1 ids sigs W2 where nv: "new_vertex E S t False W = Some (Some a, W1)"
    and add: "AddTxDag E a W1 = Some (Inr (ids, sigs), W2)" and rec: "rec = announcement E S t a ids sigs (w_heap W2)"
    and W': "w_dag W' = w_dag W2"
    by (rule publish_sent [OF assms(4)])
  note v = new_vertex_inv [OF nv dag_run_ok [OF assms(1)]]
  then have f: "dag_inv W1" "fresh_node W1 a" "node_uuid (w_heap W1) a = nso_fresh S" "dg_vertices (w_dag W1) (nso_fresh S) = None"
    using assms(3) by auto
  have ids: "map us_Id (IDs (gt_Ids rec)) = ids" by (simp add: rec announcement_fields)
  then have "ids \<noteq> []" using assms(5) by auto
  note added = AddTxDag_added [OF f(1) assms(2) f(2) add this]
  have "edges_of (w_dag W1) (nso_fresh S) = []"
    using f(1,4) by (auto simp: dag_inv_def edges_ok_def edges_of_def dom_def split: option.splits)
  then have lead: "edges_of (w_dag W') (nso_fresh S) = ids"
    using added f(3) by (auto simp: W' edges_of_def)
  have "gt_Tx rec = str_bytes (uuid_String (de_ext E) (nso_fresh S))"
    using added f(3) by (auto simp: rec announcement_fields)
  then have msg: "sub_id msg = nso_fresh S" "map us_Id (sub_targetIds msg) = ids"
    using receive_fields [OF assms(7)] assms(6) ids by auto
  obtain r P2 where ins: "InsertTxDag E' (sub_vertex msg) (sub_id msg) (sub_idMajor msg) (sub_idMinor msg)
      (map us_Id (sub_targetIds msg)) P = Some (r, P2)" and P': "w_dag P' = w_dag P2"
    by (rule insert_one_dag [OF assms(11)])
  have q: "dag_inv P" "fresh_node P (sub_vertex msg)"
    using dag_run_inv [OF assms(8)] by (simp_all add: run_inv_def)
  have "\<forall>i \<in> set ids. dg_vertices (w_dag P) i \<noteq> None" using assms(10) ids by auto
  then have "edges_of (w_dag P') (nso_fresh S) = ids"
    using InsertTxDag_known [OF q ins [unfolded msg]] assms(9,12) P' by simp
  with lead ids show ?thesis by simp
qed

definition demo_parse :: "bytes \<Rightarrow> uuid option" where
  "demo_parse b = (case hexDecode (map (\<lambda>x. char_of (unat x)) b) of (bs, None) \<Rightarrow> Some (word_of_int (SetBytes bs)) | _ \<Rightarrow> None)"

lemma demo_parse_ok: "demo_parse (str_bytes (uuid_String demo_ext x)) = Some x"
proof -
  have "char_of (unat (of_char c :: byte)) = c" for c
  proof -
    have "unat (of_char c :: byte) = of_char c mod 256"
      by (subst of_nat_of_char [symmetric]) (simp add: unat_of_nat)
    then show ?thesis by simp
  qed
  then have "map (\<lambda>x. char_of (unat x)) (str_bytes s) = s" for s
    by (simp add: str_bytes_def o_def)
  then show ?thesis by (simp add: demo_parse_def demo_ext_simps)
qed

lemma demo_insert:
  assumes "pin_Balance p = [demo_wallet \<mapsto> Bytes INITIAL_OFFERING]"
  shows "\<exists>W'. InsertTxDag demo_dag_env 1 7 M m [0] (demo_second s p) = Some (None, W') \<and> dg_vertices (w_dag W') 7 = Some 1"
proof -
  let ?W1 = "stamp_vertex demo_dag_env 1 7 M m (demo_second s p)"
  have d: "dg_vertices (w_dag (demo_second s p)) = [0 \<mapsto> 0]"
    by (simp add: demo_second_def demo_leader_def)
  have c: "candidates_loop demo_dag_env [0] ([], [], ?W1) = Some ([0], [], ?W1)"
    using candidates_loop_known [of "[0]" ?W1 demo_dag_env "[]" "[]"] d by (simp add: stamp_fields)
  have v: "n_tx (w_heap ?W1 1) = TxV1 demo_signed"
    by (simp add: stamp_vertex_def Let_def demo_vertex_def zeroNode_def)
  obtain wc where "UpdateBalanceIfValid demo_ext [p] (w_heap ?W1 1) Map.empty = Some (True, wc)"
    using demo_balance [OF assms v] by blast
  then obtain W3 where a: "addToDag demo_dag_env 1 (Some [0]) ?W1 = Some (None, W3)"
    by (simp add: addToDag_def Let_def link_one_def stamp_fields)
  then have "dg_vertices (w_dag W3) 7 = Some 1"
    by (rule addToDag_success) (simp_all add: stamp_fields)
  moreover have "find_collision demo_dag_env ?W1 1 [0] M m = (M, m, None)"
    by (simp add: find_collision_def demo_dag_env_def)
  ultimately show ?thesis
    using c a d by (simp add: InsertTxDag_def Let_def stamp_fields Dag_getById_def weigh_inserted_def)
qed

theorem replicas_agree_witness:
  "\<exists>s p rec W' msg P'.
     publish_one demo_dag_env demo_source True False (TxV1 demo_signed) (demo_leader s p) = Some (Sent rec, W') \<and>
     receive_one demo_dag_env demo_source demo_parse ''b'' rec (demo_leader s p) = Some (Some msg, demo_second s p) \<and>
     insert_one demo_dag_env False msg (demo_second s p) = Some P' \<and>
     edges_of (w_dag P') 7 = edges_of (w_dag W') 7 \<and> edges_of (w_dag W') 7 = [0]"
proof -
  obtain s p rec W' where p: "pin_Balance p = [demo_wallet \<mapsto> Bytes INITIAL_OFFERING]" and r: "dag_run [] (demo_leader s p)"
    and pub: "publish_one demo_dag_env demo_source True False (TxV1 demo_signed) (demo_leader s p) = Some (Sent rec, W')"
    and ids: "map us_Id (IDs (gt_Ids rec)) = [0]" and tx: "gt_Tx rec = str_bytes (uuid_String demo_ext 7)"
    by (rule demo_published)
  define msg where "msg = \<lparr>sub_vertex = 1, sub_id = 7, sub_idMajor = TxIdMajor rec, sub_idMinor = TxIdMinor rec,
    sub_targetIds = IDs (gt_Ids rec)\<rparr>"
  have t: "gt_Transaction rec = Some (TxV1 demo_signed)"
    by (rule publish_sent [OF pub]) (simp add: announcement_def GetNodeVer_def)
  have rc: "receive_one demo_dag_env demo_source demo_parse ''b'' rec (demo_leader s p) = Some (Some msg, demo_second s p)"
    using t demo_new_vertex [of True s p]
    by (simp add: receive_one_def tx demo_parse_ok msg_def demo_source_def [THEN arg_cong [of _ _ nso_host]])
  have run: "dag_run [msg] (demo_second s p)" using run_receive [OF r rc] by simp
  have d: "dg_vertices (w_dag (demo_second s p)) = [0 \<mapsto> 0]" "dg_vertices (w_dag (demo_leader s p)) = [0 \<mapsto> 0]"
    by (simp_all add: demo_second_def demo_leader_def)
  obtain P' where ins: "insert_one demo_dag_env False msg (demo_second s p) = Some P'" "dg_vertices (w_dag P') 7 = Some 1"
    using demo_insert [OF p, of "TxIdMajor rec" "TxIdMinor rec" s] ids by (auto simp: insert_one_def msg_def)
  have "\<forall>i \<in> set (IDs (gt_Ids rec)). us_Id i = 0" using ids by (auto simp: map_eq_Cons_conv)
  moreover have "nso_fresh demo_source = 7" by (simp add: demo_source_def)
  ultimately have "edges_of (w_dag P') 7 = edges_of (w_dag W') 7 \<and> edges_of (w_dag W') 7 = [0]"
    using replicas_agree [OF r demo_env_fields(5) _ pub _ _ rc run _ _ ins(1)] ins(2) d ids demo_parse_ok by auto
  with pub rc ins(1) show ?thesis by blast
qed

text \<open>
  C25. The error path of \<^verbatim>\<open>InsertTxDag\<close>: when it reports missing sources, these are exactly the announced
  vertices that are neither in the DAG nor in a pin. The vertex has been stored all the same, as the last one of the
  DAG, remembers precisely the missing identifiers for later, and no link has been recorded.
\<close>
theorem insert_missing_sources:
  assumes "dag_inv W" and "fresh_node W v" and "n_missingTargets (w_heap W v) = Map.empty"
    and "InsertTxDag E v x M m ids W = Some (Some (MissingSources y nf), W')"
  shows "y = x \<and> nf = filter (unknown_id E W) ids \<and>
         dg_dag (w_dag W') = dg_dag (w_dag W) @ [v] \<and> dg_links (w_dag W') = dg_links (w_dag W) \<and>
         dom (n_missingTargets (w_heap W' v)) = uuid_String (de_ext E) ` set nf \<and>
         length (n_targets (w_heap W' v)) < length ids"
proof -
  let ?W1 = "stamp_vertex E v x M m W"
  from assms(4) show ?thesis
  proof (cases rule: InsertTxDag_cases)
    case (incomplete cs nf' W2 res)
    then have res: "res = None" "y = x" "nf' = nf" by (auto split: if_splits)
    have "unknown_id E ?W1 = unknown_id E W" by (simp add: unknown_id_def stamp_fields fun_eq_iff)
    with candidates_loop_missing [OF incomplete(2)] res have nf: "nf = filter (unknown_id E W) ids" by simp
    note c = candidates_loop_inv [OF incomplete(2) stamp_inv(1) [OF assms(1,2)]]
    have v: "fresh_node W2 v" "v \<notin> set cs" "w_heap W2 v = w_heap ?W1 v" "w_dag W2 = w_dag W" "dag_inv W2"
      using c stamp_inv(2) [OF assms(1,2)] by (auto simp: stamp_fields)
    have len: "length cs \<le> length ids"
    proof -
      have "candidates_loop E is (cs0, nf0, V) = Some (cs1, nf1, V') \<Longrightarrow> length cs1 \<le> length cs0 + length is" for "is" cs0 nf0 V cs1 nf1 V'
        by (induction "is" arbitrary: cs0 nf0 V) (fastforce simp: Let_def split: option.splits prod.splits)+
      from this [OF incomplete(2)] show ?thesis by simp
    qed
    have m0: "n_missingTargets (w_heap ?W1 v) = Map.empty" using assms(3) by (simp add: stamp_vertex_def Let_def)
    obtain wc ch where W': "W' = (note_missing E v nf W2)\<lparr>w_node := (w_node (note_missing E v nf W2))\<lparr>ns_walletCache := wc\<rparr>,
               w_heap := linked (pe_now (de_pin E)) v cs (w_heap (note_missing E v nf W2)),
               w_dag := (w_dag (note_missing E v nf W2))
                 \<lparr>dg_dag := dg_dag (w_dag (note_missing E v nf W2)) @ [v],
                  dg_vertices := (dg_vertices (w_dag (note_missing E v nf W2)))(node_uuid (w_heap (note_missing E v nf W2)) v \<mapsto> v),
                  dg_edges := (dg_edges (w_dag (note_missing E v nf W2)))(node_uuid (w_heap (note_missing E v nf W2)) v \<mapsto>
                    edges_of (w_dag (note_missing E v nf W2)) (node_uuid (w_heap (note_missing E v nf W2)) v) @
                    map (node_uuid (w_heap (note_missing E v nf W2))) cs),
                  dg_txCh := ch\<rparr>,
               w_counter := counter_add (linked (pe_now (de_pin E)) v cs (w_heap (note_missing E v nf W2))) v
                 (w_counter (note_missing E v nf W2))\<rparr>"
      using incomplete(4) res v(2) by (auto elim: addToDag_success)
    have "dom (n_missingTargets (w_heap W' v)) = uuid_String (de_ext E) ` set nf"
      by (auto simp: W' note_missing_def Let_def v(3) m0 fold_missing dom_def)
    then show ?thesis
      using res nf v incomplete(3) len by (simp add: W' note_missing_def Let_def fresh_node_def)
  next
    case (complete cs nf' W2 res W3)
    then show ?thesis using addToDag_refused [of E v cs W2 "MissingSources y nf" W3] by auto
  qed auto
qed

theorem insert_missing_sources_witness:
  "\<exists>s p W'. InsertTxDag demo_dag_env 1 7 0 0 [0, 5] (demo_second s p) = Some (Some (MissingSources 7 [5]), W') \<and>
     dg_dag (w_dag W') = [0, 1] \<and> dom (n_missingTargets (w_heap W' 1)) = {uuid_String demo_ext 5}"
proof -
  obtain s p where i: "dag_Init demo_dag_env True 2 5 demo_start = Some (demo_leader s p)"
    and p: "pin_Balance p = [demo_wallet \<mapsto> Bytes INITIAL_OFFERING]" "pin_Nodes p = []"
    by (rule demo_leader_start)
  let ?W = "demo_second s p"
  have f: "dag_inv ?W" "fresh_node ?W 1"
    using new_vertex_inv [OF demo_new_vertex dag_run_ok [OF run_init [OF i]]] by auto
  let ?W1 = "stamp_vertex demo_dag_env 1 7 0 0 ?W"
  have d: "dg_vertices (w_dag ?W) = [0 \<mapsto> 0]" by (simp add: demo_second_def demo_leader_def)
  have c: "candidates_loop demo_dag_env [0, 5] ([], [], ?W1) = Some ([0], [5], ?W1)"
    using d p(2) by (simp add: Dag_getById_def stamp_fields Pins_getById_def)
  let ?W2 = "note_missing demo_dag_env 1 [5] ?W1"
  have v: "n_tx (w_heap ?W2 1) = TxV1 demo_signed"
    by (simp add: note_missing_def stamp_vertex_def Let_def demo_vertex_def zeroNode_def)
  have n: "w_node (note_missing E a xs V) = w_node V" for E a xs V by (simp add: note_missing_def Let_def)
  obtain wc where "UpdateBalanceIfValid demo_ext [p] (w_heap ?W2 1) Map.empty = Some (True, wc)"
    using demo_balance [OF p(1) v] by blast
  then obtain W3 where a: "addToDag demo_dag_env 1 (Some [0]) ?W2 = Some (None, W3)"
    by (simp add: addToDag_def Let_def link_one_def n stamp_fields)
  have ins: "InsertTxDag demo_dag_env 1 7 0 0 [0, 5] ?W = Some (Some (MissingSources 7 [5]), W3)"
    using c a d by (simp add: InsertTxDag_def Let_def stamp_fields Dag_getById_def)
  have "n_missingTargets (w_heap ?W 1) = Map.empty"
    by (simp add: demo_vertex_def zeroNode_def)
  from insert_missing_sources [OF f this ins] ins show ?thesis
    by (intro exI [of _ s] exI [of _ p] exI [of _ W3]) simp
qed

end
