(* ===== verification/Lockfree_Queue.thy ===== *)
theory Lockfree_Queue
  imports Grape_Prelude
begin

text \<open>
  The lock-free queue of \<^verbatim>\<open>src/queues/lfqueue.go\<close>, which carries transactions from the services to the
  publisher and from the subscriber to the inserter.

  Several goroutines run \<^verbatim>\<open>Enqueue\<close> and \<^verbatim>\<open>Dequeue\<close> at the same time. A goroutine is a program counter with its
  local variables (\<open>lf_pc\<close>); one step of it is one atomic access to shared memory: a load, a
  compare-and-swap, an update of the size counter, a send or a receive on the channel. The
  relation \<open>lf_reach\<close> holds for the states that any interleaving of such steps can reach. Holders are never
  reused while a goroutine can see them (garbage collection), so allocation takes a fresh address.
  A value is an \<^verbatim>\<open>interface{}\<close>: \<open>None\<close> is nil.
\<close>

section \<open>Shared memory\<close>

type_synonym ptr = nat
type_synonym 'v interface = "'v option"

record 'v holder =
  h_next :: "ptr option"
  h_value :: "'v interface"

record 'v LockFreeQueue =
  q_holders :: "ptr \<Rightarrow> 'v holder"
  q_free :: ptr
  q_head :: ptr
  q_tail :: ptr
  q_sz :: "64 word"
  q_ch :: nat
  q_synch :: bool

definition ch_capacity :: nat where
  "ch_capacity = 2 ^ 15"

definition NewLockFreeQueue :: "bool \<Rightarrow> 'v LockFreeQueue" where
  "NewLockFreeQueue synchr =
     \<lparr>q_holders = (\<lambda>_. \<lparr>h_next = None, h_value = None\<rparr>), q_free = 1, q_head = 0, q_tail = 0,
      q_sz = 0, q_ch = 0, q_synch = synchr\<rparr>"

definition Len :: "'v LockFreeQueue \<Rightarrow> 64 word" where
  "Len q = q_sz q"

text \<open>The compare-and-swap on the three kinds of pointer; the result tells whether it swapped.\<close>

definition CAS_next :: "ptr \<Rightarrow> ptr option \<Rightarrow> ptr \<Rightarrow> 'v LockFreeQueue \<Rightarrow> bool \<times> 'v LockFreeQueue" where
  "CAS_next a old new q =
     (if h_next (q_holders q a) = old
      then (True, q\<lparr>q_holders := (q_holders q)(a := (q_holders q a)\<lparr>h_next := Some new\<rparr>)\<rparr>)
      else (False, q))"

definition CAS_tail :: "ptr \<Rightarrow> ptr \<Rightarrow> 'v LockFreeQueue \<Rightarrow> bool \<times> 'v LockFreeQueue" where
  "CAS_tail old new q = (if q_tail q = old then (True, q\<lparr>q_tail := new\<rparr>) else (False, q))"

definition CAS_head :: "ptr \<Rightarrow> ptr \<Rightarrow> 'v LockFreeQueue \<Rightarrow> bool \<times> 'v LockFreeQueue" where
  "CAS_head old new q = (if q_head q = old then (True, q\<lparr>q_head := new\<rparr>) else (False, q))"

section \<open>One goroutine\<close>

text \<open>
  The arguments are the local variables, in the order \<^verbatim>\<open>h, tail, next\<close> for \<^verbatim>\<open>Enqueue\<close> and \<^verbatim>\<open>head, tail, next, v\<close> for
  \<^verbatim>\<open>Dequeue\<close>. Each constructor is named after the access that comes next.
\<close>

datatype 'v lf_pc =
    Idle
  | EnqTail ptr
  | EnqNext ptr ptr
  | EnqCheck ptr ptr "ptr option"
  | EnqLink ptr ptr
  | EnqSwing ptr ptr
  | EnqHelp ptr ptr ptr
  | EnqCount
  | EnqSignal
  | EnqDone
  | DeqWait
  | DeqHead
  | DeqTail ptr
  | DeqNext ptr ptr
  | DeqCheck ptr ptr "ptr option"
  | DeqHelp ptr ptr
  | DeqRead ptr "ptr option"
  | DeqSwing ptr ptr "'v interface"
  | DeqCount "'v interface"
  | DeqDone "'v interface" "64 word"

datatype 'a outcome = Blocks | Panics | Goes 'a

definition Enqueue :: "'v interface \<Rightarrow> 'v LockFreeQueue \<Rightarrow> 'v lf_pc \<times> 'v LockFreeQueue" where
  "Enqueue v q =
     (EnqTail (q_free q),
      q\<lparr>q_holders := (q_holders q)(q_free q := \<lparr>h_next = None, h_value = v\<rparr>), q_free := Suc (q_free q)\<rparr>)"

definition Dequeue :: "'v lf_pc" where
  "Dequeue = DeqWait"

fun enq_step :: "'v lf_pc \<Rightarrow> 'v LockFreeQueue \<Rightarrow> ('v lf_pc \<times> 'v LockFreeQueue) outcome" where
  "enq_step (EnqTail h) q = Goes (EnqNext h (q_tail q), q)"
| "enq_step (EnqNext h tail) q = Goes (EnqCheck h tail (h_next (q_holders q tail)), q)"
| "enq_step (EnqCheck h tail next) q =
     Goes (if tail = q_tail q then (case next of None \<Rightarrow> EnqLink h tail | Some n \<Rightarrow> EnqHelp h tail n)
           else EnqTail h, q)"
| "enq_step (EnqLink h tail) q =
     (let (ok, q') = CAS_next tail None h q in Goes (if ok then EnqSwing h tail else EnqTail h, q'))"
| "enq_step (EnqSwing h tail) q = Goes (EnqCount, snd (CAS_tail tail h q))"
| "enq_step EnqCount q = Goes (if q_synch q then EnqSignal else EnqDone, q\<lparr>q_sz := q_sz q + 1\<rparr>)"
| "enq_step EnqSignal q =
     (if q_ch q < ch_capacity then Goes (EnqDone, q\<lparr>q_ch := Suc (q_ch q)\<rparr>) else Blocks)"
| "enq_step (EnqHelp h tail n) q = Goes (EnqTail h, snd (CAS_tail tail n q))"
| "enq_step _ q = Blocks"

fun deq_step :: "'v lf_pc \<Rightarrow> 'v LockFreeQueue \<Rightarrow> ('v lf_pc \<times> 'v LockFreeQueue) outcome" where
  "deq_step DeqWait q =
     (if \<not> q_synch q then Goes (DeqHead, q)
      else if 0 < q_ch q then Goes (DeqHead, q\<lparr>q_ch := q_ch q - 1\<rparr>) else Blocks)"
| "deq_step DeqHead q = Goes (DeqTail (q_head q), q)"
| "deq_step (DeqTail head) q = Goes (DeqNext head (q_tail q), q)"
| "deq_step (DeqNext head tail) q = Goes (DeqCheck head tail (h_next (q_holders q head)), q)"
| "deq_step (DeqCheck head tail next) q =
     Goes (if head = q_head q
           then (if head = tail
                 then (case next of None \<Rightarrow> DeqDone None 0 | Some n \<Rightarrow> DeqHelp tail n)
                 else DeqRead head next)
           else DeqWait, q)"
| "deq_step (DeqHelp tail n) q = Goes (DeqWait, snd (CAS_tail tail n q))"
| "deq_step (DeqRead head next) q =
     (case next of None \<Rightarrow> Panics | Some n \<Rightarrow> Goes (DeqSwing head n (h_value (q_holders q n)), q))"
| "deq_step (DeqSwing head n v) q =
     (let (ok, q') = CAS_head head n q in Goes (if ok then DeqCount v else DeqWait, q'))"
| "deq_step (DeqCount v) q = (let n = q_sz q - 1 in Goes (DeqDone v n, q\<lparr>q_sz := n\<rparr>))"
| "deq_step _ q = Blocks"

fun is_enq :: "'v lf_pc \<Rightarrow> bool" where
  "is_enq (EnqTail _) = True"
| "is_enq (EnqNext _ _) = True"
| "is_enq (EnqCheck _ _ _) = True"
| "is_enq (EnqLink _ _) = True"
| "is_enq (EnqSwing _ _) = True"
| "is_enq (EnqHelp _ _ _) = True"
| "is_enq EnqCount = True"
| "is_enq EnqSignal = True"
| "is_enq EnqDone = True"
| "is_enq _ = False"

definition lf_step :: "'v lf_pc \<Rightarrow> 'v LockFreeQueue \<Rightarrow> ('v lf_pc \<times> 'v LockFreeQueue) outcome" where
  "lf_step p q = (if is_enq p then enq_step p q else deq_step p q)"

section \<open>All interleavings\<close>

text \<open>
  The history is the sequence of calls and returns, each with its goroutine. \<open>C\<close> is the set of
  goroutines that call \<^verbatim>\<open>Dequeue\<close>.
\<close>

type_synonym tid = nat

datatype 'v q_event =
    CallEnq tid "'v interface"
  | RetEnq tid
  | CallDeq tid
  | RetDeq tid "'v interface"

inductive lf_reach ::
  "tid set \<Rightarrow> bool \<Rightarrow> 'v q_event list \<Rightarrow> 'v LockFreeQueue \<Rightarrow> (tid \<Rightarrow> 'v lf_pc) \<Rightarrow> bool"
  for C :: "tid set" and synchr :: bool where
  lf_start: "lf_reach C synchr [] (NewLockFreeQueue synchr) (\<lambda>_. Idle)"
| lf_enq: "lf_reach C synchr es q P \<Longrightarrow> P t = Idle \<Longrightarrow> Enqueue v q = (p, q') \<Longrightarrow>
    lf_reach C synchr (es @ [CallEnq t v]) q' (P(t := p))"
| lf_deq: "lf_reach C synchr es q P \<Longrightarrow> P t = Idle \<Longrightarrow> t \<in> C \<Longrightarrow>
    lf_reach C synchr (es @ [CallDeq t]) q (P(t := Dequeue))"
| lf_go: "lf_reach C synchr es q P \<Longrightarrow> lf_step (P t) q = Goes (p, q') \<Longrightarrow>
    lf_reach C synchr es q' (P(t := p))"
| lf_ret_enq: "lf_reach C synchr es q P \<Longrightarrow> P t = EnqDone \<Longrightarrow>
    lf_reach C synchr (es @ [RetEnq t]) q (P(t := Idle))"
| lf_ret_deq: "lf_reach C synchr es q P \<Longrightarrow> P t = DeqDone v n \<Longrightarrow>
    lf_reach C synchr (es @ [RetDeq t v]) q (P(t := Idle))"

text \<open>The values in the queue: those of the holders after the head, as far as the links go.\<close>

fun follow :: "nat \<Rightarrow> 'v LockFreeQueue \<Rightarrow> ptr option \<Rightarrow> 'v interface list" where
  "follow (Suc fuel) q (Some a) = h_value (q_holders q a) # follow fuel q (h_next (q_holders q a))"
| "follow _ q _ = []"

definition contents :: "'v LockFreeQueue \<Rightarrow> 'v interface list" where
  "contents q = follow (q_free q) q (h_next (q_holders q (q_head q)))"

section \<open>The atomic queue\<close>

text \<open>
  The specification: a list, whose operations take effect at one instant between call and return.
  A call of \<^verbatim>\<open>Dequeue\<close> may return nil without taking an element only if the queue was
  empty at some instant since the call, and in the synchronous mode (\<open>synchr\<close>) not at all.
\<close>

datatype 'v q_status = Free | Putting "'v interface" | Put | Getting bool | Got "'v interface"

inductive atomic_queue :: "bool \<Rightarrow> 'v q_event list \<Rightarrow> 'v interface list \<Rightarrow> (tid \<Rightarrow> 'v q_status) \<Rightarrow> bool"
  for synchr :: bool where
  aq_start: "atomic_queue synchr [] [] (\<lambda>_. Free)"
| aq_call_enq: "atomic_queue synchr es xs S \<Longrightarrow> S t = Free \<Longrightarrow>
    atomic_queue synchr (es @ [CallEnq t v]) xs (S(t := Putting v))"
| aq_enq: "atomic_queue synchr es xs S \<Longrightarrow> S t = Putting v \<Longrightarrow> atomic_queue synchr es (xs @ [v]) (S(t := Put))"
| aq_ret_enq: "atomic_queue synchr es xs S \<Longrightarrow> S t = Put \<Longrightarrow> atomic_queue synchr (es @ [RetEnq t]) xs (S(t := Free))"
| aq_call_deq: "atomic_queue synchr es xs S \<Longrightarrow> S t = Free \<Longrightarrow>
    atomic_queue synchr (es @ [CallDeq t]) xs (S(t := Getting False))"
| aq_deq: "atomic_queue synchr es (v # xs) S \<Longrightarrow> S t = Getting b \<Longrightarrow> atomic_queue synchr es xs (S(t := Got v))"
| aq_see_empty: "atomic_queue synchr es [] S \<Longrightarrow> S t = Getting b \<Longrightarrow> \<not> synchr \<Longrightarrow>
    atomic_queue synchr es [] (S(t := Getting True))"
| aq_empty: "atomic_queue synchr es xs S \<Longrightarrow> S t = Getting True \<Longrightarrow> atomic_queue synchr es xs (S(t := Got None))"
| aq_ret_deq: "atomic_queue synchr es xs S \<Longrightarrow> S t = Got v \<Longrightarrow>
    atomic_queue synchr (es @ [RetDeq t v]) xs (S(t := Free))"

section \<open>The invariant\<close>

text \<open>
  \<open>ns\<close> lists every holder that was ever linked, in order, starting with the first dummy; \<open>hi\<close> and \<open>ti\<close>
  are the positions of head and tail in it.
\<close>

definition pos :: "ptr list \<Rightarrow> ptr \<Rightarrow> nat \<Rightarrow> bool" where
  "pos ns a i \<longleftrightarrow> i < length ns \<and> ns ! i = a"

definition after :: "ptr list \<Rightarrow> nat \<Rightarrow> ptr option" where
  "after ns i = (if Suc i < length ns then Some (ns ! Suc i) else None)"

fun own :: "'v lf_pc \<Rightarrow> ptr option" where
  "own (EnqTail h) = Some h"
| "own (EnqNext h _) = Some h"
| "own (EnqCheck h _ _) = Some h"
| "own (EnqLink h _) = Some h"
| "own (EnqHelp h _ _) = Some h"
| "own _ = None"

fun local_ok :: "ptr list \<Rightarrow> nat \<Rightarrow> nat \<Rightarrow> 'v LockFreeQueue \<Rightarrow> 'v lf_pc \<Rightarrow> bool" where
  "local_ok ns hi ti q (EnqNext h tail) \<longleftrightarrow> (\<exists>i \<le> ti. pos ns tail i)"
| "local_ok ns hi ti q (EnqCheck h tail next) \<longleftrightarrow>
     (\<exists>i \<le> ti. pos ns tail i \<and> (\<forall>n. next = Some n \<longrightarrow> pos ns n (Suc i)))"
| "local_ok ns hi ti q (EnqLink h tail) \<longleftrightarrow> (\<exists>i \<le> ti. pos ns tail i)"
| "local_ok ns hi ti q (EnqSwing h tail) \<longleftrightarrow> (\<exists>i. pos ns tail i \<and> pos ns h (Suc i))"
| "local_ok ns hi ti q (EnqHelp h tail n) \<longleftrightarrow> (\<exists>i. pos ns tail i \<and> pos ns n (Suc i))"
| "local_ok ns hi ti q (DeqTail head) \<longleftrightarrow> (\<exists>i \<le> hi. pos ns head i)"
| "local_ok ns hi ti q (DeqNext head tail) \<longleftrightarrow> (\<exists>i \<le> hi. \<exists>j \<le> ti. i \<le> j \<and> pos ns head i \<and> pos ns tail j)"
| "local_ok ns hi ti q (DeqCheck head tail next) \<longleftrightarrow>
     (\<exists>i \<le> hi. \<exists>j \<le> ti. i \<le> j \<and> pos ns head i \<and> pos ns tail j \<and>
        (\<forall>n. next = Some n \<longrightarrow> pos ns n (Suc i)) \<and> (i < j \<longrightarrow> next \<noteq> None))"
| "local_ok ns hi ti q (DeqHelp tail n) \<longleftrightarrow> (\<exists>i. pos ns tail i \<and> pos ns n (Suc i))"
| "local_ok ns hi ti q (DeqRead head next) \<longleftrightarrow>
     (\<exists>n i. next = Some n \<and> i \<le> hi \<and> Suc i \<le> ti \<and> pos ns head i \<and> pos ns n (Suc i))"
| "local_ok ns hi ti q (DeqSwing head n v) \<longleftrightarrow>
     (\<exists>i \<le> hi. Suc i \<le> ti \<and> pos ns head i \<and> pos ns n (Suc i) \<and> v = h_value (q_holders q n))"
| "local_ok ns hi ti q _ \<longleftrightarrow> True"

definition shape :: "ptr list \<Rightarrow> nat \<Rightarrow> nat \<Rightarrow> 'v LockFreeQueue \<Rightarrow> bool" where
  "shape ns hi ti q \<longleftrightarrow>
     distinct ns \<and> (\<forall>i < length ns. h_next (q_holders q (ns ! i)) = after ns i) \<and>
     (\<forall>a \<in> set ns. a < q_free q) \<and> pos ns (q_head q) hi \<and> pos ns (q_tail q) ti \<and> hi \<le> ti \<and> length ns \<le> ti + 2"

definition owned_ok :: "ptr list \<Rightarrow> 'v LockFreeQueue \<Rightarrow> (tid \<Rightarrow> 'v lf_pc) \<Rightarrow> bool" where
  "owned_ok ns q P \<longleftrightarrow>
     (\<forall>t h. own (P t) = Some h \<longrightarrow> h \<notin> set ns \<and> h < q_free q \<and> h_next (q_holders q h) = None) \<and>
     (\<forall>t u h. own (P t) = Some h \<longrightarrow> own (P u) = Some h \<longrightarrow> t = u)"

definition lag_ok :: "ptr list \<Rightarrow> nat \<Rightarrow> (tid \<Rightarrow> 'v lf_pc) \<Rightarrow> bool" where
  "lag_ok ns ti P \<longleftrightarrow> (length ns = ti + 2 \<longrightarrow> (\<exists>t. P t = EnqSwing (ns ! Suc ti) (ns ! ti)))"

definition lf_inv :: "ptr list \<Rightarrow> nat \<Rightarrow> nat \<Rightarrow> 'v LockFreeQueue \<Rightarrow> (tid \<Rightarrow> 'v lf_pc) \<Rightarrow> bool" where
  "lf_inv ns hi ti q P \<longleftrightarrow>
     shape ns hi ti q \<and> owned_ok ns q P \<and> (\<forall>t. local_ok ns hi ti q (P t)) \<and> lag_ok ns ti P"

lemma pos_append: "pos ns a i \<Longrightarrow> pos (ns @ ms) a i"
  by (auto simp: pos_def nth_append)

lemma pos_unique: "distinct ns \<Longrightarrow> pos ns a i \<Longrightarrow> pos ns a j \<Longrightarrow> i = j"
  by (auto simp: pos_def nth_eq_iff_index_eq)

lemma pos_set: "pos ns a i \<Longrightarrow> a \<in> set ns"
  by (auto simp: pos_def)

lemma shape_next:
  "shape ns hi ti q \<Longrightarrow> pos ns a i \<Longrightarrow> h_next (q_holders q a) = after ns i"
  by (auto simp: shape_def pos_def)

lemma local_mono:
  assumes "local_ok ns hi ti q p" "hi \<le> hi'" "ti \<le> ti'"
    and "\<And>a. a \<in> set ns \<Longrightarrow> h_value (q_holders q' a) = h_value (q_holders q a)"
  shows "local_ok (ns @ ms) hi' ti' q' p"
proof -
  note p = pos_append [of ns _ _ ms]
  note le = le_trans [OF _ assms(2)] le_trans [OF _ assms(3)]
  show ?thesis
  proof (cases p)
    case (DeqSwing head n v)
    then show ?thesis using assms(1,4) by simp (metis p le pos_set)
  next
    case (DeqCheck head tail n)
    then obtain i j where "i \<le> hi" "j \<le> ti" "i \<le> j" "pos ns head i" "pos ns tail j"
        "\<And>m. n = Some m \<Longrightarrow> pos ns m (Suc i)" "i < j \<Longrightarrow> n \<noteq> None"
      using assms(1) by auto
    then show ?thesis unfolding DeqCheck local_ok.simps
      by (intro exI [of _ i] exI [of _ j]) (auto intro: p le)
  next
    case (DeqRead head n)
    then obtain m i where "n = Some m" "i \<le> hi" "Suc i \<le> ti" "pos ns head i" "pos ns m (Suc i)"
      using assms(1) by auto
    then show ?thesis unfolding DeqRead local_ok.simps
      by (intro exI [of _ m] exI [of _ i]) (auto intro: p le)
  next
    case (EnqCheck h tail n)
    then obtain i where "i \<le> ti" "pos ns tail i" "\<And>m. n = Some m \<Longrightarrow> pos ns m (Suc i)"
      using assms(1) by auto
    then show ?thesis unfolding EnqCheck local_ok.simps by (intro exI [of _ i]) (auto intro: p le)
  next
    case (DeqNext head tail)
    then show ?thesis using assms(1) by simp (meson p le)
  next
    case (EnqNext h tail)
    then show ?thesis using assms(1) by simp (meson p le)
  next
    case (EnqLink h tail)
    then show ?thesis using assms(1) by simp (meson p le)
  next
    case (DeqTail head)
    then show ?thesis using assms(1) by simp (meson p le)
  qed (use assms(1) in \<open>auto intro: p\<close>)
qed

text \<open>
  One step of goroutine \<open>t\<close> keeps the invariant if it keeps the shape of the list, appends at most its own
  holder, moves head and tail forwards and leaves the holders of the others alone.
\<close>

lemma inv_update:
  assumes inv: "lf_inv ns hi ti q P"
    and shape: "shape (ns @ ms) hi' ti' q'" and fwd: "hi \<le> hi'" "ti \<le> ti'" "q_free q \<le> q_free q'"
    and vals: "\<And>a. a < q_free q \<Longrightarrow> h_value (q_holders q' a) = h_value (q_holders q a)"
    and nexts: "\<And>a. a < q_free q \<Longrightarrow> a \<notin> set ns \<Longrightarrow> h_next (q_holders q' a) = h_next (q_holders q a)"
    and ms: "\<And>a. a \<in> set ms \<Longrightarrow> own (P t) = Some a \<and> own p = None"
    and own: "\<And>h. own p = Some h \<Longrightarrow> own (P t) = Some h \<or>
        (q_free q \<le> h \<and> h < q_free q' \<and> h_next (q_holders q' h) = None \<and> h \<notin> set ns)"
    and loc: "local_ok (ns @ ms) hi' ti' q' p"
    and lag: "lag_ok (ns @ ms) ti' (P(t := p))"
  shows "lf_inv (ns @ ms) hi' ti' q' (P(t := p))"
proof -
  have sh: "shape ns hi ti q" and ow: "owned_ok ns q P" and lo: "\<And>u. local_ok ns hi ti q (P u)"
    using inv by (auto simp: lf_inv_def)
  have below: "a < q_free q" if "a \<in> set ns" for a using sh that by (auto simp: shape_def)
  have "local_ok (ns @ ms) hi' ti' q' ((P(t := p)) u)" for u
    using loc local_mono [OF lo fwd(1,2) vals] below by auto
  moreover have "owned_ok (ns @ ms) q' (P(t := p))"
    unfolding owned_ok_def
  proof (intro conjI allI impI)
    fix u h assume u: "own ((P(t := p)) u) = Some h"
    show "h \<notin> set (ns @ ms)" using u ow ms own unfolding owned_ok_def
      by (auto split: if_splits)
    show "h < q_free q'" using u ow own fwd(3) unfolding owned_ok_def
      by (auto split: if_splits intro: less_le_trans)
    show "h_next (q_holders q' h) = None" using u ow own nexts unfolding owned_ok_def
      by (auto split: if_splits)
  next
    fix u w h assume u: "own ((P(t := p)) u) = Some h" and w: "own ((P(t := p)) w) = Some h"
    have old: "own (P x) = Some h" if "own ((P(t := p)) x) = Some h" "h < q_free q" for x
      using that own by (fastforce split: if_splits)
    have new: "x = t" if "own ((P(t := p)) x) = Some h" "\<not> h < q_free q" for x
      using that ow unfolding owned_ok_def by (auto split: if_splits)
    show "u = w" using old [OF u] old [OF w] new [OF u] new [OF w] ow unfolding owned_ok_def by blast
  qed
  ultimately show ?thesis using shape lag by (simp add: lf_inv_def)
qed

lemma lf_inv_shape: "lf_inv ns hi ti q P \<Longrightarrow> shape ns hi ti q"
  by (simp add: lf_inv_def)

lemma lf_inv_local: "lf_inv ns hi ti q P \<Longrightarrow> P t = p \<Longrightarrow> local_ok ns hi ti q p"
  by (auto simp: lf_inv_def)

lemma lf_inv_own:
  "lf_inv ns hi ti q P \<Longrightarrow> own (P t) = Some h \<Longrightarrow> h \<notin> set ns \<and> h < q_free q \<and> h_next (q_holders q h) = None"
  unfolding lf_inv_def owned_ok_def by blast

lemma lag_keep: "lag_ok ns ti P \<Longrightarrow> P t \<noteq> EnqSwing (ns ! Suc ti) (ns ! ti) \<Longrightarrow> lag_ok ns ti (P(t := p))"
  unfolding lag_ok_def by (metis fun_upd_other)

lemma inv_quiet:
  assumes inv: "lf_inv ns hi ti q P"
    and same: "q_holders q' = q_holders q" "q_free q' = q_free q" "q_head q' = q_head q" "q_tail q' = q_tail q"
    and p: "own p = own (P t) \<or> own p = None" "local_ok ns hi ti q p" "\<And>h tl. P t \<noteq> EnqSwing h tl"
  shows "lf_inv ns hi ti q' (P(t := p))"
proof -
  have "local_ok ns hi ti q' p" using local_mono [OF p(2), of hi ti q' "[]"] same by simp
  moreover have "shape ns hi ti q'" using lf_inv_shape [OF inv] same by (simp add: shape_def)
  moreover have "lag_ok ns ti (P(t := p))"
    by (rule lag_keep) (use inv p(3) in \<open>auto simp: lf_inv_def\<close>)
  ultimately show ?thesis using inv_update [OF inv, of "[]" hi ti q' t p] same p(1) by auto
qed

text \<open>Moving the tail to the holder after it, by the goroutine that linked it or by another one.\<close>

lemma inv_tail:
  assumes inv: "lf_inv ns hi ti q P" and i: "pos ns tail i" "pos ns n (Suc i)"
    and q': "q' = snd (CAS_tail tail n q)"
    and p: "own p = own (P t) \<or> own p = None" "\<And>hi ti. local_ok ns hi ti q' p"
    and swing: "\<And>h tl. P t = EnqSwing h tl \<Longrightarrow> tl = tail"
  shows "\<exists>ti'. lf_inv ns hi ti' q' (P(t := p))"
proof -
  have sh: "shape ns hi ti q" using inv by (simp add: lf_inv_def)
  have same: "q_holders q' = q_holders q" "q_free q' = q_free q" "q_head q' = q_head q"
    by (auto simp: q' CAS_tail_def)
  show ?thesis
  proof (cases "q_tail q = tail")
    case True
    then have "i = ti" using sh i pos_unique unfolding shape_def by blast
    then have "shape ns hi (Suc ti) q'" and "length ns = Suc (Suc ti)"
      using sh i True by (auto simp: shape_def q' CAS_tail_def pos_def)
    then have "lf_inv ns hi (Suc ti) q' (P(t := p))"
      using inv_update [OF inv, of "[]" hi "Suc ti" q' t p] same p by (auto simp: lag_ok_def)
    then show ?thesis by blast
  next
    case False
    then have q: "q' = q" by (simp add: q' CAS_tail_def)
    have "lag_ok ns ti (P(t := p))"
    proof (rule lag_keep)
      show "lag_ok ns ti P" using inv by (simp add: lf_inv_def)
      show "P t \<noteq> EnqSwing (ns ! Suc ti) (ns ! ti)"
        using swing False sh by (auto simp: shape_def pos_def)
    qed
    then have "lf_inv ns hi ti q' (P(t := p))"
      using inv_update [OF inv, of "[]" hi ti q' t p] p sh q by auto
    then show ?thesis by blast
  qed
qed

lemma inv_link:
  assumes inv: "lf_inv ns hi ti q P" and t: "P t = EnqLink h tail"
    and nil: "h_next (q_holders q tail) = None" and q': "q' = snd (CAS_next tail None h q)"
  shows "lf_inv (ns @ [h]) hi ti q' (P(t := EnqSwing h tail))"
proof -
  have sh: "shape ns hi ti q" using inv by (simp add: lf_inv_def)
  have h: "h \<notin> set ns" "h < q_free q" "h_next (q_holders q h) = None" using lf_inv_own [OF inv, of t h] t by auto
  obtain i where i: "i \<le> ti" "pos ns tail i" using lf_inv_local [OF inv t] by auto
  have "after ns i = None" using shape_next [OF sh i(2)] nil by simp
  then have "i = ti" "Suc ti = length ns" using i sh by (auto simp: after_def shape_def pos_def split: if_splits)
  then have last: "Suc ti = length ns" "tail = ns ! ti" using i by (auto simp: pos_def)
  have tin: "tail \<in> set ns" using i(2) by (rule pos_set)
  have q: "q' = q\<lparr>q_holders := (q_holders q)(tail := (q_holders q tail)\<lparr>h_next := Some h\<rparr>)\<rparr>"
    by (simp add: q' CAS_next_def nil)
  have nx: "h_next (q_holders q' ((ns @ [h]) ! j)) = after (ns @ [h]) j" if j: "j < length (ns @ [h])" for j
  proof (cases "j < length ns")
    case True
    then have "ns ! j = tail \<longleftrightarrow> j = ti"
      using sh last by (auto simp: shape_def nth_eq_iff_index_eq)
    then show ?thesis
      using True sh last by (auto simp: q after_def shape_def nth_append)
  next
    case False
    then have "j = length ns" using j by simp
    then show ?thesis using h tin by (auto simp: q after_def)
  qed
  have "shape (ns @ [h]) hi ti q'"
    unfolding shape_def using sh nx h last by (auto simp: shape_def q intro: pos_append)
  moreover have "local_ok (ns @ [h]) hi ti q' (EnqSwing h tail)"
    using last by (auto simp: pos_def nth_append intro!: exI [of _ ti])
  moreover have "lag_ok (ns @ [h]) ti (P(t := EnqSwing h tail))"
    using last by (auto simp: lag_ok_def nth_append intro!: exI [of _ t])
  ultimately show ?thesis
    by (intro inv_update [OF inv]) (use t tin in \<open>auto simp: q\<close>)
qed

lemma inv_head:
  assumes inv: "lf_inv ns hi ti q P" and t: "P t = DeqSwing (q_head q) n v"
  shows "lf_inv ns (Suc hi) ti (q\<lparr>q_head := n\<rparr>) (P(t := DeqCount v))"
    and "v = h_value (q_holders q (ns ! Suc hi))" and "Suc hi < length ns"
proof -
  have sh: "shape ns hi ti q" using inv by (simp add: lf_inv_def)
  obtain i where i: "i \<le> hi" "Suc i \<le> ti" "pos ns (q_head q) i" "pos ns n (Suc i)" "v = h_value (q_holders q n)"
    using lf_inv_local [OF inv t] by auto
  have "i = hi" using sh i(3) pos_unique unfolding shape_def by blast
  then have n: "pos ns n (Suc hi)" "Suc hi \<le> ti" using i by auto
  then show "v = h_value (q_holders q (ns ! Suc hi))" "Suc hi < length ns" using i(5) by (auto simp: pos_def)
  have "shape ns (Suc hi) ti (q\<lparr>q_head := n\<rparr>)" using sh n by (simp add: shape_def)
  moreover have "lag_ok ns ti (P(t := DeqCount v))"
    by (rule lag_keep) (use inv t in \<open>auto simp: lf_inv_def\<close>)
  ultimately show "lf_inv ns (Suc hi) ti (q\<lparr>q_head := n\<rparr>) (P(t := DeqCount v))"
    using inv_update [OF inv, of "[]" "Suc hi" ti "q\<lparr>q_head := n\<rparr>" t "DeqCount v"] by auto
qed

lemma inv_call_enq:
  assumes inv: "lf_inv ns hi ti q P" and t: "P t = Idle" and e: "Enqueue v q = (p, q')"
  shows "lf_inv ns hi ti q' (P(t := p))"
proof -
  have sh: "shape ns hi ti q" using inv by (simp add: lf_inv_def)
  have p: "p = EnqTail (q_free q)"
    and q: "q' = q\<lparr>q_holders := (q_holders q)(q_free q := \<lparr>h_next = None, h_value = v\<rparr>), q_free := Suc (q_free q)\<rparr>"
    using e by (auto simp: Enqueue_def)
  have "a \<noteq> q_free q" if "a \<in> set ns" for a using sh that by (auto simp: shape_def)
  then have "shape ns hi ti q'" "q_free q \<notin> set ns" using sh by (auto simp: shape_def q)
  moreover have "lag_ok ns ti (P(t := p))" by (rule lag_keep) (use inv t in \<open>auto simp: lf_inv_def\<close>)
  ultimately show ?thesis using inv_update [OF inv, of "[]" hi ti q' t p] by (auto simp: p q)
qed

lemma inv_start: "lf_inv [0] 0 0 (NewLockFreeQueue b) (\<lambda>_. Idle)"
  by (simp add: lf_inv_def shape_def owned_ok_def lag_ok_def NewLockFreeQueue_def pos_def after_def)

section \<open>What a step does\<close>

text \<open>The phase of a call as far as the specification sees it.\<close>

datatype 'v call_phase = Away | Adding ptr | Added | Taking | Took "'v interface"

fun phase :: "'v lf_pc \<Rightarrow> 'v call_phase" where
  "phase Idle = Away"
| "phase (EnqTail h) = Adding h"
| "phase (EnqNext h _) = Adding h"
| "phase (EnqCheck h _ _) = Adding h"
| "phase (EnqLink h _) = Adding h"
| "phase (EnqHelp h _ _) = Adding h"
| "phase (EnqSwing _ _) = Added"
| "phase EnqCount = Added"
| "phase EnqSignal = Added"
| "phase EnqDone = Added"
| "phase (DeqCount v) = Took v"
| "phase (DeqDone v _) = Took v"
| "phase _ = Taking"

text \<open>The elements a step adds to the queue, and the tokens and the size it accounts for.\<close>

definition gain :: "'v lf_pc \<Rightarrow> 'v lf_pc \<Rightarrow> int" where
  "gain p p' =
     (case p of
        EnqLink _ _ \<Rightarrow> (case p' of EnqSwing _ _ \<Rightarrow> 1 | _ \<Rightarrow> 0)
      | DeqSwing _ _ _ \<Rightarrow> (case p' of DeqCount _ \<Rightarrow> - 1 | _ \<Rightarrow> 0)
      | _ \<Rightarrow> 0)"

fun inflight :: "'v lf_pc \<Rightarrow> bool" where
  "inflight DeqHead = True"
| "inflight (DeqTail _) = True"
| "inflight (DeqNext _ _) = True"
| "inflight (DeqCheck _ _ _) = True"
| "inflight (DeqHelp _ _) = True"
| "inflight (DeqRead _ _) = True"
| "inflight (DeqSwing _ _ _) = True"
| "inflight _ = False"

fun pending :: "'v lf_pc \<Rightarrow> bool" where
  "pending (EnqSwing _ _) = True"
| "pending EnqCount = True"
| "pending EnqSignal = True"
| "pending _ = False"

definition load :: "'v lf_pc \<Rightarrow> int" where
  "load p = (if inflight p \<or> pending p then 1 else 0)"

fun uncounted :: "'v lf_pc \<Rightarrow> 64 word" where
  "uncounted (EnqSwing _ _) = 1"
| "uncounted EnqCount = 1"
| "uncounted (DeqCount _) = - 1"
| "uncounted _ = 0"

definition saw_empty :: "'v lf_pc \<Rightarrow> bool" where
  "saw_empty p \<longleftrightarrow> (\<exists>a. p = DeqCheck a a None)"

lemma step_frame:
  assumes "lf_step p q = Goes (p', q')"
  shows "q_synch q' = q_synch q" and "q_free q' = q_free q"
    and "q_sz q' + uncounted p' = q_sz q + uncounted p + of_int (gain p p')"
    and "h_value (q_holders q' a) = h_value (q_holders q a)"
  using assms unfolding lf_step_def gain_def
  by (cases p; auto simp: CAS_next_def CAS_tail_def CAS_head_def Let_def split: if_splits option.splits prod.splits)+

lemma step_tokens:
  assumes "lf_step p q = Goes (p', q')" "q_synch q"
  shows "int (q_ch q') + load p' =
    int (q_ch q) + load p + gain p p' - (if inflight p \<and> p' = DeqWait \<or> saw_empty p \<and> p' = DeqDone None 0 then 1 else 0)"
  using assms unfolding lf_step_def saw_empty_def load_def gain_def
  by (cases p; auto simp: CAS_next_def CAS_tail_def CAS_head_def Let_def split: if_splits option.splits prod.splits)

lemmas step_defs = gain_def lf_step_def CAS_next_def CAS_tail_def CAS_head_def Let_def saw_empty_def

lemma gain_cases:
  assumes "gain p p' \<noteq> 0"
  obtains h tail h' tail' where "p = EnqLink h tail" "p' = EnqSwing h' tail'"
  | head n v v' where "p = DeqSwing head n v" "p' = DeqCount v'"
  using assms unfolding gain_def by (cases p; cases p') auto

text \<open>A step that neither adds nor takes an element.\<close>

definition quiet :: "ptr list \<Rightarrow> nat \<Rightarrow> (tid \<Rightarrow> 'v lf_pc) \<Rightarrow> tid \<Rightarrow> 'v lf_pc \<Rightarrow> 'v LockFreeQueue \<Rightarrow> bool" where
  "quiet ns hi P t p q' \<longleftrightarrow>
     (\<exists>ti'. lf_inv ns hi ti' q' (P(t := p))) \<and> gain (P t) p = 0 \<and>
     (phase p = phase (P t) \<or> saw_empty (P t) \<and> p = DeqDone None 0) \<and> (saw_empty p \<longrightarrow> Suc hi = length ns)"

lemma quietI:
  assumes inv: "lf_inv ns hi ti q P"
    and "q' = q \<or> (\<exists>c. q' = q\<lparr>q_ch := c\<rparr>) \<or> (\<exists>s. q' = q\<lparr>q_sz := s\<rparr>)" "own p = own (P t) \<or> own p = None"
      "local_ok ns hi ti q p" "\<And>h tl. P t \<noteq> EnqSwing h tl" "gain (P t) p = 0"
      "phase p = phase (P t) \<or> saw_empty (P t) \<and> p = DeqDone None 0" "saw_empty p \<Longrightarrow> Suc hi = length ns"
  shows "quiet ns hi P t p q'"
proof -
  have "lf_inv ns hi ti q' (P(t := p))" by (rule inv_quiet [OF inv]) (use assms in auto)
  then show ?thesis using assms unfolding quiet_def by blast
qed

lemma quiet_tailI:
  assumes inv: "lf_inv ns hi ti q P" and "pos ns tail i" "pos ns n (Suc i)" "q' = snd (CAS_tail tail n q)"
    and "own p = own (P t) \<or> own p = None" "\<And>hi ti. local_ok ns hi ti q' p"
    and swing: "\<And>h tl. P t = EnqSwing h tl \<Longrightarrow> tl = tail"
    and "gain (P t) p = 0" "phase p = phase (P t)" "\<not> saw_empty p"
  shows "quiet ns hi P t p q'"
proof -
  have "\<exists>ti'. lf_inv ns hi ti' q' (P(t := p))" by (rule inv_tail [OF assms(1-6)]) (rule swing)
  then show ?thesis using assms(8-10) unfolding quiet_def by blast
qed

lemma enq_quiet:
  assumes inv: "lf_inv ns hi ti q P" and go: "lf_step (P t) q = Goes (p, q')"
    and enq: "is_enq (P t)" "gain (P t) p = 0"
  shows "quiet ns hi P t p q'"
proof -
  note d = step_defs
  note sh = lf_inv_shape [OF inv]
  note loc = lf_inv_local [OF inv, of t "P t", OF refl]
  show ?thesis
  proof (cases "P t")
    case (EnqTail h)
    then show ?thesis using go sh by (intro quietI [OF inv]) (auto simp: d shape_def)
  next
    case (EnqNext h tail)
    then show ?thesis using go loc shape_next [OF sh]
      by (intro quietI [OF inv]) (fastforce simp: d after_def pos_def split: if_splits)+
  next
    case (EnqCheck h tail n)
    then show ?thesis using go loc by (intro quietI [OF inv]) (auto simp: d split: if_splits option.splits)
  next
    case (EnqLink h tail)
    then show ?thesis using go enq(2) by (intro quietI [OF inv]) (auto simp: d split: if_splits)
  next
    case (EnqSwing h tail)
    then obtain i where "pos ns tail i" "pos ns h (Suc i)" using loc by auto
    then show ?thesis using go EnqSwing by (intro quiet_tailI [OF inv]) (auto simp: d)
  next
    case (EnqHelp h tail n)
    then obtain i where "pos ns tail i" "pos ns n (Suc i)" using loc by auto
    then show ?thesis using go EnqHelp by (intro quiet_tailI [OF inv]) (auto simp: d)
  next
    case EnqCount
    then show ?thesis using go by (intro quietI [OF inv]) (auto simp: d split: if_splits)
  next
    case EnqSignal
    then show ?thesis using go by (intro quietI [OF inv]) (auto simp: d split: if_splits)
  qed (use go enq in \<open>simp_all add: lf_step_def\<close>)
qed

lemma deq_check_local:
  assumes inv: "lf_inv ns hi ti q P" and t: "P t = DeqCheck head tail n"
    and go: "lf_step (P t) q = Goes (p, q')"
  shows "local_ok ns hi ti q p"
proof -
  have sh: "shape ns hi ti q" using inv by (simp add: lf_inv_def)
  obtain i j where ij: "i \<le> hi" "j \<le> ti" "i \<le> j" "pos ns head i" "pos ns tail j"
      "\<And>m. n = Some m \<Longrightarrow> pos ns m (Suc i)" "i < j \<Longrightarrow> n \<noteq> None" using lf_inv_local [OF inv t] by auto
  have "head = tail \<longleftrightarrow> i = j" using ij(4,5) sh pos_unique by (auto simp: shape_def pos_def)
  then show ?thesis
    using go t ij by (auto simp: step_defs split: if_splits option.splits intro!: exI [of _ i])
qed

lemma deq_quiet:
  assumes inv: "lf_inv ns hi ti q P" and go: "lf_step (P t) q = Goes (p, q')"
    and deq: "\<not> is_enq (P t)" "gain (P t) p = 0"
  shows "quiet ns hi P t p q'"
proof -
  note d = step_defs
  note sh = lf_inv_shape [OF inv]
  note loc = lf_inv_local [OF inv, of t "P t", OF refl]
  show ?thesis
  proof (cases "P t")
    case (DeqHelp tail n)
    then obtain i where "pos ns tail i" "pos ns n (Suc i)" using loc by auto
    then show ?thesis using go DeqHelp by (intro quiet_tailI [OF inv]) (auto simp: d)
  next
    case (DeqTail head)
    then show ?thesis using go loc sh by (intro quietI [OF inv]) (fastforce simp: d shape_def)+
  next
    case (DeqNext head tail)
    then obtain i j where "i \<le> hi" "j \<le> ti" "i \<le> j" "pos ns head i" "pos ns tail j" using loc by auto
    moreover from this have "i < length ns" "hi < length ns" "ti < length ns" using sh by (auto simp: pos_def shape_def)
    ultimately show ?thesis using go DeqNext shape_next [OF sh, of head i]
      by (intro quietI [OF inv]) (fastforce simp: d after_def pos_def split: if_splits)+
  next
    case (DeqCheck head tail n)
    then show ?thesis using go deq_check_local [OF inv DeqCheck go]
      by (intro quietI [OF inv]) (auto simp: d split: if_splits option.splits)
  next
    case (DeqRead head n)
    then have "local_ok ns hi ti q p" using go loc by (auto simp: d) blast
    then show ?thesis using go loc DeqRead by (intro quietI [OF inv]) (auto simp: d)
  next
    case (DeqSwing head n v)
    then show ?thesis using go deq(2) by (intro quietI [OF inv]) (auto simp: d split: if_splits)
  next
    case DeqWait
    then show ?thesis using go by (intro quietI [OF inv]) (auto simp: d split: if_splits)
  next
    case DeqHead
    then show ?thesis using go sh by (intro quietI [OF inv]) (auto simp: d shape_def)
  next
    case (DeqCount v)
    then show ?thesis using go by (intro quietI [OF inv]) (auto simp: d)
  qed (use go deq in \<open>simp_all add: lf_step_def\<close>)
qed

lemma go_effect:
  assumes inv: "lf_inv ns hi ti q P" and go: "lf_step (P t) q = Goes (p, q')"
  obtains (link) h tail where "P t = EnqLink h tail" "p = EnqSwing h tail" "lf_inv (ns @ [h]) hi ti q' (P(t := p))"
  | (take) n v where "P t = DeqSwing (q_head q) n v" "p = DeqCount v" "Suc hi < length ns"
      "v = h_value (q_holders q (ns ! Suc hi))" "lf_inv ns (Suc hi) ti q' (P(t := p))"
  | (silent) "quiet ns hi P t p q'"
proof (cases "gain (P t) p = 0")
  case True
  then show ?thesis using silent enq_quiet [OF inv go] deq_quiet [OF inv go] by blast
next
  case False
  then show ?thesis
  proof (cases rule: gain_cases)
    case (1 h tail h' tail')
    then have l: "P t = EnqLink h tail" "p = EnqSwing h tail" using go by (auto simp: step_defs split: if_splits)
    then have "h_next (q_holders q tail) = None" "q' = snd (CAS_next tail None h q)"
      using go by (auto simp: step_defs split: if_splits)
    then show ?thesis using link l inv_link [OF inv l(1)] by blast
  next
    case (2 head n v v')
    then have t: "P t = DeqSwing (q_head q) n v" "p = DeqCount v" "q' = q\<lparr>q_head := n\<rparr>"
      using go by (auto simp: step_defs split: if_splits)
    then show ?thesis using take inv_head [OF inv t(1)] by blast
  qed
qed

end
