(* ===== verification/Lockfree_Properties.thy ===== *)
theory Lockfree_Properties
  imports Lockfree_Queue
begin

text \<open>
  What the lock-free queue guarantees: the accounting of size and tokens, the simulation by the atomic
  queue, the case of one consumer, and the progress of a goroutine that runs alone. The invariant
  is that of \<^verbatim>\<open>Lockfree_Queue\<close>.
\<close>

section \<open>Accounting\<close>

text \<open>Sums over the goroutines that are inside a call.\<close>

definition active :: "(tid \<Rightarrow> 'v lf_pc) \<Rightarrow> tid set" where
  "active P = {t. P t \<noteq> Idle}"

definition tally :: "('v lf_pc \<Rightarrow> 'n :: ab_group_add) \<Rightarrow> (tid \<Rightarrow> 'v lf_pc) \<Rightarrow> 'n" where
  "tally w P = (\<Sum>t \<in> active P. w (P t))"

lemma tally_superset:
  "finite T \<Longrightarrow> active P \<subseteq> T \<Longrightarrow> w Idle = 0 \<Longrightarrow> tally w P = (\<Sum>t \<in> T. w (P t))"
  unfolding tally_def by (rule sum.mono_neutral_left) (auto simp: active_def)

lemma active_upd: "active (P(t := p)) \<subseteq> insert t (active P)"
  by (auto simp: active_def)

lemma active_finite: "finite (active P) \<Longrightarrow> finite (active (P(t := p)))"
  by (rule finite_subset [OF active_upd]) simp

lemma tally_upd:
  assumes fin: "finite (active P)" and w: "w Idle = 0"
  shows "tally w (P(t := p)) = tally w P - w (P t) + w p"
proof -
  let ?T = "insert t (active P)"
  have fT: "finite ?T" using fin by simp
  have new: "tally w (P(t := p)) = (\<Sum>u \<in> ?T. w ((P(t := p)) u))"
    by (rule tally_superset) (use fT active_upd w in auto)
  have old: "tally w P = (\<Sum>u \<in> ?T. w (P u))" by (rule tally_superset) (use fT w in auto)
  have "(\<Sum>u \<in> ?T - {t}. w ((P(t := p)) u)) = (\<Sum>u \<in> ?T - {t}. w (P u))" by (rule sum.cong) auto
  then show ?thesis
    unfolding new old by (simp add: sum.remove [OF fT, of t])
qed

lemma tally_ge:
  assumes "finite (active P)" and "\<And>p. 0 \<le> w p" and "w Idle = 0"
  shows "(w (P t) :: int) \<le> tally w P"
proof (cases "t \<in> active P")
  case True
  then show ?thesis unfolding tally_def using assms(1,2) member_le_sum [of t "active P" "\<lambda>t. w (P t)"] by auto
next
  case False
  then show ?thesis using assms(2,3) by (auto simp: active_def tally_def intro: sum_nonneg)
qed

definition items :: "ptr list \<Rightarrow> nat \<Rightarrow> int" where
  "items ns hi = int (length ns) - int (Suc hi)"

definition account :: "ptr list \<Rightarrow> nat \<Rightarrow> 'v LockFreeQueue \<Rightarrow> (tid \<Rightarrow> 'v lf_pc) \<Rightarrow> bool" where
  "account ns hi q P \<longleftrightarrow>
     finite (active P) \<and> q_sz q + tally uncounted P = of_int (items ns hi) \<and>
     (q_synch q \<longrightarrow> int (q_ch q) + tally load P \<le> items ns hi)"

lemma load_bounds [simp]: "0 \<le> load p" "load Idle = 0" "load DeqWait = 0" "load EnqDone = 0"
    "load (DeqDone v n) = 0" "load (EnqTail h) = 0"
  by (auto simp: load_def)

lemma account_upd:
  assumes acc: "account ns hi q P" and sync: "q_synch q' = q_synch q"
    and sz: "q_sz q' + uncounted p = q_sz q + uncounted (P t) + of_int (items ns' hi' - items ns hi)"
    and ch: "q_synch q \<Longrightarrow> int (q_ch q') + load p \<le> int (q_ch q) + load (P t) + (items ns' hi' - items ns hi)"
  shows "account ns' hi' q' (P(t := p))"
proof -
  have fin: "finite (active P)" using acc by (simp add: account_def)
  have "q_sz q' + tally uncounted (P(t := p)) = of_int (items ns' hi')"
  proof -
    have "q_sz q' + tally uncounted (P(t := p)) = q_sz q' + uncounted p + tally uncounted P - uncounted (P t)"
      by (simp add: tally_upd [OF fin])
    also have "\<dots> = (q_sz q + tally uncounted P) + of_int (items ns' hi' - items ns hi)" by (simp add: sz)
    finally show ?thesis using acc by (simp add: account_def)
  qed
  moreover have "finite (active (P(t := p)))" using fin by (rule active_finite)
  ultimately show ?thesis
    using acc sync ch by (auto simp: account_def tally_upd [OF fin])
qed

lemma account_go:
  assumes acc: "account ns hi q P" and go: "lf_step (P t) q = Goes (p, q')"
    and g: "gain (P t) p = items ns' hi' - items ns hi"
  shows "account ns' hi' q' (P(t := p))"
  using step_frame(1,3) [OF go] step_tokens [OF go] g
  by (intro account_upd [OF acc]) (auto split: if_splits)

text \<open>In the synchronous mode a goroutine that has taken a token always finds an element.\<close>

lemma synch_never_empty:
  assumes acc: "account ns hi q P" and s: "q_synch q" and t: "inflight (P t)"
  shows "Suc hi < length ns"
proof -
  have "load (P t) = 1" using t by (simp add: load_def)
  moreover have "load (P t) \<le> tally load P" using acc by (intro tally_ge) (auto simp: account_def)
  ultimately show ?thesis using acc s by (simp add: account_def items_def)
qed

section \<open>Simulation\<close>

definition elements :: "ptr list \<Rightarrow> nat \<Rightarrow> 'v LockFreeQueue \<Rightarrow> 'v interface list" where
  "elements ns hi q = map (\<lambda>a. h_value (q_holders q a)) (drop (Suc hi) ns)"

definition matches :: "'v LockFreeQueue \<Rightarrow> 'v lf_pc \<Rightarrow> 'v q_status \<Rightarrow> bool" where
  "matches q p s \<longleftrightarrow>
     (case phase p of
        Away \<Rightarrow> s = Free
      | Adding h \<Rightarrow> s = Putting (h_value (q_holders q h))
      | Added \<Rightarrow> s = Put
      | Taking \<Rightarrow> (\<exists>b. s = Getting b \<and> (saw_empty p \<longrightarrow> b))
      | Took v \<Rightarrow> s = Got v)"

definition simulates ::
  "bool \<Rightarrow> 'v q_event list \<Rightarrow> 'v LockFreeQueue \<Rightarrow> (tid \<Rightarrow> 'v lf_pc) \<Rightarrow> ptr list \<Rightarrow> nat \<Rightarrow> nat \<Rightarrow> (tid \<Rightarrow> 'v q_status) \<Rightarrow> bool" where
  "simulates synchr es q P ns hi ti S \<longleftrightarrow>
     lf_inv ns hi ti q P \<and> account ns hi q P \<and> q_synch q = synchr \<and>
     atomic_queue synchr es (elements ns hi q) S \<and> (\<forall>t. matches q (P t) (S t))"

lemma phase_own: "phase p = Adding h \<longleftrightarrow> own p = Some h"
  by (cases p) auto

lemma matches_keep:
  assumes "lf_inv ns hi ti q P" "\<And>a. a < q_free q \<Longrightarrow> h_value (q_holders q' a) = h_value (q_holders q a)"
    "matches q (P t) s"
  shows "matches q' (P t) s"
proof (cases "phase (P t)")
  case (Adding h)
  then have "h < q_free q" using lf_inv_own [OF assms(1)] by (auto simp: phase_own)
  then show ?thesis using Adding assms(2,3) by (simp add: matches_def)
qed (use assms(3) in \<open>auto simp: matches_def\<close>)

lemma matches_upd:
  assumes "lf_inv ns hi ti q P" "\<And>a. a < q_free q \<Longrightarrow> h_value (q_holders q' a) = h_value (q_holders q a)"
    "\<forall>u. matches q (P u) (S u)" "matches q' p s"
  shows "\<forall>u. matches q' ((P(t := p)) u) ((S(t := s)) u)"
  using assms matches_keep [OF assms(1,2)] by auto

lemma elements_keep:
  assumes "lf_inv ns hi ti q P" "\<And>a. a < q_free q \<Longrightarrow> h_value (q_holders q' a) = h_value (q_holders q a)"
  shows "elements ns hi q' = elements ns hi q"
  using assms(2) lf_inv_shape [OF assms(1)] by (auto simp: elements_def shape_def dest: in_set_dropD)

lemma elements_bound: "lf_inv ns hi ti q P \<Longrightarrow> Suc hi \<le> length ns"
  by (auto simp: lf_inv_def shape_def pos_def)

lemma simulates_silent:
  assumes sim: "simulates synchr es q P ns hi ti S" and go: "lf_step (P t) q = Goes (p, q')"
    and q: "quiet ns hi P t p q'"
  shows "\<exists>ns hi ti S. simulates synchr es q' (P(t := p)) ns hi ti S"
proof -
  have inv: "lf_inv ns hi ti q P" and acc: "account ns hi q P" and sy: "q_synch q = synchr"
    and aq: "atomic_queue synchr es (elements ns hi q) S" and ms: "\<forall>t. matches q (P t) (S t)"
    using sim by (auto simp: simulates_def)
  obtain ti' where inv': "lf_inv ns hi ti' q' (P(t := p))" using q by (auto simp: quiet_def)
  have vals: "h_value (q_holders q' a) = h_value (q_holders q a)" for a by (rule step_frame(4) [OF go])
  have acc': "account ns hi q' (P(t := p))" by (rule account_go [OF acc go]) (use q in \<open>simp add: quiet_def\<close>)
  have el: "elements ns hi q' = elements ns hi q" by (rule elements_keep [OF inv]) (rule vals)
  have mt: "matches q (P t) (S t)" using ms by blast
  have simI: ?thesis if "atomic_queue synchr es (elements ns hi q) (S(t := s))" "matches q' p s" for s
    using that matches_upd [OF inv _ ms that(2), of t] vals inv' acc' sy step_frame(1) [OF go] el
    unfolding simulates_def by metis
  consider "saw_empty p" | "saw_empty (P t)" "p = DeqDone None 0" | "\<not> saw_empty p" "phase p = phase (P t)"
    using q by (auto simp: quiet_def)
  then show ?thesis
  proof cases
    case 1
    then obtain a where p: "p = DeqCheck a a None" by (auto simp: saw_empty_def)
    have "Suc hi = length ns" using q 1 by (simp add: quiet_def)
    then have "\<not> synchr" "elements ns hi q = []"
      using synch_never_empty [OF acc', of t] step_frame(1) [OF go] sy p by (auto simp: elements_def)
    moreover have "phase (P t) = Taking" using q p by (auto simp: quiet_def saw_empty_def)
    then obtain b where "S t = Getting b" using mt by (auto simp: matches_def)
    ultimately show ?thesis
      using aq by (intro simI [of "Getting True"]) (auto simp: p matches_def intro: aq_see_empty)
  next
    case 2
    then have "S t = Getting True" using mt by (auto simp: matches_def saw_empty_def)
    then show ?thesis using aq by (intro simI [of "Got None"]) (auto simp: 2 matches_def intro: aq_empty)
  next
    case 3
    then have "matches q' p (S t)" using mt vals by (auto simp: matches_def split: call_phase.splits)
    then show ?thesis using aq by (intro simI [of "S t"]) simp_all
  qed
qed

lemma simulatesI:
  assumes sim: "simulates synchr es q P ns hi ti S" and inv': "lf_inv ns' hi' ti' q' (P(t := p))"
    and acc': "account ns' hi' q' (P(t := p))" and sy: "q_synch q' = q_synch q"
    and vals: "\<And>a. a < q_free q \<Longrightarrow> h_value (q_holders q' a) = h_value (q_holders q a)"
    and aq: "atomic_queue synchr es' (elements ns' hi' q') (S(t := s))" and m: "matches q' p s"
  shows "\<exists>ns hi ti S. simulates synchr es' q' (P(t := p)) ns hi ti S"
proof -
  have inv: "lf_inv ns hi ti q P" and ms: "\<forall>t. matches q (P t) (S t)" and "q_synch q = synchr"
    using sim by (auto simp: simulates_def)
  then have "simulates synchr es' q' (P(t := p)) ns' hi' ti' (S(t := s))"
    using matches_upd [OF inv vals ms m, of t] inv' acc' sy aq by (simp add: simulates_def)
  then show ?thesis by blast
qed

lemma simulates_go:
  assumes sim: "simulates synchr es q P ns hi ti S" and go: "lf_step (P t) q = Goes (p, q')"
  shows "\<exists>ns hi ti S. simulates synchr es q' (P(t := p)) ns hi ti S"
proof -
  have inv: "lf_inv ns hi ti q P" and acc: "account ns hi q P"
    and aq: "atomic_queue synchr es (elements ns hi q) S" and mt: "matches q (P t) (S t)"
    using sim by (auto simp: simulates_def)
  note fr = step_frame [OF go]
  have el: "elements ns k q' = elements ns k q" for k by (simp add: elements_def fr(4))
  show ?thesis
  proof (cases rule: go_effect [OF inv go])
    case (1 h tail)
    have s: "S t = Putting (h_value (q_holders q h))" using mt 1 by (simp add: matches_def)
    have acc': "account (ns @ [h]) hi q' (P(t := p))"
      by (rule account_go [OF acc go]) (simp add: 1 gain_def items_def)
    have "elements (ns @ [h]) hi q' = elements ns hi q @ [h_value (q_holders q h)]"
      using elements_bound [OF inv] by (simp add: elements_def fr(4))
    then show ?thesis
      using simulatesI [OF sim 1(3) acc' fr(1,4), of es Put] aq_enq [OF aq s] 1 by (simp add: matches_def)
  next
    case (2 n v)
    have acc': "account ns (Suc hi) q' (P(t := p))"
      by (rule account_go [OF acc go]) (simp add: 2 gain_def items_def)
    have "elements ns hi q = v # elements ns (Suc hi) q'"
      using 2(3,4) by (simp add: elements_def fr(4) flip: Cons_nth_drop_Suc)
    moreover obtain b where "S t = Getting b" using mt 2 by (auto simp: matches_def)
    ultimately have "atomic_queue synchr es (elements ns (Suc hi) q') (S(t := Got v))" using aq by (auto intro: aq_deq)
    then show ?thesis using simulatesI [OF sim 2(5) acc' fr(1,4)] 2 by (simp add: matches_def)
  next
    case 3
    then show ?thesis by (rule simulates_silent [OF sim go])
  qed
qed

lemma simulates_call:
  assumes sim: "simulates synchr es q P ns hi ti S"
    and p: "(own p = own (P t) \<or> own p = None)" "local_ok ns hi ti q p" "\<And>h tl. P t \<noteq> EnqSwing h tl"
    and w: "uncounted p = uncounted (P t)" "load p = load (P t)"
    and aq: "atomic_queue synchr es' (elements ns hi q) (S(t := s))" and m: "matches q p s"
  shows "\<exists>ns hi ti S. simulates synchr es' q (P(t := p)) ns hi ti S"
proof -
  have inv: "lf_inv ns hi ti q P" and acc: "account ns hi q P" using sim by (auto simp: simulates_def)
  have "lf_inv ns hi ti q (P(t := p))" by (rule inv_quiet [OF inv]) (use p in auto)
  moreover have "account ns hi q (P(t := p))" by (rule account_upd [OF acc]) (use w in auto)
  ultimately show ?thesis by (rule simulatesI [OF sim]) (use aq m in auto)
qed

lemma simulates_enq:
  assumes sim: "simulates synchr es q P ns hi ti S" and t: "P t = Idle" and e: "Enqueue v q = (p, q')"
  shows "\<exists>ns hi ti S. simulates synchr (es @ [CallEnq t v]) q' (P(t := p)) ns hi ti S"
proof -
  have inv: "lf_inv ns hi ti q P" and acc: "account ns hi q P"
    and aq: "atomic_queue synchr es (elements ns hi q) S" and "matches q (P t) (S t)"
    using sim by (auto simp: simulates_def)
  then have free: "S t = Free" using t by (simp add: matches_def)
  have p: "p = EnqTail (q_free q)" and q: "q_synch q' = q_synch q" "q_sz q' = q_sz q" "q_ch q' = q_ch q"
    and nv: "h_value (q_holders q' (q_free q)) = v"
    and vals: "a < q_free q \<Longrightarrow> h_value (q_holders q' a) = h_value (q_holders q a)" for a
    using e by (auto simp: Enqueue_def)
  show ?thesis
  proof (rule simulatesI [OF sim inv_call_enq [OF inv t e] _ q(1) vals])
    show "account ns hi q' (P(t := p))" by (rule account_upd [OF acc]) (use q p t in auto)
    show "atomic_queue synchr (es @ [CallEnq t v]) (elements ns hi q') (S(t := Putting v))"
      using aq_call_enq [OF aq free] elements_keep [OF inv vals] by simp
    show "matches q' p (Putting v)" using nv by (simp add: p matches_def)
  qed
qed

lemma reach_simulates: "lf_reach C synchr es q P \<Longrightarrow> \<exists>ns hi ti S. simulates synchr es q P ns hi ti S"
proof (induction rule: lf_reach.induct)
  case lf_start
  have "simulates synchr [] (NewLockFreeQueue synchr) (\<lambda>_. Idle) [0] 0 0 (\<lambda>_. Free)"
    unfolding simulates_def
    by (intro conjI inv_start) (auto simp: account_def active_def tally_def items_def elements_def matches_def
        NewLockFreeQueue_def intro: aq_start)
  then show ?case by blast
next
  case (lf_enq es q P t v p q')
  then show ?case using simulates_enq by blast
next
  case (lf_deq es q P t)
  then obtain ns hi ti S where sim: "simulates synchr es q P ns hi ti S" by blast
  then have "atomic_queue synchr es (elements ns hi q) S" "S t = Free"
    using lf_deq.hyps(2) unfolding simulates_def by (auto simp: matches_def dest: spec [of _ t])
  then show ?case using lf_deq.hyps(2)
    by (intro simulates_call [OF sim, where s = "Getting False"]) (auto simp: Dequeue_def matches_def saw_empty_def intro: aq_call_deq)
next
  case (lf_go es q P t p q')
  then show ?case using simulates_go by blast
next
  case (lf_ret_enq es q P t)
  then obtain ns hi ti S where sim: "simulates synchr es q P ns hi ti S" by blast
  then have "atomic_queue synchr es (elements ns hi q) S" "S t = Put"
    using lf_ret_enq.hyps(2) unfolding simulates_def by (auto simp: matches_def dest: spec [of _ t])
  then show ?case using lf_ret_enq.hyps(2)
    by (intro simulates_call [OF sim, where s = Free]) (auto simp: matches_def intro: aq_ret_enq)
next
  case (lf_ret_deq es q P t v n)
  then obtain ns hi ti S where sim: "simulates synchr es q P ns hi ti S" by blast
  then have "atomic_queue synchr es (elements ns hi q) S" "S t = Got v"
    using lf_ret_deq.hyps(2) unfolding simulates_def by (auto simp: matches_def dest: spec [of _ t])
  then show ?case using lf_ret_deq.hyps(2)
    by (intro simulates_call [OF sim, where s = Free]) (auto simp: matches_def intro: aq_ret_deq)
qed

lemma follow_elements:
  assumes "shape ns hi ti q" "length ns - Suc i \<le> n" "i < length ns"
  shows "follow n q (after ns i) = map (\<lambda>a. h_value (q_holders q a)) (drop (Suc i) ns)"
  using assms
proof (induction n arbitrary: i)
  case 0
  then show ?case by (simp add: after_def)
next
  case (Suc n)
  then show ?case
    by (cases "Suc i < length ns")
       (auto simp: after_def [of ns i] shape_next [OF Suc.prems(1), of "ns ! Suc i" "Suc i"] pos_def Cons_nth_drop_Suc [symmetric])
qed

lemma contents_elements:
  assumes "lf_inv ns hi ti q P"
  shows "contents q = elements ns hi q"
proof -
  have sh: "shape ns hi ti q" using assms by (simp add: lf_inv_def)
  have "card (set ns) \<le> card {..<q_free q}"
    by (rule card_mono) (use sh in \<open>auto simp: shape_def\<close>)
  then have "length ns \<le> q_free q" using sh by (simp add: shape_def distinct_card)
  moreover have "pos ns (q_head q) hi" using sh by (simp add: shape_def)
  then have "h_next (q_holders q (q_head q)) = after ns hi" "hi < length ns"
    by (rule shape_next [OF sh]) (use sh in \<open>simp add: shape_def pos_def\<close>)
  ultimately show ?thesis using follow_elements [OF sh, of hi "q_free q"] by (simp add: contents_def elements_def)
qed

lemma items_contents: "lf_inv ns hi ti q P \<Longrightarrow> items ns hi = int (length (contents q))"
  using elements_bound [of ns hi ti q P] by (simp add: contents_elements elements_def items_def)

section \<open>One consumer\<close>

text \<open>
  The publisher and the inserter are the only consumers of their queues. Then no compare-and-swap of
  the consumer fails, so every token it takes leads to an element.
\<close>

fun sole_ok :: "'v LockFreeQueue \<Rightarrow> 'v lf_pc \<Rightarrow> bool" where
  "sole_ok q (DeqTail head) \<longleftrightarrow> head = q_head q"
| "sole_ok q (DeqNext head tail) \<longleftrightarrow> head = q_head q \<and> head \<noteq> tail"
| "sole_ok q (DeqCheck head tail _) \<longleftrightarrow> head = q_head q \<and> head \<noteq> tail"
| "sole_ok q (DeqRead head _) \<longleftrightarrow> head = q_head q"
| "sole_ok q (DeqSwing head _ _) \<longleftrightarrow> head = q_head q"
| "sole_ok q (DeqHelp _ _) \<longleftrightarrow> False"
| "sole_ok q _ \<longleftrightarrow> True"

definition single :: "tid \<Rightarrow> 'v LockFreeQueue \<Rightarrow> (tid \<Rightarrow> 'v lf_pc) \<Rightarrow> bool" where
  "single c q P \<longleftrightarrow>
     (\<forall>t. t \<noteq> c \<longrightarrow> P t = Idle \<or> is_enq (P t)) \<and> sole_ok q (P c) \<and>
     int (q_ch q) + tally load P = int (length (contents q))"

lemma tally_ge2:
  assumes "finite (active P)" and "\<And>p. 0 \<le> w p" and "w Idle = 0" and "t \<noteq> u"
  shows "(w (P t) :: int) + w (P u) \<le> tally w P"
proof -
  have "tally w (P(t := Idle)) = tally w P - w (P t)" using tally_upd [OF assms(1), of w t Idle] assms(3) by simp
  moreover have "w ((P(t := Idle)) u) \<le> tally w (P(t := Idle))"
    by (rule tally_ge [OF active_finite [OF assms(1)] assms(2)]) (rule assms(3))
  ultimately show ?thesis using assms(4) by simp
qed

lemma go_contents:
  assumes inv: "lf_inv ns hi ti q P" and go: "lf_step (P t) q = Goes (p, q')"
  shows "int (length (contents q')) = int (length (contents q)) + gain (P t) p"
proof (cases rule: go_effect [OF inv go])
  case (1 h tail)
  then show ?thesis using items_contents [OF inv] items_contents [OF 1(3)] by (simp add: items_def gain_def)
next
  case (2 n v)
  then show ?thesis using items_contents [OF inv] items_contents [OF 2(5)] by (simp add: items_def gain_def)
next
  case 3
  then show ?thesis using contents_elements [OF inv] contents_elements [of ns hi _ q' "P(t := p)"]
    by (auto simp: quiet_def elements_def)
qed

lemma sole_not_lagging:
  assumes inv: "lf_inv ns hi ti q P" and acc: "account ns hi q P" and s: "q_synch q"
    and sg: "single c q P" and c: "P c = DeqTail (q_head q)"
  shows "q_head q \<noteq> q_tail q"
proof
  assume eq: "q_head q = q_tail q"
  have sh: "shape ns hi ti q" using inv by (simp add: lf_inv_def)
  then have ti: "ti = hi" using eq pos_unique unfolding shape_def by metis
  have fin: "finite (active P)" using acc by (simp add: account_def)
  have "Suc hi < length ns" by (rule synch_never_empty [OF acc s, of c]) (simp add: c)
  then have len: "length ns = ti + 2" using sh ti by (simp add: shape_def)
  then obtain u where u: "P u = EnqSwing (ns ! Suc ti) (ns ! ti)" using inv by (auto simp: lf_inv_def lag_ok_def)
  then have "u \<noteq> c" using c by auto
  then have "load (P u) + load (P c) \<le> tally load P" using tally_ge2 [OF fin, of load u c] by simp
  then have "2 \<le> tally load P" using u c by (simp add: load_def)
  then show False using acc s len ti by (simp add: account_def items_def)
qed

lemma sole_local:
  assumes "lf_step p q = Goes (p', q')" "\<not> is_enq p" "sole_ok q p" "\<And>h. p = DeqTail h \<Longrightarrow> q_head q \<noteq> q_tail q"
  shows "sole_ok q' p' \<and> \<not> (inflight p \<and> p' = DeqWait)"
proof (cases p)
  case (DeqTail head)
  then have "p' = DeqNext (q_head q) (q_tail q)" "q' = q" using assms(1,3) by (auto simp: lf_step_def)
  then show ?thesis using assms(4) DeqTail by simp
next
  case (DeqCheck head tail n)
  then have "p' = DeqRead (q_head q) n" "q' = q" using assms(1,3) by (auto simp: lf_step_def)
  then show ?thesis by simp
next
  case (DeqSwing head n v)
  then have "p' = DeqCount v" using assms(1,3) by (auto simp: lf_step_def CAS_head_def)
  then show ?thesis by simp
next
  case DeqWait
  then have "p' = DeqHead" using assms(1) by (auto simp: lf_step_def split: if_splits)
  then show ?thesis using DeqWait by simp
qed (use assms in \<open>auto simp: lf_step_def Let_def split: option.splits\<close>)

lemma sole_step:
  assumes inv: "lf_inv ns hi ti q P" and acc: "account ns hi q P" and s: "q_synch q"
    and sg: "single c q P" and go: "lf_step (P c) q = Goes (p, q')" and deq: "\<not> is_enq (P c)"
  shows "sole_ok q' p" and "\<not> (inflight (P c) \<and> p = DeqWait)" and "\<not> saw_empty (P c)"
proof -
  have ok: "sole_ok q (P c)" using sg by (simp add: single_def)
  have "q_head q \<noteq> q_tail q" if "P c = DeqTail h" for h
    using sole_not_lagging [OF inv acc s sg] ok that by simp
  then show "sole_ok q' p" "\<not> (inflight (P c) \<and> p = DeqWait)"
    using sole_local [OF go deq ok] by blast+
  show "\<not> saw_empty (P c)" using ok by (auto simp: saw_empty_def)
qed

lemma enq_head: "lf_step p q = Goes (p', q') \<Longrightarrow> is_enq p \<Longrightarrow> q_head q' = q_head q \<and> is_enq p' \<and> \<not> inflight p \<and> \<not> saw_empty p"
  by (cases p) (auto simp: step_defs split: if_splits option.splits)

lemma sole_ok_head: "q_head q' = q_head q \<Longrightarrow> sole_ok q p \<Longrightarrow> sole_ok q' p"
  by (cases p) auto

lemma sole_ok_enq: "is_enq p \<or> p = Idle \<Longrightarrow> sole_ok q p"
  by (cases p) auto

lemma single_go:
  assumes inv: "lf_inv ns hi ti q P" and acc: "account ns hi q P" and s: "q_synch q"
    and sg: "single c q P" and go: "lf_step (P t) q = Goes (p, q')"
  shows "single c q' (P(t := p))"
proof -
  have fin: "finite (active P)" using acc by (simp add: account_def)
  have kinds: "\<not> (inflight (P t) \<and> p = DeqWait \<or> saw_empty (P t) \<and> p = DeqDone None 0) \<and>
      sole_ok q' ((P(t := p)) c) \<and> (t \<noteq> c \<longrightarrow> is_enq p)"
  proof (cases "is_enq (P t)")
    case True
    then show ?thesis using enq_head [OF go True] sg sole_ok_enq sole_ok_head unfolding single_def
      by (metis fun_upd_other fun_upd_same)
  next
    case False
    have "P t \<noteq> Idle" using go by (auto simp: lf_step_def)
    then have "t = c" using sg False by (auto simp: single_def)
    then show ?thesis using sole_step [OF inv acc s sg _ _, of p q'] go False by auto
  qed
  moreover have "int (q_ch q') + tally load (P(t := p)) = int (length (contents q'))"
    using step_tokens [OF go s] kinds go_contents [OF inv go] sg
    by (simp add: tally_upd [OF fin] single_def)
  ultimately show ?thesis using sg by (auto simp: single_def)
qed

lemma single_upd:
  assumes sg: "single c q P" and fin: "finite (active P)" and w: "load p = load (P t)"
    and q: "q_ch q' = q_ch q" "q_head q' = q_head q" "length (contents q') = length (contents q)"
    and p: "t = c \<longrightarrow> sole_ok q p" "t \<noteq> c \<longrightarrow> p = Idle \<or> is_enq p"
  shows "single c q' (P(t := p))"
proof -
  have "tally load (P(t := p)) = tally load P" using tally_upd [OF fin, of load t p] w by simp
  moreover have "sole_ok q' ((P(t := p)) c)"
    using sg p(1) sole_ok_head [OF q(2)] by (simp add: single_def)
  ultimately show ?thesis using sg q p(2) by (simp add: single_def)
qed

lemma reach_single:
  "lf_reach C synchr es q P \<Longrightarrow> C = {c} \<Longrightarrow> synchr \<Longrightarrow> single c q P"
proof (induction rule: lf_reach.induct)
  case lf_start
  then show ?case
    by (simp add: single_def NewLockFreeQueue_def contents_def tally_def active_def)
next
  case (lf_enq es q P t v p q')
  obtain ns hi ti S where sim: "simulates synchr es q P ns hi ti S" using reach_simulates [OF lf_enq.hyps(1)] by blast
  then have inv: "lf_inv ns hi ti q P" and fin: "finite (active P)" by (auto simp: simulates_def account_def)
  have "length (contents q') = length (contents q)"
    using contents_elements [OF inv] contents_elements [OF inv_call_enq [OF inv lf_enq.hyps(2,3)]] by (simp add: elements_def)
  then show ?case using lf_enq.hyps(2,3)
    by (intro single_upd [OF lf_enq.IH [OF lf_enq.prems] fin]) (auto simp: Enqueue_def)
next
  case (lf_deq es q P t)
  then have "finite (active P)" using reach_simulates [OF lf_deq.hyps(1)] by (auto simp: simulates_def account_def)
  then show ?case using lf_deq by (intro single_upd) (auto simp: Dequeue_def)
next
  case (lf_go es q P t p q')
  obtain ns hi ti S where "simulates synchr es q P ns hi ti S" using reach_simulates [OF lf_go.hyps(1)] by blast
  then have "lf_inv ns hi ti q P" "account ns hi q P" "q_synch q" using lf_go.prems by (auto simp: simulates_def)
  then show ?case by (rule single_go [OF _ _ _ lf_go.IH [OF lf_go.prems] lf_go.hyps(2)])
next
  case (lf_ret_enq es q P t)
  then have "finite (active P)" using reach_simulates [OF lf_ret_enq.hyps(1)] by (auto simp: simulates_def account_def)
  then show ?case using lf_ret_enq by (intro single_upd) auto
next
  case (lf_ret_deq es q P t v n)
  then have "finite (active P)" using reach_simulates [OF lf_ret_deq.hyps(1)] by (auto simp: simulates_def account_def)
  then show ?case using lf_ret_deq by (intro single_upd) auto
qed

section \<open>Progress of one goroutine\<close>

fun alone :: "nat \<Rightarrow> 'v lf_pc \<Rightarrow> 'v LockFreeQueue \<Rightarrow> 'v lf_pc \<times> 'v LockFreeQueue" where
  "alone 0 p q = (p, q)"
| "alone (Suc n) p q = (case lf_step p q of Goes (p', q') \<Rightarrow> alone n p' q' | _ \<Rightarrow> (p, q))"

definition done_in :: "nat \<Rightarrow> 'v lf_pc \<Rightarrow> 'v LockFreeQueue \<Rightarrow> bool" where
  "done_in k p q \<longleftrightarrow> (\<exists>n \<le> k. fst (alone n p q) = EnqDone)"

lemma done_in_step: "lf_step p q = Goes (p', q') \<Longrightarrow> done_in k p' q' \<Longrightarrow> done_in (Suc k) p q"
  unfolding done_in_def
proof -
  assume step: "lf_step p q = Goes (p', q')" and "\<exists>n \<le> k. fst (alone n p' q') = EnqDone"
  then obtain n where "n \<le> k" "fst (alone n p' q') = EnqDone" by blast
  then show "\<exists>n \<le> Suc k. fst (alone n p q) = EnqDone" using step by (intro exI [of _ "Suc n"]) simp
qed

lemma done_in_mono: "done_in k p q \<Longrightarrow> k \<le> k' \<Longrightarrow> done_in k' p q"
  unfolding done_in_def using le_trans by blast

lemma done_swing:
  assumes "q_ch q < ch_capacity"
  shows "done_in 3 (EnqSwing h tail) q" "done_in 2 EnqCount q" "done_in 1 EnqSignal q" "done_in 0 EnqDone q"
proof -
  show d: "done_in 0 EnqDone q'" for q' :: "'a LockFreeQueue" by (simp add: done_in_def)
  have s: "done_in 1 EnqSignal q'" if "q_ch q' = q_ch q" for q' :: "'a LockFreeQueue"
    using done_in_step [OF _ d, of EnqSignal q'] that assms by (simp add: lf_step_def)
  have c: "done_in 2 EnqCount q'" if "q_ch q' = q_ch q" for q' :: "'a LockFreeQueue"
  proof (cases "q_synch q'")
    case True
    then have "lf_step EnqCount q' = Goes (EnqSignal, q'\<lparr>q_sz := q_sz q' + 1\<rparr>)" by (simp add: lf_step_def)
    from done_in_step [OF this s] show ?thesis using that by (simp add: numeral_2_eq_2)
  next
    case False
    then have "lf_step EnqCount q' = Goes (EnqDone, q'\<lparr>q_sz := q_sz q' + 1\<rparr>)" by (simp add: lf_step_def)
    from done_in_step [OF this d] show ?thesis by (rule done_in_mono) simp
  qed
  show "done_in 2 EnqCount q" "done_in 1 EnqSignal q" using c s by auto
  have "lf_step (EnqSwing h tail) q = Goes (EnqCount, snd (CAS_tail tail h q))" by (simp add: lf_step_def)
  from done_in_step [OF this c] show "done_in 3 (EnqSwing h tail) q"
    by (simp add: CAS_tail_def numeral_3_eq_3 numeral_2_eq_2)
qed

lemma done_link:
  assumes "q_ch q < ch_capacity" "h_next (q_holders q tail) = None"
  shows "done_in 4 (EnqLink h tail) q"
proof -
  have "lf_step (EnqLink h tail) q = Goes (EnqSwing h tail, snd (CAS_next tail None h q))"
    using assms by (simp add: lf_step_def CAS_next_def)
  from done_in_step [OF this done_swing(1)] show ?thesis using assms by (simp add: CAS_next_def)
qed

lemma done_tail_nil:
  assumes "q_ch q < ch_capacity" "h_next (q_holders q (q_tail q)) = None"
  shows "done_in 7 (EnqTail h) q"
proof -
  have "lf_step (EnqCheck h (q_tail q) None) q = Goes (EnqLink h (q_tail q), q)" by (simp add: lf_step_def)
  from done_in_step [OF this done_link [OF assms]] have c: "done_in 5 (EnqCheck h (q_tail q) None) q" by simp
  have "lf_step (EnqNext h (q_tail q)) q = Goes (EnqCheck h (q_tail q) None, q)" using assms by (simp add: lf_step_def)
  from done_in_step [OF this c] have n: "done_in 6 (EnqNext h (q_tail q)) q" by simp
  have "lf_step (EnqTail h) q = Goes (EnqNext h (q_tail q), q)" by (simp add: lf_step_def)
  from done_in_step [OF this n] show ?thesis by simp
qed

lemma done_help:
  assumes sh: "shape ns hi ti q" and ch: "q_ch q < ch_capacity" and n: "h_next (q_holders q (q_tail q)) = Some n"
  shows "done_in 8 (EnqHelp h (q_tail q) n) q"
proof -
  have ti: "pos ns (q_tail q) ti" using sh by (simp add: shape_def)
  have "after ns ti = Some n" using shape_next [OF sh ti] n by simp
  then have "pos ns n (Suc ti)" by (auto simp: after_def pos_def split: if_splits)
  then have "h_next (q_holders q n) = None"
    using shape_next [OF sh] sh by (fastforce simp: after_def shape_def)
  then have "done_in 7 (EnqTail h) (q\<lparr>q_tail := n\<rparr>)" using ch by (intro done_tail_nil) simp_all
  moreover have "lf_step (EnqHelp h (q_tail q) n) q = Goes (EnqTail h, q\<lparr>q_tail := n\<rparr>)"
    by (simp add: lf_step_def CAS_tail_def)
  ultimately have "done_in (Suc 7) (EnqHelp h (q_tail q) n) q" by (rule done_in_step [rotated])
  then show ?thesis by simp
qed

lemma done_tail:
  assumes sh: "shape ns hi ti q" and ch: "q_ch q < ch_capacity"
  shows "done_in 11 (EnqTail h) q"
proof (cases "h_next (q_holders q (q_tail q))")
  case None
  then show ?thesis using done_in_mono [OF done_tail_nil [OF ch]] by simp
next
  case (Some n)
  have "lf_step (EnqCheck h (q_tail q) (Some n)) q = Goes (EnqHelp h (q_tail q) n, q)" by (simp add: lf_step_def)
  from done_in_step [OF this done_help [OF sh ch Some]] have c: "done_in 9 (EnqCheck h (q_tail q) (Some n)) q" by simp
  have "lf_step (EnqNext h (q_tail q)) q = Goes (EnqCheck h (q_tail q) (Some n), q)" using Some by (simp add: lf_step_def)
  from done_in_step [OF this c] have n: "done_in 10 (EnqNext h (q_tail q)) q" by simp
  have "lf_step (EnqTail h) q = Goes (EnqNext h (q_tail q), q)" by (simp add: lf_step_def)
  from done_in_step [OF this n] show ?thesis by simp
qed

lemma done_link_any:
  assumes sh: "shape ns hi ti q" and ch: "q_ch q < ch_capacity"
  shows "done_in 12 (EnqLink h tail) q"
proof (cases "h_next (q_holders q tail) = None")
  case True
  then show ?thesis using done_in_mono [OF done_link [OF ch]] by simp
next
  case False
  then have "lf_step (EnqLink h tail) q = Goes (EnqTail h, q)" by (simp add: lf_step_def CAS_next_def)
  from done_in_step [OF this done_tail [OF sh ch]] show ?thesis by simp
qed

lemma done_help_any:
  assumes sh: "shape ns hi ti q" and ch: "q_ch q < ch_capacity" and i: "pos ns tail i" "pos ns n (Suc i)"
  shows "done_in 12 (EnqHelp h tail n) q"
proof (cases "q_tail q = tail")
  case True
  have "h_next (q_holders q (q_tail q)) = Some n"
    using shape_next [OF sh i(1)] i(2) True by (simp add: after_def pos_def)
  from done_help [OF sh ch this, of h] show ?thesis
    unfolding True [symmetric] by (rule done_in_mono) simp
next
  case False
  then have "lf_step (EnqHelp h tail n) q = Goes (EnqTail h, q)" by (simp add: lf_step_def CAS_tail_def)
  from done_in_step [OF this done_tail [OF sh ch]] show ?thesis by simp
qed

lemma done_check:
  assumes sh: "shape ns hi ti q" and ch: "q_ch q < ch_capacity"
    and i: "pos ns tail i" "\<And>m. n = Some m \<Longrightarrow> pos ns m (Suc i)"
  shows "done_in 13 (EnqCheck h tail n) q"
proof -
  let ?p = "if tail = q_tail q then (case n of None \<Rightarrow> EnqLink h tail | Some m \<Rightarrow> EnqHelp h tail m) else EnqTail h"
  have "done_in 12 ?p q"
    using done_link_any [OF sh ch] done_help_any [OF sh ch i(1)] i(2) done_in_mono [OF done_tail [OF sh ch]]
    by (auto split: option.split)
  moreover have "lf_step (EnqCheck h tail n) q = Goes (?p, q)" by (simp add: lf_step_def)
  ultimately have "done_in (Suc 12) (EnqCheck h tail n) q" by (rule done_in_step [rotated])
  then show ?thesis by simp
qed

lemma done_next:
  assumes sh: "shape ns hi ti q" and ch: "q_ch q < ch_capacity" and i: "pos ns tail i"
  shows "done_in 14 (EnqNext h tail) q"
proof -
  have "done_in 13 (EnqCheck h tail (h_next (q_holders q tail))) q"
    by (rule done_check [OF sh ch i])
       (use shape_next [OF sh i] in \<open>auto simp: after_def pos_def split: if_splits\<close>)
  moreover have "lf_step (EnqNext h tail) q = Goes (EnqCheck h tail (h_next (q_holders q tail)), q)"
    by (simp add: lf_step_def)
  ultimately have "done_in (Suc 13) (EnqNext h tail) q" by (rule done_in_step [rotated])
  then show ?thesis by simp
qed

lemma enq_done_in:
  assumes inv: "lf_inv ns hi ti q P" and enq: "is_enq (P t)" and ch: "q_ch q < ch_capacity"
  shows "done_in 14 (P t) q"
proof -
  note sh = lf_inv_shape [OF inv]
  note loc = lf_inv_local [OF inv, of t "P t", OF refl]
  show ?thesis
  proof (cases "P t")
    case (EnqTail h)
    then show ?thesis using done_in_mono [OF done_tail [OF sh ch]] by simp
  next
    case (EnqNext h tail)
    then show ?thesis using loc done_next [OF sh ch] by auto
  next
    case (EnqCheck h tail n)
    then obtain i where "pos ns tail i" "\<And>m. n = Some m \<Longrightarrow> pos ns m (Suc i)" using loc by auto
    then have "done_in 13 (P t) q" unfolding EnqCheck by (rule done_check [OF sh ch])
    then show ?thesis by (rule done_in_mono) simp
  next
    case (EnqLink h tail)
    then show ?thesis using done_in_mono [OF done_link_any [OF sh ch]] by simp
  next
    case (EnqHelp h tail n)
    then show ?thesis using loc done_in_mono [OF done_help_any [OF sh ch]] by auto
  next
    case (EnqSwing h tail)
    then show ?thesis using done_in_mono [OF done_swing(1) [OF ch]] by simp
  next
    case EnqCount
    then show ?thesis using done_in_mono [OF done_swing(2) [OF ch]] by simp
  next
    case EnqSignal
    then show ?thesis using done_in_mono [OF done_swing(3) [OF ch]] by simp
  next
    case EnqDone
    then show ?thesis using done_in_mono [OF done_swing(4) [OF ch]] by simp
  qed (use enq in simp_all)
qed

section \<open>Schedules\<close>

text \<open>A schedule plays one interleaving, so that concrete reachable states can be computed.\<close>

datatype 'v act = StartEnq tid "'v interface" | StartDeq tid | Step tid | Return tid

type_synonym 'v snapshot = "'v q_event list \<times> 'v LockFreeQueue \<times> (tid \<Rightarrow> 'v lf_pc)"

fun play :: "'v act \<Rightarrow> 'v snapshot \<Rightarrow> 'v snapshot option" where
  "play (StartEnq t v) (es, q, P) =
     (case P t of Idle \<Rightarrow> (let (p, q') = Enqueue v q in Some (es @ [CallEnq t v], q', P(t := p))) | _ \<Rightarrow> None)"
| "play (StartDeq t) (es, q, P) =
     (case P t of Idle \<Rightarrow> Some (es @ [CallDeq t], q, P(t := Dequeue)) | _ \<Rightarrow> None)"
| "play (Step t) (es, q, P) =
     (case lf_step (P t) q of Goes (p, q') \<Rightarrow> Some (es, q', P(t := p)) | _ \<Rightarrow> None)"
| "play (Return t) (es, q, P) =
     (case P t of
        EnqDone \<Rightarrow> Some (es @ [RetEnq t], q, P(t := Idle))
      | DeqDone v n \<Rightarrow> Some (es @ [RetDeq t v], q, P(t := Idle))
      | _ \<Rightarrow> None)"

fun play_all :: "'v act list \<Rightarrow> 'v snapshot \<Rightarrow> 'v snapshot option" where
  "play_all [] s = Some s"
| "play_all (a # as) s = (case play a s of None \<Rightarrow> None | Some s' \<Rightarrow> play_all as s')"

lemma play_reach:
  assumes "play a (es, q, P) = Some (es', q', P')" "lf_reach C b es q P" "\<And>t. a = StartDeq t \<Longrightarrow> t \<in> C"
  shows "lf_reach C b es' q' P'"
  using assms
  by (cases a) (auto split: lf_pc.splits outcome.splits prod.splits intro: lf_reach.intros)

lemma play_all_reach:
  assumes "play_all as (es, q, P) = Some (es', q', P')" "lf_reach C b es q P" "\<And>t. StartDeq t \<in> set as \<Longrightarrow> t \<in> C"
  shows "lf_reach C b es' q' P'"
  using assms
proof (induction as arbitrary: es q P)
  case (Cons a as)
  obtain es1 q1 P1 where s: "play a (es, q, P) = Some (es1, q1, P1)" "play_all as (es1, q1, P1) = Some (es', q', P')"
    using Cons.prems(1) by (auto split: option.splits)
  show ?case by (rule Cons.IH [OF s(2) play_reach [OF s(1) Cons.prems(2)]]) (use Cons.prems(3) in auto)
qed simp

definition start :: "bool \<Rightarrow> 'v snapshot" where
  "start b = ([], NewLockFreeQueue b, \<lambda>_. Idle)"

definition demo_enq :: "tid \<Rightarrow> 'v interface \<Rightarrow> 'v act list" where
  "demo_enq t v = [StartEnq t v, Step t, Step t, Step t, Step t, Step t, Step t, Step t, Return t]"

lemma start_reach: "play_all as (start b) = Some (es, q, P) \<Longrightarrow> (\<And>t. StartDeq t \<in> set as \<Longrightarrow> t \<in> C) \<Longrightarrow> lf_reach C b es q P"
  unfolding start_def by (rule play_all_reach [OF _ lf_start])

text \<open>One element enqueued by goroutine 1, then goroutine 0 waiting.\<close>

definition demo_one :: "nat snapshot" where
  "demo_one = ([CallEnq 1 (Some 5), RetEnq 1],
     \<lparr>q_holders = (\<lambda>_. \<lparr>h_next = None, h_value = None\<rparr>)(1 := \<lparr>h_next = None, h_value = Some 5\<rparr>, 0 := \<lparr>h_next = Some 1, h_value = None\<rparr>),
      q_free = 2, q_head = 0, q_tail = 1, q_sz = 1, q_ch = 1, q_synch = True\<rparr>, \<lambda>_. Idle)"

lemmas play_simps = demo_enq_def start_def NewLockFreeQueue_def Enqueue_def Dequeue_def lf_step_def CAS_next_def
  CAS_tail_def CAS_head_def Let_def ch_capacity_def

abbreviation demo_queue :: "nat LockFreeQueue" where
  "demo_queue \<equiv> fst (snd demo_one)"

lemma demo_contents: "contents demo_queue = [Some 5]"
  by (simp add: demo_one_def contents_def numeral_2_eq_2)

lemma demo_one_played: "play_all (demo_enq 1 (Some 5)) (start True) = Some demo_one"
  by (simp add: play_simps demo_one_def fun_eq_iff)

lemma demo_reach:
  "lf_reach {0} True [CallEnq 1 (Some 5), RetEnq 1] demo_queue (\<lambda>_. Idle)"
  using start_reach [OF demo_one_played [unfolded demo_one_def], of "{0}"] by (simp add: demo_one_def demo_enq_def)

lemma demo_waiting:
  "lf_reach {0} True [CallEnq 1 (Some 5), RetEnq 1, CallDeq 0] demo_queue ((\<lambda>_. Idle)(0 := DeqWait))"
  using lf_deq [OF demo_reach, of 0] by (simp add: Dequeue_def)

section \<open>Properties\<close>

text \<open>
  C5. The lock-free queue is linearizable. Whatever the interleaving of any number of goroutines, the
  history of calls and returns is one the atomic queue has, and what is in the linked list is what is in
  the atomic queue: elements leave in the order they entered, none is lost or duplicated, and in
  the synchronous mode \<^verbatim>\<open>Dequeue\<close> never returns without an element.
\<close>

theorem lockfree_linearizable:
  assumes "lf_reach C synchr es q P"
  shows "\<exists>S. atomic_queue synchr es (contents q) S \<and> (\<forall>t. P t = Idle \<longrightarrow> S t = Free)"
proof -
  obtain ns hi ti S where sim: "simulates synchr es q P ns hi ti S" using reach_simulates [OF assms] by blast
  then have "contents q = elements ns hi q" using contents_elements by (auto simp: simulates_def)
  moreover have "S t = Free" if "P t = Idle" for t
  proof -
    have "matches q (P t) (S t)" using sim by (simp add: simulates_def)
    then show ?thesis using that by (simp add: matches_def)
  qed
  ultimately show ?thesis using sim by (auto simp: simulates_def)
qed

theorem lockfree_linearizable_witness:
  "\<exists>S. atomic_queue True [CallEnq 1 (Some 5), RetEnq 1] [Some (5 :: nat)] S"
  using lockfree_linearizable [OF demo_reach] by (auto simp: demo_contents)

text \<open>
  No step of a reachable state dereferences nil: \<^verbatim>\<open>Dequeue\<close> reads the value of the holder after the head
  only when there is one.
\<close>

lemma lockfree_no_panic:
  assumes "lf_reach C synchr es q P"
  shows "lf_step (P t) q \<noteq> Panics"
proof -
  obtain ns hi ti S where "simulates synchr es q P ns hi ti S" using reach_simulates [OF assms] by blast
  then have "local_ok ns hi ti q (P t)" by (auto simp: simulates_def lf_inv_def)
  then show ?thesis by (cases "P t") (auto simp: lf_step_def CAS_next_def CAS_head_def Let_def split: prod.splits)
qed

text \<open>
  The size counter is exact at rest: when no call is in progress, \<^verbatim>\<open>Len\<close> is the number of elements, and the
  channel holds at most that many tokens.
\<close>

lemma lockfree_size:
  assumes "lf_reach C synchr es q P" and rest: "\<forall>t. P t = Idle"
  shows "Len q = of_nat (length (contents q)) \<and> (synchr \<longrightarrow> q_ch q \<le> length (contents q))"
proof -
  obtain ns hi ti S where sim: "simulates synchr es q P ns hi ti S" using reach_simulates [OF assms(1)] by blast
  then have "items ns hi = int (length (contents q))" using items_contents by (auto simp: simulates_def)
  moreover have "tally uncounted P = 0" "tally load P = 0" using rest by (auto simp: tally_def active_def)
  ultimately show ?thesis using sim by (simp add: simulates_def account_def Len_def)
qed

text \<open>
  C29. No wake-up is lost with one consumer: while it waits and no \<^verbatim>\<open>Enqueue\<close> is between linking its element and
  signalling it, the channel is empty exactly when the queue is.
\<close>

theorem no_lost_wakeup:
  assumes "lf_reach {c} True es q P" and "P c = DeqWait" and "\<forall>t. \<not> pending (P t)"
  shows "q_ch q = 0 \<longleftrightarrow> contents q = []"
proof -
  have sg: "single c q P" by (rule reach_single [OF assms(1)]) simp_all
  have "load (P t) = 0" for t
  proof -
    have "\<not> inflight (P t)" using sg assms(2) by (cases "t = c"; cases "P t") (auto simp: single_def)
    then show ?thesis using assms(3) by (simp add: load_def)
  qed
  then have "tally load P = 0" by (simp add: tally_def)
  then show ?thesis using sg by (simp add: single_def)
qed

theorem no_lost_wakeup_witness: "q_ch demo_queue \<noteq> 0 \<and> contents demo_queue \<noteq> []"
  using no_lost_wakeup [OF demo_waiting] by (simp add: demo_contents)

text \<open>
  C30. \<^verbatim>\<open>Enqueue\<close> is obstruction-free: from every reachable state a goroutine inside \<^verbatim>\<open>Enqueue\<close> that runs alone
  finishes within 14 of its own steps, unless the channel is full.
\<close>

theorem enqueue_finishes:
  assumes "lf_reach C synchr es q P" and enq: "is_enq (P t)" and ch: "q_ch q < ch_capacity"
  shows "\<exists>n \<le> 14. fst (alone n (P t) q) = EnqDone"
proof -
  obtain ns hi ti S where "simulates synchr es q P ns hi ti S" using reach_simulates [OF assms(1)] by blast
  then have inv: "lf_inv ns hi ti q P" by (simp add: simulates_def)
  have "done_in 14 (P t) q" by (rule enq_done_in [OF inv enq ch])
  then show ?thesis by (simp add: done_in_def)
qed

theorem enqueue_finishes_witness:
  "\<exists>n \<le> 14. fst (alone n (EnqTail 2) (snd (Enqueue (Some 7) demo_queue))) = EnqDone"
proof -
  have e: "Enqueue (Some 7) demo_queue = (EnqTail 2, snd (Enqueue (Some 7) demo_queue))"
    by (simp add: Enqueue_def demo_one_def)
  show ?thesis
    using enqueue_finishes [OF lf_enq [OF demo_reach _ e, of 1], of 1]
    by (simp add: Enqueue_def demo_one_def ch_capacity_def)
qed

text \<open>
  C31. With two consumers a wake-up can be lost: \<^verbatim>\<open>Dequeue\<close> takes a new token on every round of its loop, so a consumer that
  lost the race for the head gives up the token of an element that is still in the queue. A state is
  reachable in which an element is in the queue and every goroutine is idle or blocked.
\<close>

theorem lost_wakeup:
  "\<exists>es q (P :: tid \<Rightarrow> nat lf_pc). lf_reach {0, 1} True es q P \<and> contents q \<noteq> [] \<and> P 0 = DeqWait \<and>
     (\<forall>t. P t = Idle \<or> lf_step (P t) q = Blocks)"
proof -
  let ?as = "demo_enq 2 (Some 5) @ demo_enq 2 (Some 6) @
    [StartDeq 0, Step 0, Step 0, StartDeq 1, Step 1, Step 1,
     Step 0, Step 0, Step 0, Step 0, Step 0, Step 0, Return 0, Step 1, Step 1, Step 1, StartDeq 0]"
  have "\<exists>es q (P :: tid \<Rightarrow> nat lf_pc). play_all ?as (start True) = Some (es, q, P) \<and> contents q \<noteq> [] \<and> P 0 = DeqWait \<and>
     (\<forall>t. P t = Idle \<or> lf_step (P t) q = Blocks)"
    by (simp add: play_simps contents_def numeral_3_eq_3)
  then obtain es q and P :: "tid \<Rightarrow> nat lf_pc" where p: "play_all ?as (start True) = Some (es, q, P)"
    and "contents q \<noteq> []" "P 0 = DeqWait" "\<forall>t. P t = Idle \<or> lf_step (P t) q = Blocks" by blast
  moreover have "lf_reach {0, 1} True es q P" by (rule start_reach [OF p]) (auto simp: demo_enq_def)
  ultimately show ?thesis by blast
qed

end
