(* ===== verification/State_Machine.thy ===== *)
theory State_Machine
  imports Grape_Prelude
begin

text \<open>
  The table-driven state machine of \<^verbatim>\<open>src/statemachine\<close> and the machines of the synchronisation protocol in
  \<^verbatim>\<open>src/dag/syncstates.go\<close>, one per tracking identifier.

  A state is a \<^verbatim>\<open>uint16\<close>. The signal channel has one place; \<open>sm_ch\<close> is its content, and a send on the full
  channel blocks, with both locks held. \<^verbatim>\<open>waitForSM\<close> keeps the lock of the collection for the whole wait, so the
  machine it waits for cannot change in between; what it returns is a function of the state it finds.
\<close>

section \<open>States and tables\<close>

type_synonym State = "16 word"

definition SYNC_ZERO_STATE :: State where "SYNC_ZERO_STATE = 0"
definition SYNC_DISPATCH_BEGIN :: State where "SYNC_DISPATCH_BEGIN = 1"
definition SYNC_DISPATCH_END :: State where "SYNC_DISPATCH_END = 2"
definition SYNC_QUERY_BEGIN :: State where "SYNC_QUERY_BEGIN = 3"
definition SYNC_QUERY_END :: State where "SYNC_QUERY_END = 4"
definition SYNC_HANDLE_BEGIN :: State where "SYNC_HANDLE_BEGIN = 5"
definition SYNC_HANDLE_END :: State where "SYNC_HANDLE_END = 6"
definition SYNC_CANCEL_STATE :: State where "SYNC_CANCEL_STATE = 7"

lemmas sync_states = SYNC_ZERO_STATE_def SYNC_DISPATCH_BEGIN_def SYNC_DISPATCH_END_def SYNC_QUERY_BEGIN_def
  SYNC_QUERY_END_def SYNC_HANDLE_BEGIN_def SYNC_HANDLE_END_def SYNC_CANCEL_STATE_def

text \<open>\<^verbatim>\<open>String\<close> indexes a table of eight names; \<open>None\<close> is the panic on any other number.\<close>

definition state_names :: "string list" where
  "state_names = [''SYNC_ZERO_STATE'', ''SYNC_DISPATCH_BEGIN'', ''SYNC_DISPATCH_END'', ''SYNC_QUERY_BEGIN'',
     ''SYNC_QUERY_END'', ''SYNC_HANDLE_BEGIN'', ''SYNC_HANDLE_END'', ''SYNC_CANCEL_STATE'']"

definition State_String :: "State \<Rightarrow> string option" where
  "State_String s = (if unat s < length state_names then Some (state_names ! unat s) else None)"

type_synonym StateChanges = "State \<rightharpoonup> State set"

definition NewStateChanges :: StateChanges where
  "NewStateChanges = Map.empty"

definition AddStateChange :: "State \<Rightarrow> State \<Rightarrow> StateChanges \<Rightarrow> StateChanges" where
  "AddStateChange fromState toState sc =
     (case sc fromState of
        Some targets \<Rightarrow> sc(fromState \<mapsto> insert toState targets)
      | None \<Rightarrow> sc(fromState \<mapsto> {toState}))"

definition CanChangeState :: "StateChanges \<Rightarrow> State \<Rightarrow> State \<Rightarrow> bool" where
  "CanChangeState sc fromState toState =
     (case sc fromState of None \<Rightarrow> False | Some tsc \<Rightarrow> toState \<in> tsc)"

text \<open>
  The builders share the table. A chain \<^verbatim>\<open>AddStateChangeFrom(s).To(t).ThenTo(u)\<close> records each step from
  the state before it.
\<close>

record StateChangeFrom =
  sf_sc :: StateChanges
  sf_fromState :: State

record StateChangeTo =
  st_sc :: StateChanges
  st_fromState :: State

definition AddStateChangeFrom :: "State \<Rightarrow> StateChanges \<Rightarrow> StateChangeFrom" where
  "AddStateChangeFrom state sc = \<lparr>sf_sc = sc, sf_fromState = state\<rparr>"

definition To :: "State \<Rightarrow> StateChangeFrom \<Rightarrow> StateChangeTo" where
  "To state f = \<lparr>st_sc = AddStateChange (sf_fromState f) state (sf_sc f), st_fromState = state\<rparr>"

definition ThenTo :: "State \<Rightarrow> StateChangeTo \<Rightarrow> StateChangeTo" where
  "ThenTo state i = \<lparr>st_sc = AddStateChange (st_fromState i) state (st_sc i), st_fromState = state\<rparr>"

section \<open>The machine\<close>

record StateMachine =
  sm_stateChanges :: StateChanges
  sm_currentState :: State
  sm_ch :: "State option"

definition NewStateMachine :: "StateChanges \<Rightarrow> State \<Rightarrow> StateMachine" where
  "NewStateMachine scs is = \<lparr>sm_stateChanges = scs, sm_currentState = is, sm_ch = None\<rparr>"

definition Current :: "StateMachine \<Rightarrow> State" where
  "Current m = sm_currentState m"

definition ResetTo :: "State \<Rightarrow> StateMachine \<Rightarrow> StateMachine" where
  "ResetTo state m = m\<lparr>sm_currentState := state\<rparr>"

definition canChangeTo :: "StateMachine \<Rightarrow> State \<Rightarrow> bool" where
  "canChangeTo m newState = CanChangeState (sm_stateChanges m) (sm_currentState m) newState"

datatype change_result = Changed StateMachine | ErrStateChange | Stuck

text \<open>A refused change logs both states by name, which panics on an unnamed one (\<open>None\<close>).\<close>

definition SyncChangeTo :: "State \<Rightarrow> bool \<Rightarrow> StateMachine \<Rightarrow> change_result option" where
  "SyncChangeTo newState signal m =
     (if \<not> canChangeTo m newState
      then (if State_String (sm_currentState m) = None \<or> State_String newState = None then None
            else Some ErrStateChange)
      else
        (let m' = m\<lparr>sm_currentState := newState\<rparr> in
         if signal
         then (case sm_ch m' of None \<Rightarrow> Some (Changed (m'\<lparr>sm_ch := Some newState\<rparr>)) | Some _ \<Rightarrow> Some Stuck)
         else Some (Changed m')))"

text \<open>\<^verbatim>\<open>WaitForChange\<close> receives from the channel; \<open>None\<close> blocks.\<close>

definition WaitForChange :: "StateMachine \<Rightarrow> (State \<times> StateMachine) option" where
  "WaitForChange m = map_option (\<lambda>s. (s, m\<lparr>sm_ch := None\<rparr>)) (sm_ch m)"

text \<open>\<open>later\<close> is the state of the machine when the timer fires. \<open>True\<close> reports the error.\<close>

definition WaitForState :: "State \<Rightarrow> StateMachine \<Rightarrow> StateMachine \<Rightarrow> State \<times> bool" where
  "WaitForState waitState m later =
     (if sm_currentState m = waitState then (sm_currentState m, False)
      else (sm_currentState later, sm_currentState later \<noteq> waitState))"

section \<open>The machines of the synchronisation protocol\<close>

definition sync_changes :: StateChanges where
  "sync_changes =
     (let c0 = NewStateChanges;
          c1 = st_sc (To SYNC_DISPATCH_BEGIN (AddStateChangeFrom SYNC_ZERO_STATE c0));
          c2 = st_sc (To SYNC_QUERY_BEGIN (AddStateChangeFrom SYNC_ZERO_STATE c1));
          c3 = st_sc (ThenTo SYNC_DISPATCH_BEGIN (To SYNC_DISPATCH_END (AddStateChangeFrom SYNC_DISPATCH_BEGIN c2)));
          c4 = st_sc (To SYNC_CANCEL_STATE (AddStateChangeFrom SYNC_DISPATCH_BEGIN c3));
          c5 = st_sc (ThenTo SYNC_QUERY_BEGIN (ThenTo SYNC_QUERY_END (ThenTo SYNC_HANDLE_END
                 (To SYNC_HANDLE_BEGIN (AddStateChangeFrom SYNC_QUERY_BEGIN c4)))));
          c6 = st_sc (To SYNC_CANCEL_STATE (AddStateChangeFrom SYNC_QUERY_BEGIN c5));
          c7 = st_sc (ThenTo SYNC_HANDLE_BEGIN (To SYNC_HANDLE_END (AddStateChangeFrom SYNC_HANDLE_BEGIN c6)))
      in st_sc (To SYNC_CANCEL_STATE (AddStateChangeFrom SYNC_HANDLE_BEGIN c7)))"

definition NewSyncStateMachine :: StateMachine where
  "NewSyncStateMachine = NewStateMachine sync_changes SYNC_ZERO_STATE"

type_synonym SyncSM = "uuid \<rightharpoonup> StateMachine"

definition resetSM :: "uuid \<Rightarrow> SyncSM \<Rightarrow> SyncSM" where
  "resetSM x s = s(x \<mapsto> NewSyncStateMachine)"

definition deleteSM :: "uuid \<Rightarrow> SyncSM \<Rightarrow> SyncSM" where
  "deleteSM x s = s(x := None)"

text \<open>The error of a refused change is dropped.\<close>

definition changeToSM :: "uuid \<Rightarrow> State \<Rightarrow> SyncSM \<Rightarrow> SyncSM option" where
  "changeToSM x sc s =
     (case s x of
        None \<Rightarrow> Some s
      | Some m \<Rightarrow>
          (case SyncChangeTo sc False m of
             None \<Rightarrow> None
           | Some (Changed m') \<Rightarrow> Some (s(x \<mapsto> m'))
           | Some _ \<Rightarrow> Some s))"

definition currentSM :: "uuid \<Rightarrow> SyncSM \<Rightarrow> State" where
  "currentSM x s = (case s x of Some m \<Rightarrow> Current m | None \<Rightarrow> SYNC_ZERO_STATE)"

definition existsSM :: "uuid \<Rightarrow> SyncSM \<Rightarrow> bool" where
  "existsSM x s = (s x \<noteq> None)"

definition waitForSM :: "uuid \<Rightarrow> State \<Rightarrow> SyncSM \<Rightarrow> State \<times> bool" where
  "waitForSM x state s =
     (case s x of Some m \<Rightarrow> WaitForState state m m | None \<Rightarrow> (SYNC_ZERO_STATE, True))"

text \<open>
  The loop asks every three seconds until the timer fires; \<open>ticks\<close> lists the machines at those moments.
\<close>

fun waitForSMInLoop :: "uuid \<Rightarrow> State \<Rightarrow> SyncSM list \<Rightarrow> State \<times> bool" where
  "waitForSMInLoop x state [] = (SYNC_ZERO_STATE, True)"
| "waitForSMInLoop x state (s # ticks) =
     (let (st, err) = waitForSM x state s in if \<not> err then (st, err) else waitForSMInLoop x state ticks)"

section \<open>Lemmas\<close>

lemma CanChangeState_Add:
  "CanChangeState (AddStateChange f t sc) a b \<longleftrightarrow> (a = f \<and> b = t) \<or> CanChangeState sc a b"
  by (auto simp: CanChangeState_def AddStateChange_def split: option.splits)

lemma CanChangeState_New: "CanChangeState NewStateChanges a b \<longleftrightarrow> False"
  by (simp add: CanChangeState_def NewStateChanges_def)

lemma builder_sc [simp]:
  "st_sc (To t (AddStateChangeFrom f sc)) = AddStateChange f t sc"
  "st_fromState (To t (AddStateChangeFrom f sc)) = t"
  "st_sc (ThenTo u i) = AddStateChange (st_fromState i) u (st_sc i)"
  "st_fromState (ThenTo u i) = u"
  by (simp_all add: To_def ThenTo_def AddStateChangeFrom_def)

definition sync_edges :: "(State \<times> State) set" where
  "sync_edges =
     {(SYNC_ZERO_STATE, SYNC_DISPATCH_BEGIN), (SYNC_ZERO_STATE, SYNC_QUERY_BEGIN),
      (SYNC_DISPATCH_BEGIN, SYNC_DISPATCH_END), (SYNC_DISPATCH_END, SYNC_DISPATCH_BEGIN),
      (SYNC_DISPATCH_BEGIN, SYNC_CANCEL_STATE), (SYNC_QUERY_BEGIN, SYNC_HANDLE_BEGIN),
      (SYNC_HANDLE_BEGIN, SYNC_HANDLE_END), (SYNC_HANDLE_END, SYNC_QUERY_END),
      (SYNC_QUERY_END, SYNC_QUERY_BEGIN), (SYNC_QUERY_BEGIN, SYNC_CANCEL_STATE),
      (SYNC_HANDLE_END, SYNC_HANDLE_BEGIN), (SYNC_HANDLE_BEGIN, SYNC_CANCEL_STATE)}"

lemma sync_changes_exact: "CanChangeState sync_changes a b \<longleftrightarrow> (a, b) \<in> sync_edges"
  unfolding sync_changes_def Let_def sync_edges_def builder_sc CanChangeState_Add CanChangeState_New
    insert_iff empty_iff prod.inject
  by argo

definition machines_ok :: "SyncSM \<Rightarrow> bool" where
  "machines_ok s \<longleftrightarrow> (\<forall>x m. s x = Some m \<longrightarrow>
     sm_stateChanges m = sync_changes \<and> (SYNC_ZERO_STATE, sm_currentState m) \<in> sync_edges\<^sup>* \<and> sm_ch m = None)"

lemma machines_ok_empty: "machines_ok Map.empty"
  by (simp add: machines_ok_def)

lemma machines_ok_reset [inv_intros]: "machines_ok s \<Longrightarrow> machines_ok (resetSM x s)"
  by (auto simp: machines_ok_def resetSM_def NewSyncStateMachine_def NewStateMachine_def)

lemma machines_ok_delete [inv_intros]: "machines_ok s \<Longrightarrow> machines_ok (deleteSM x s)"
  by (auto simp: machines_ok_def deleteSM_def)

lemma machines_ok_change [inv_intros]:
  assumes "machines_ok s" "changeToSM x sc s = Some s'"
  shows "machines_ok s'"
proof (cases "s x")
  case (Some m)
  have m: "sm_stateChanges m = sync_changes" "(SYNC_ZERO_STATE, sm_currentState m) \<in> sync_edges\<^sup>*"
    using assms(1) Some by (auto simp: machines_ok_def)
  show ?thesis
  proof (cases "canChangeTo m sc")
    case True
    then have "(sm_currentState m, sc) \<in> sync_edges" using m by (simp add: canChangeTo_def sync_changes_exact)
    then have "(SYNC_ZERO_STATE, sc) \<in> sync_edges\<^sup>*" using m(2) by (rule rtrancl_into_rtrancl [rotated])
    then show ?thesis using assms Some True
      by (auto simp: machines_ok_def changeToSM_def SyncChangeTo_def split: if_splits)
  qed (use assms Some in \<open>auto simp: machines_ok_def changeToSM_def SyncChangeTo_def split: if_splits\<close>)
qed (use assms in \<open>simp add: changeToSM_def\<close>)

lemma sync_edges_named:
  assumes "(SYNC_ZERO_STATE, s) \<in> sync_edges\<^sup>*"
  shows "unat s < length state_names"
  using assms
proof (cases rule: rtranclE)
  case (step y)
  then show ?thesis by (auto simp: sync_edges_def sync_states state_names_def)
qed (simp add: sync_states state_names_def)

text \<open>The three orders of calls in the protocol handlers and what they leave.\<close>

lemma current_after_reset: "currentSM x (resetSM x s) = SYNC_ZERO_STATE"
  by (simp add: currentSM_def resetSM_def Current_def NewSyncStateMachine_def NewStateMachine_def)

lemma changeToSM_edge:
  assumes "s x = Some m" "sm_stateChanges m = sync_changes" "(sm_currentState m, sc) \<in> sync_edges"
  shows "changeToSM x sc s = Some (s(x \<mapsto> m\<lparr>sm_currentState := sc\<rparr>))"
  using assms by (simp add: changeToSM_def SyncChangeTo_def canChangeTo_def sync_changes_exact)

section \<open>Properties\<close>

datatype sm_op = ResetOp uuid | DeleteOp uuid | ChangeOp uuid State

fun sm_step :: "sm_op \<Rightarrow> SyncSM \<Rightarrow> SyncSM option" where
  "sm_step (ResetOp x) s = Some (resetSM x s)"
| "sm_step (DeleteOp x) s = Some (deleteSM x s)"
| "sm_step (ChangeOp x sc) s = changeToSM x sc s"

fun sm_run :: "sm_op list \<Rightarrow> SyncSM \<Rightarrow> SyncSM option" where
  "sm_run [] s = Some s"
| "sm_run (a # as) s = (case sm_step a s of None \<Rightarrow> None | Some s' \<Rightarrow> sm_run as s')"

lemma sm_run_ok:
  assumes "machines_ok s" "\<And>x sc. ChangeOp x sc \<in> set ops \<Longrightarrow> State_String sc \<noteq> None"
  shows "\<exists>s'. sm_run ops s = Some s' \<and> machines_ok s'"
  using assms
proof (induction ops arbitrary: s)
  case (Cons a ops)
  have "\<exists>s1. sm_step a s = Some s1 \<and> machines_ok s1"
  proof (cases a)
    case (ChangeOp x sc)
    have named: "State_String (sm_currentState m) \<noteq> None" if "s x = Some m" for m
      using Cons.prems(1) that sync_edges_named by (auto simp: machines_ok_def State_String_def)
    have "changeToSM x sc s \<noteq> None"
      using Cons.prems(2) [of x sc] ChangeOp named
      by (auto simp: changeToSM_def SyncChangeTo_def Let_def split: option.splits change_result.splits)
    then show ?thesis using machines_ok_change [OF Cons.prems(1)] ChangeOp by auto
  qed (use Cons.prems(1) in \<open>auto intro: inv_intros\<close>)
  then obtain s1 where s1: "sm_step a s = Some s1" "machines_ok s1" by blast
  have "\<exists>s'. sm_run ops s1 = Some s' \<and> machines_ok s'"
    by (rule Cons.IH [OF s1(2)]) (use Cons.prems(2) in auto)
  then show ?case using s1(1) by simp
qed simp



end
