(* ===== verification/Sync_Protocol.thy ===== *)
theory Sync_Protocol
  imports State_Machine Messages Dag_Store
begin

text \<open>
  The synchronisation protocol of \<^verbatim>\<open>src/dag/sync.go\<close>, \<^verbatim>\<open>synchandle.go\<close>, \<^verbatim>\<open>syncmngr.go\<close>, \<^verbatim>\<open>syncpin.go\<close> and
  \<^verbatim>\<open>syncsite.go\<close>: the requests a node sends, the answers of the leader and what a node does with an answer.

  \<open>SyncState\<close> is the node with the package variables of the protocol: the state machines, the queue of messages
  to publish, the flags of \<^verbatim>\<open>DagSyncMngr\<close> and the channel of downloaded pins with its 1000 places. A request or a
  handler is one step; \<open>sync_publish_one\<close> is one round of the publisher and \<open>sync_receive\<close> one round of the
  subscriber. Where a handler repeats until its message is published, the rounds of the other goroutines are an
  argument. \<open>None\<close> means that the step does not return: a panic, or a wait that nothing ends. Log output is left
  out, except where its arguments can panic whatever the verbosity is.

  Outside the sources are the key of the libp2p host, the protobuf codec, \<^verbatim>\<open>anypb\<close>, MD5 and \<^verbatim>\<open>uuid.New\<close>: fields of
  \<open>sync_env\<close>.
\<close>

section \<open>State and environment\<close>

text \<open>The messages that travel in an \<^verbatim>\<open>Any\<close>; \<open>WOther\<close> stands for every other registered type.\<close>

datatype wrapper =
    WInt64 "64 word"
  | WInt32 "32 word"
  | WString string
  | WBytes bytes
  | WNode pb_Node
  | WOther

record sync_env =
  se_dag :: dag_env
  se_Leader :: bool
  se_SnapshotSync :: bool
  se_keyPair :: bool
  se_pubkey :: "bytes option"
  se_sign :: "bytes \<Rightarrow> bytes option"
  se_unmarshalKey :: "bytes \<Rightarrow> (bytes \<Rightarrow> bytes \<Rightarrow> bool option) option"
  se_syncBytes :: "pb_Syncv1 \<Rightarrow> bytes"
  se_pinParse :: "bytes \<Rightarrow> TxPin option"
  se_any :: "wrapper \<Rightarrow> any"
  se_unany :: "any \<Rightarrow> wrapper option"
  se_md5 :: "bytes \<Rightarrow> bytes"
  se_uuidParse :: "string \<Rightarrow> uuid"
  se_uuid :: "nat \<Rightarrow> uuid"
  se_clock :: "nat \<Rightarrow> time"

abbreviation se_pin :: "sync_env \<Rightarrow> pin_env" where
  "se_pin E \<equiv> de_pin (se_dag E)"

abbreviation se_ext :: "sync_env \<Rightarrow> ext" where
  "se_ext E \<equiv> pe_ext (se_pin E)"

abbreviation se_pinBytes :: "sync_env \<Rightarrow> TxPin \<Rightarrow> bytes option" where
  "se_pinBytes E \<equiv> pe_marshal (se_pin E) (pe_ord (se_pin E))"

text \<open>
  What the code relies on: both codecs read back what they write. \<^verbatim>\<open>anypb.New\<close> can fail, on a string that is not
  UTF-8 for example; the ignored error leaves a nil \<^verbatim>\<open>Any\<close>, whose fields read as empty and which cannot be
  unmarshalled.
\<close>

definition nil_any :: any where
  "nil_any = Any [] []"

definition sync_ok :: "sync_env \<Rightarrow> bool" where
  "sync_ok E \<longleftrightarrow>
     ext_ok (se_ext E) \<and> range_order (pe_ord (se_pin E)) \<and>
     se_unany E nil_any = None \<and>
     (\<forall>w. se_any E w \<noteq> nil_any \<longrightarrow> se_unany E (se_any E w) = Some w) \<and>
     (\<forall>n. se_any E (WInt64 n) \<noteq> nil_any) \<and> (\<forall>n. se_any E (WInt32 n) \<noteq> nil_any) \<and>
     (\<forall>b. se_any E (WBytes b) \<noteq> nil_any) \<and>
     (\<forall>p b. se_pinBytes E p = Some b \<longrightarrow> se_pinParse E b = Some p)"

definition same_codec :: "sync_env \<Rightarrow> sync_env \<Rightarrow> bool" where
  "same_codec E R \<longleftrightarrow> se_ext E = se_ext R \<and> se_unany E = se_unany R \<and> se_pinParse E = se_pinParse R"

text \<open>The key of the host is usable, and whoever receives its public key can check its signatures.\<close>

definition host_key :: "sync_env \<Rightarrow> sync_env \<Rightarrow> bool" where
  "host_key E R \<longleftrightarrow>
     se_keyPair E \<and>
     (\<exists>pub verify. se_pubkey E = Some pub \<and> se_unmarshalKey R pub = Some verify \<and>
        (\<forall>m. \<exists>s. se_sign E m = Some s \<and> verify m s = Some True))"

record SyncState =
  ss_world :: World
  ss_machines :: SyncSM
  ss_queue :: "Syncv1 list"
  ss_ready :: bool
  ss_downloaded :: "TxPin list"
  ss_closed :: bool
  ss_HaveJoined :: bool
  ss_SitesProcessed :: bool
  ss_StopFlag :: bool
  ss_sent :: "pb_Syncv1 list"
  ss_drawn :: nat

datatype sync_error =
    NoKeyPair
  | BadPublicKey
  | BadPinBytes
  | NoPinYet
  | NoSuchSites "string list"
  | BadSignature
  | HeightMismatch int int
  | NotDispatched

type_synonym sync_result = "(sync_error option \<times> SyncState) option"

abbreviation (input) STVX1 :: "8 word" where "STVX1 \<equiv> 1"

abbreviation ss_pins :: "SyncState \<Rightarrow> TxPin list" where
  "ss_pins S \<equiv> ns_pins (w_node (ss_world S))"

definition set_pins :: "TxPin list \<Rightarrow> SyncState \<Rightarrow> SyncState" where
  "set_pins ps S =
     S\<lparr>ss_world := (ss_world S)\<lparr>w_node := (w_node (ss_world S))\<lparr>ns_pins := ps\<rparr>\<rparr>\<rparr>"

definition reset_machine :: "uuid \<Rightarrow> SyncState \<Rightarrow> SyncState" where
  "reset_machine x S = S\<lparr>ss_machines := resetSM x (ss_machines S)\<rparr>"

definition delete_machine :: "uuid \<Rightarrow> SyncState \<Rightarrow> SyncState" where
  "delete_machine x S = S\<lparr>ss_machines := deleteSM x (ss_machines S)\<rparr>"

definition change_machine :: "uuid \<Rightarrow> State \<Rightarrow> SyncState \<Rightarrow> SyncState option" where
  "change_machine x st S = map_option (\<lambda>m. S\<lparr>ss_machines := m\<rparr>) (changeToSM x st (ss_machines S))"

definition uuid_New :: "sync_env \<Rightarrow> SyncState \<Rightarrow> uuid \<times> SyncState" where
  "uuid_New E S = (se_uuid E (ss_drawn S), S\<lparr>ss_drawn := Suc (ss_drawn S)\<rparr>)"

section \<open>Building a message\<close>

definition new_message :: "sync_env \<Rightarrow> 8 word \<Rightarrow> 8 word \<Rightarrow> SyncState \<Rightarrow> Syncv1 \<times> SyncState" where
  "new_message E syncType msgType S =
     (let (fresh, S1) = uuid_New E S in
      ((NewSyncv1 fresh (se_clock E (ss_drawn S)))\<lparr>Ver_type := STVX1, Sync_Type := syncType, Msg_Type := msgType\<rparr>, S1))"

text \<open>\<^verbatim>\<open>if trackingId == uuid.Nil { trackingId = uuid.New() }\<close>\<close>

definition or_fresh :: "sync_env \<Rightarrow> uuid \<Rightarrow> SyncState \<Rightarrow> uuid \<times> SyncState" where
  "or_fresh E trackingId S = (if trackingId = uuid_Nil then uuid_New E S else (trackingId, S))"

text \<open>\<^verbatim>\<open>sha256.New().Sum(payload)\<close> appends the digest of nothing to the payload.\<close>

definition with_hash :: "sync_env \<Rightarrow> Syncv1 \<Rightarrow> Syncv1" where
  "with_hash E stx =
     stx\<lparr>SyncHash := se_syncBytes E (Syncv1_MarshalBinary (se_ext E) stx) @ sha256 (se_ext E) []\<rparr>"

definition signed :: "sync_env \<Rightarrow> Syncv1 \<Rightarrow> Syncv1" where
  "signed E stx =
     (let (sig, stx') = Syncv1_GenerateSignature (se_ext E) (se_sign E) stx in
      stx'\<lparr>s_Signature := (case sig of None \<Rightarrow> [] | Some s \<Rightarrow> s)\<rparr>)"

definition enqueue :: "Syncv1 \<Rightarrow> SyncState \<Rightarrow> SyncState" where
  "enqueue stx S = S\<lparr>ss_queue := ss_queue S @ [stx]\<rparr>"

text \<open>The common end of a request: mark the machine and hand the message to the publisher.\<close>

definition dispatch :: "Syncv1 \<Rightarrow> SyncState \<Rightarrow> SyncState option" where
  "dispatch stx S =
     map_option (enqueue stx) (change_machine (Tracking_Id stx) SYNC_DISPATCH_BEGIN S)"

text \<open>\<^verbatim>\<open>UnmarshalNew\<close>'s error is ignored: the type assertion on the nil message panics, as an index out of range does.\<close>

definition detail :: "sync_env \<Rightarrow> Syncv1 \<Rightarrow> nat \<Rightarrow> wrapper option" where
  "detail E rec i = (if i < length (Details rec) then se_unany E (Details rec ! i) else None)"

definition pinMerkelHash :: "sync_env \<Rightarrow> pb_SiteID list \<Rightarrow> bytes" where
  "pinMerkelHash E ids =
     fold (\<lambda>s prevHash. se_md5 E (prevHash @ map of_char s))
       (sort (map (\<lambda>x. uuid_String (se_ext E) (uuid_assign (se_ext E) (si_Id x) uuid_Nil)) ids))
       (se_md5 E (replicate 16 0))"

section \<open>Requests\<close>

text \<open>
  \<^verbatim>\<open>transactLatestPin\<close> sends the latest pin, or an empty message when there is none. The deferred deletions run on
  every return after the machine has been created.
\<close>

definition transactLatestPin :: "sync_env \<Rightarrow> uuid \<Rightarrow> 8 word \<Rightarrow> 8 word \<Rightarrow> SyncState \<Rightarrow> sync_result" where
  "transactLatestPin E trackingId syncType msgType S =
     (if \<not> se_keyPair E then Some (Some NoKeyPair, S)
      else
        (let latest_pin = GetLastPin (ss_pins S);
             (stx, S1) = new_message E syncType msgType S;
             (x, S2) = or_fresh E trackingId S1;
             stx1 = stx\<lparr>Tracking_Id := x\<rparr>;
             S3 = reset_machine x S2 in
         case se_pubkey E of
           None \<Rightarrow> Some (Some BadPublicKey, delete_machine x S3)
         | Some pubkey \<Rightarrow>
             (case (case latest_pin of
                      Some p \<Rightarrow> map_option (\<lambda>b. (b, pinMerkelHash E (pin_Sites p))) (se_pinBytes E p)
                    | None \<Rightarrow> Some ([], [])) of
                None \<Rightarrow> Some (Some BadPinBytes, delete_machine x S3)
              | Some (bs, hash) \<Rightarrow>
                  (let stx2 = signed E (stx1\<lparr>s_Sender_Pubk := pubkey, s_Data := bs, SyncHash := hash\<rparr>) in
                   map_option (\<lambda>S'. (None, delete_machine x S')) (dispatch stx2 (reset_machine x S3))))))"

definition announceLatestPin :: "sync_env \<Rightarrow> SyncState \<Rightarrow> sync_result" where
  "announceLatestPin E S = transactLatestPin E uuid_Nil CURRENT STX_ANNOUNCE S"

definition announceNewPin :: "sync_env \<Rightarrow> SyncState \<Rightarrow> sync_result" where
  "announceNewPin E S = transactLatestPin E uuid_Nil LATEST STX_ANNOUNCE S"

definition respondLatestPin :: "sync_env \<Rightarrow> Syncv1 \<Rightarrow> SyncState \<Rightarrow> sync_result" where
  "respondLatestPin E rec S = transactLatestPin E (Tracking_Id rec) LATEST STX_RESPONSE S"

text \<open>The log line of \<^verbatim>\<open>transactMissingPinRequest\<close> slices ten digits of the signature.\<close>

definition transactMissingPinRequest :: "sync_env \<Rightarrow> bytes \<Rightarrow> SyncState \<Rightarrow> sync_result" where
  "transactMissingPinRequest E sign S =
     (if length (hexEncode sign) < 10 then None
      else if \<not> se_keyPair E then Some (Some NoKeyPair, S)
      else
        (let (stx, S1) = new_message E MISSING STX_PIN_REQUEST S;
             x = Tracking_Id stx;
             S2 = reset_machine x S1 in
         case se_pubkey E of
           None \<Rightarrow> Some (Some BadPublicKey, delete_machine x S2)
         | Some pubkey \<Rightarrow>
             (let stx1 = signed E (with_hash E (stx\<lparr>s_Sender_Pubk := pubkey, s_Data := s_Data stx @ sign\<rparr>)) in
              map_option (\<lambda>S'. (None, delete_machine x S')) (dispatch stx1 S2))))"

definition sendPindDownloadRequest :: "sync_env \<Rightarrow> int \<Rightarrow> SyncState \<Rightarrow> sync_result" where
  "sendPindDownloadRequest E fromHeight S =
     (if \<not> se_keyPair E then Some (Some NoKeyPair, S)
      else
        (let (stx, S1) = new_message E CURRENT STX_PIN_DOWNLOAD_REQUEST S;
             S2 = reset_machine (Tracking_Id stx) S1 in
         case se_pubkey E of
           None \<Rightarrow> Some (Some BadPublicKey, S2)
         | Some pubkey \<Rightarrow>
             (let stx1 = signed E (with_hash E (stx\<lparr>s_Sender_Pubk := pubkey, s_Data := [],
                    Details := Details stx @ [se_any E (WInt32 (word_of_int fromHeight))]\<rparr>)) in
              map_option (Pair None) (dispatch stx1 S2))))"

text \<open>
  \<^verbatim>\<open>sendSnapshotRequest\<close> waits for the publisher: \<open>others\<close> is what the other goroutines do in that time. It returns
  the tracking identifier unless it fails before the message is built.
\<close>

definition sendSnapshotRequest ::
  "sync_env \<Rightarrow> (SyncState \<Rightarrow> SyncState) \<Rightarrow> SyncState \<Rightarrow> ((sync_error option \<times> uuid option) \<times> SyncState) option" where
  "sendSnapshotRequest E others S =
     (if \<not> se_keyPair E then Some ((Some NoKeyPair, None), S)
      else
        (let (stx, S1) = new_message E CURRENT STX_SNAPSHOT_BALANCE_REQUEST S;
             x = Tracking_Id stx;
             S2 = reset_machine x S1 in
         case se_pubkey E of
           None \<Rightarrow> Some ((Some BadPublicKey, None), S2)
         | Some pubkey \<Rightarrow>
             (let stx1 = signed E (with_hash E (stx\<lparr>s_Sender_Pubk := pubkey, s_Data := []\<rparr>)) in
              map_option (\<lambda>S3. let S4 = others S3 in
                  ((if snd (waitForSMInLoop x SYNC_DISPATCH_END [ss_machines S4]) then Some NotDispatched else None,
                    Some x), S4))
                (dispatch stx1 S2))))"

definition transactSiteRequest :: "sync_env \<Rightarrow> string list \<Rightarrow> SyncState \<Rightarrow> sync_result" where
  "transactSiteRequest E sites S =
     (if \<not> se_keyPair E then Some (Some NoKeyPair, S)
      else
        (let (stx, S1) = new_message E SITE STX_REQUEST S;
             x = Tracking_Id stx;
             S2 = reset_machine x S1 in
         case se_pubkey E of
           None \<Rightarrow> Some (Some BadPublicKey, delete_machine x S2)
         | Some pubkey \<Rightarrow>
             (let stx1 = signed E (with_hash E (stx\<lparr>s_Sender_Pubk := pubkey,
                    Details := Details stx @ map (\<lambda>v. se_any E (WString v)) sites\<rparr>)) in
              map_option (\<lambda>S'. (None, delete_machine x S')) (dispatch stx1 S2))))"

definition requestSitesFromLeader :: "sync_env \<Rightarrow> SyncState \<Rightarrow> sync_result" where
  "requestSitesFromLeader E S =
     (if \<not> se_keyPair E then Some (Some NoKeyPair, S)
      else
        (let (stx, S1) = new_message E GENESIS STX_SITE_REQUEST S;
             (x, S2) = uuid_New E S1 in
         case se_pubkey E of
           None \<Rightarrow> Some (Some BadPublicKey, S2)
         | Some pubkey \<Rightarrow>
             (let stx1 = signed E (stx\<lparr>Tracking_Id := x, s_Sender_Pubk := pubkey, s_Data := [], SyncHash := []\<rparr>) in
              map_option (Pair None) (dispatch stx1 (reset_machine x S2)))))"

text \<open>
  \<^verbatim>\<open>SyncPin\<close> walks the pins from the last to the first and asks for every predecessor that is not in its place. The
  errors of the requests are dropped.
\<close>

definition missing_before :: "TxPin list \<Rightarrow> nat \<Rightarrow> bool" where
  "missing_before pins idx =
     (let prev = pin_Prev (pins ! idx) in
      0 < length prev \<and> (idx = 0 \<or> prev \<noteq> pin_Sign (pins ! (idx - 1))))"

fun syncPin_loop :: "sync_env \<Rightarrow> nat \<Rightarrow> SyncState \<Rightarrow> SyncState option" where
  "syncPin_loop E 0 S = Some S"
| "syncPin_loop E (Suc idx) S =
     (if missing_before (ss_pins S) idx
      then (case transactMissingPinRequest E (pin_Prev (ss_pins S ! idx)) S of
              None \<Rightarrow> None
            | Some (_, S') \<Rightarrow> syncPin_loop E idx S')
      else syncPin_loop E idx S)"

definition SyncPin :: "sync_env \<Rightarrow> SyncState \<Rightarrow> SyncState option" where
  "SyncPin E S = syncPin_loop E (length (ss_pins S)) S"

text \<open>
  \<^verbatim>\<open>SyncSnapshot\<close> asks until the node is ready or its machine shows the end of the handling. A round gives what the
  other goroutines do during the two waits.
\<close>

fun SyncSnapshot ::
  "sync_env \<Rightarrow> ((SyncState \<Rightarrow> SyncState) \<times> (SyncState \<Rightarrow> SyncState)) list \<Rightarrow> SyncState \<Rightarrow> SyncState option" where
  "SyncSnapshot E [] S = (if ss_ready S then Some S else None)"
| "SyncSnapshot E ((publishing, answering) # rounds) S =
     (if ss_ready S then Some S
      else
        (case sendSnapshotRequest E publishing S of
           None \<Rightarrow> None
         | Some ((Some _, _), S1) \<Rightarrow> SyncSnapshot E rounds S1
         | Some ((None, None), S1) \<Rightarrow> None
         | Some ((None, Some x), S1) \<Rightarrow>
             (let S2 = answering S1 in
              if snd (waitForSMInLoop x SYNC_HANDLE_END [ss_machines S2]) then SyncSnapshot E rounds S2
              else Some (delete_machine x S2))))"

definition DagSyncMngr_Stop :: "sync_env \<Rightarrow> SyncState \<Rightarrow> SyncState" where
  "DagSyncMngr_Stop E S =
     (let (x, S1) = uuid_New E S in
      enqueue (NewSyncv1Stop x (se_clock E (ss_drawn S))) (S1\<lparr>ss_StopFlag := True\<rparr>))"

section \<open>Answers of the leader\<close>

text \<open>
  ``Ensure response is published'': \<open>rounds\<close> are the activities of the other goroutines during the successive waits.
  When they are used up the handler is still waiting.
\<close>

fun ensure_published :: "Syncv1 \<Rightarrow> (SyncState \<Rightarrow> SyncState) list \<Rightarrow> SyncState \<Rightarrow> SyncState option" where
  "ensure_published stx [] S = None"
| "ensure_published stx (others # rounds) S =
     (let S1 = others S; x = Tracking_Id stx in
      if snd (waitForSMInLoop x SYNC_DISPATCH_END [ss_machines S1])
      then ensure_published stx rounds (enqueue stx (reset_machine x S1))
      else Some S1)"

definition balance_details :: "sync_env \<Rightarrow> (string \<rightharpoonup> bytes) \<Rightarrow> any list" where
  "balance_details E balances =
     concat (map (\<lambda>w. [se_any E (WString w), se_any E (WBytes (the (balances w)))])
       (pe_ord (se_pin E) (dom balances)))"

text \<open>The error of \<^verbatim>\<open>MarshalBinary\<close> is ignored: the data are empty then.\<close>

definition respondLatestBalances ::
  "sync_env \<Rightarrow> (SyncState \<Rightarrow> SyncState) list \<Rightarrow> Syncv1 \<Rightarrow> SyncState \<Rightarrow> sync_result" where
  "respondLatestBalances E rounds rec S =
     (if \<not> se_keyPair E then Some (Some NoKeyPair, S)
      else
        (case GetLastPin (ss_pins S) of
           None \<Rightarrow> Some (Some NoPinYet, S)
         | Some latest_pin \<Rightarrow>
             (let (stx, S1) = new_message E CURRENT STX_SNAPSHOT_BALANCE_RESPONSE S;
                  currentHeight = pin_PinNumber latest_pin;
                  balances = GetPinnedBalances (pe_ord (se_pin E)) (ss_pins S) (sint currentHeight);
                  stx1 = stx\<lparr>Tracking_Id := Tracking_Id rec,
                    Details := Details stx @ [se_any E (WInt64 currentHeight),
                      se_any E (WInt32 (of_nat (card (dom balances))))] @ balance_details E balances,
                    s_Data := (case se_pinBytes E latest_pin of None \<Rightarrow> [] | Some b \<Rightarrow> b)\<rparr> in
              case se_pubkey E of
                None \<Rightarrow> Some (Some BadPublicKey, S1)
              | Some pubkey \<Rightarrow>
                  (let stx2 = signed E (stx1\<lparr>s_Sender_Pubk := pubkey, SyncHash := []\<rparr>) in
                   map_option (Pair None) (ensure_published stx2 rounds (enqueue stx2 S1))))))"

definition respondAllPinsFrom ::
  "sync_env \<Rightarrow> (SyncState \<Rightarrow> SyncState) list \<Rightarrow> Syncv1 \<Rightarrow> SyncState \<Rightarrow> sync_result" where
  "respondAllPinsFrom E rounds rec S =
     (if \<not> se_keyPair E then Some (Some NoKeyPair, S)
      else
        (let (stx, S1) = new_message E CURRENT STX_PIN_DOWNLOAD_RESPONSE S in
         case detail E rec 0 of
           Some (WInt32 from) \<Rightarrow>
             (let allPins = getAllFrom (ss_pins S) (sint from);
                  stx1 = stx\<lparr>Tracking_Id := Tracking_Id rec,
                    Details := Details stx @ [se_any E (WInt32 (of_nat (length allPins)))] @
                      map (\<lambda>p. se_any E (WBytes (case se_pinBytes E p of None \<Rightarrow> [] | Some b \<Rightarrow> b))) allPins\<rparr> in
              case se_pubkey E of
                None \<Rightarrow> Some (Some BadPublicKey, S1)
              | Some pubkey \<Rightarrow>
                  (let stx2 = signed E (stx1\<lparr>s_Sender_Pubk := pubkey, s_Data := [], SyncHash := []\<rparr>) in
                   map_option (Pair None) (ensure_published stx2 rounds (enqueue stx2 S1))))
         | _ \<Rightarrow> None))"

definition publishMissPinResponse :: "sync_env \<Rightarrow> uuid \<Rightarrow> TxPin \<Rightarrow> SyncState \<Rightarrow> sync_result" where
  "publishMissPinResponse E trackingId pin S =
     (if \<not> se_keyPair E then Some (Some NoKeyPair, S)
      else
        (let (stx, S1) = new_message E MISSING STX_PIN_RESPONSE S;
             S2 = reset_machine trackingId S1 in
         case se_pubkey E of
           None \<Rightarrow> Some (Some BadPublicKey, delete_machine trackingId S2)
         | Some pubkey \<Rightarrow>
             (case se_pinBytes E pin of
                None \<Rightarrow> Some (Some BadPinBytes, delete_machine trackingId S2)
              | Some pbtx \<Rightarrow>
                  (let stx1 = signed E (with_hash E (stx\<lparr>Tracking_Id := trackingId, s_Sender_Pubk := pubkey, s_Data := pbtx\<rparr>)) in
                   map_option (\<lambda>S'. (None, delete_machine trackingId S')) (dispatch stx1 S2)))))"

text \<open>Every pin with the requested signature is sent.\<close>

fun missPin_loop :: "sync_env \<Rightarrow> Syncv1 \<Rightarrow> TxPin list \<Rightarrow> SyncState \<Rightarrow> SyncState option" where
  "missPin_loop E rec [] S = Some S"
| "missPin_loop E rec (p # ps) S =
     (if pin_Sign p = s_Data rec
      then (case publishMissPinResponse E (Tracking_Id rec) p S of
              None \<Rightarrow> None
            | Some (_, S') \<Rightarrow> missPin_loop E rec ps S')
      else missPin_loop E rec ps S)"

definition handleMissPinRequest :: "sync_env \<Rightarrow> Syncv1 \<Rightarrow> SyncState \<Rightarrow> SyncState option" where
  "handleMissPinRequest E rec S = missPin_loop E rec (ss_pins S) S"

text \<open>The nodes to send; marshalling a nil genesis or an unusable transaction panics.\<close>

definition node_details :: "sync_env \<Rightarrow> World \<Rightarrow> addr list \<Rightarrow> any list option" where
  "node_details E W vs =
     those (map (\<lambda>v. map_option (\<lambda>n. se_any E (WNode n))
       (Node_ToPbNode (se_ext E) (pe_flops (se_pin E)) (pe_now_ms (se_pin E)) (w_heap W) v)) vs)"

definition handleSiteRequest :: "sync_env \<Rightarrow> uuid \<Rightarrow> string list \<Rightarrow> SyncState \<Rightarrow> sync_result" where
  "handleSiteRequest E trackingId sites S =
     (if \<not> se_keyPair E then Some (Some NoKeyPair, S)
      else
        (let (vertices, err) = getVertices (se_uuidParse E) (w_dag (ss_world S)) sites in
         if err \<or> length vertices = 0 then Some (Some (NoSuchSites sites), S)
         else
           (let (stx, S1) = new_message E SITE STX_RESPONSE S;
                (x, S2) = or_fresh E trackingId S1;
                S3 = reset_machine x S2 in
            case se_pubkey E of
              None \<Rightarrow> Some (Some BadPublicKey, delete_machine x S3)
            | Some pubkey \<Rightarrow>
                (case node_details E (ss_world S3) vertices of
                   None \<Rightarrow> None
                 | Some ds \<Rightarrow>
                     (let stx1 = signed E (with_hash E (stx\<lparr>Tracking_Id := x, s_Sender_Pubk := pubkey,
                            Details := Details stx @ ds\<rparr>)) in
                      map_option (\<lambda>S'. (None, delete_machine x S')) (dispatch stx1 S3))))))"

definition handleSyncSiteRequest :: "sync_env \<Rightarrow> Syncv1 \<Rightarrow> SyncState \<Rightarrow> SyncState option" where
  "handleSyncSiteRequest E rec S =
     (let x = Tracking_Id rec;
          ids = List.map_filter (\<lambda>v. case se_unany E v of Some (WString s) \<Rightarrow> Some s | _ \<Rightarrow> None) (Details rec) in
      case change_machine x SYNC_HANDLE_BEGIN S of
        None \<Rightarrow> None
      | Some S1 \<Rightarrow>
          (case handleSiteRequest E x ids S1 of
             None \<Rightarrow> None
           | Some (_, S2) \<Rightarrow> change_machine x SYNC_HANDLE_END S2))"

definition processSyncUpRequest :: "sync_env \<Rightarrow> uuid \<Rightarrow> SyncState \<Rightarrow> sync_result" where
  "processSyncUpRequest E trackingId S =
     (if \<not> se_keyPair E then Some (Some NoKeyPair, S)
      else
        (case getGenesis (w_dag (ss_world S)) of
           None \<Rightarrow> None
         | Some genesis \<Rightarrow>
             (let (stx, S1) = new_message E GENESIS STX_SITE_RESPONSE S;
                  (x, S2) = or_fresh E trackingId S1;
                  S3 = reset_machine x S2 in
              case se_pubkey E of
                None \<Rightarrow> Some (Some BadPublicKey, S3)
              | Some pubkey \<Rightarrow>
                  (case node_details E (ss_world S3) [genesis] of
                     None \<Rightarrow> None
                   | Some ds \<Rightarrow>
                       (let stx1 = signed E (with_hash E (stx\<lparr>Tracking_Id := x, s_Sender_Pubk := pubkey,
                              Details := Details stx @ ds\<rparr>)) in
                        map_option (Pair None) (dispatch stx1 S3))))))"

definition handleSyncUpRequest :: "sync_env \<Rightarrow> Syncv1 \<Rightarrow> SyncState \<Rightarrow> SyncState option" where
  "handleSyncUpRequest E rec S =
     (let x = Tracking_Id rec in
      case change_machine x SYNC_DISPATCH_BEGIN (reset_machine x S) of
        None \<Rightarrow> None
      | Some S1 \<Rightarrow>
          (case processSyncUpRequest E x S1 of
             None \<Rightarrow> None
           | Some (_, S2) \<Rightarrow> change_machine x SYNC_HANDLE_END S2))"

definition handleSyncPinRequest :: "sync_env \<Rightarrow> Syncv1 \<Rightarrow> SyncState \<Rightarrow> SyncState option" where
  "handleSyncPinRequest E rec S =
     (let x = Tracking_Id rec in
      case change_machine x SYNC_HANDLE_BEGIN S of
        None \<Rightarrow> None
      | Some S1 \<Rightarrow>
          (case respondLatestPin E rec S1 of
             None \<Rightarrow> None
           | Some (_, S2) \<Rightarrow> change_machine x SYNC_HANDLE_END S2))"

section \<open>Handling the answers\<close>

text \<open>Details that are not nodes are skipped.\<close>

fun received_nodes :: "sync_env \<Rightarrow> any list \<Rightarrow> World \<Rightarrow> (addr list \<times> World) option" where
  "received_nodes E [] W = Some ([], W)"
| "received_nodes E (a # as) W =
     (case se_unany E a of
        Some (WNode t) \<Rightarrow>
          (case Node_FromPbNode (se_ext E) (pe_flops (se_pin E)) t
                  (zeroNode (pe_flops (se_pin E)) (de_nilTx (se_dag E))) of
             None \<Rightarrow> None
           | Some n \<Rightarrow>
               (let (v, W1) = alloc n W in map_option (\<lambda>(vs, W2). (v # vs, W2)) (received_nodes E as W1)))
      | _ \<Rightarrow> received_nodes E as W)"

definition handleSyncSiteResponse :: "sync_env \<Rightarrow> Syncv1 \<Rightarrow> SyncState \<Rightarrow> SyncState option" where
  "handleSyncSiteResponse E syncTx S =
     map_option (\<lambda>(vertices, W). S\<lparr>ss_world := InsertIfNotExist vertices W\<rparr>)
       (received_nodes E (Details syncTx) (ss_world S))"

text \<open>The body of \<^verbatim>\<open>handleSyncUpResponse\<close> is the same.\<close>

definition handleSyncUpResponse :: "sync_env \<Rightarrow> Syncv1 \<Rightarrow> SyncState \<Rightarrow> SyncState option" where
  "handleSyncUpResponse E syncTx S =
     map_option (\<lambda>(vertices, W). S\<lparr>ss_world := InsertIfNotExist vertices W\<rparr>)
       (received_nodes E (Details syncTx) (ss_world S))"

definition processMissPinResponse :: "sync_env \<Rightarrow> Syncv1 \<Rightarrow> SyncState \<Rightarrow> sync_result" where
  "processMissPinResponse E rec S =
     (case se_unmarshalKey E (s_Sender_Pubk rec) of
        None \<Rightarrow> Some (Some BadPublicKey, S)
      | Some pubkey \<Rightarrow>
          (case Syncv1_VerifySignature (se_ext E) pubkey rec of
             Some True \<Rightarrow>
               (case se_pinParse E (s_Data rec) of
                  None \<Rightarrow> Some (Some BadPinBytes, S)
                | Some pin \<Rightarrow> map_option (\<lambda>ps. (None, set_pins ps S)) (insertIfNotFound pin (ss_pins S)))
           | _ \<Rightarrow> Some (Some BadSignature, S)))"

text \<open>When the signature is wrong but its check raised no error, the log line calls \<^verbatim>\<open>Error\<close> on a nil error.\<close>

definition handleSyncPinResponse :: "sync_env \<Rightarrow> Syncv1 \<Rightarrow> SyncState \<Rightarrow> sync_result" where
  "handleSyncPinResponse E stx S =
     (case se_unmarshalKey E (s_Sender_Pubk stx) of
        None \<Rightarrow> Some (Some BadPublicKey, S)
      | Some pubkey \<Rightarrow>
          (case Syncv1_VerifySignature (se_ext E) pubkey stx of
             None \<Rightarrow> Some (Some BadSignature, S)
           | Some False \<Rightarrow> None
           | Some True \<Rightarrow>
               (case se_pinParse E (s_Data stx) of
                  None \<Rightarrow> Some (Some BadPinBytes, S)
                | Some pin \<Rightarrow> map_option (\<lambda>ps. (None, set_pins ps S)) (insertIfNotFound pin (ss_pins S)))))"

text \<open>
  Writing the received balances into the received pin. Protobuf leaves a map without entries nil, and assigning to
  it panics; so does a detail of another type.
\<close>

fun balances_loop :: "sync_env \<Rightarrow> Syncv1 \<Rightarrow> nat \<Rightarrow> nat \<Rightarrow> TxPin \<Rightarrow> TxPin option" where
  "balances_loop E rec 0 offset pin = Some pin"
| "balances_loop E rec (Suc n) offset pin =
     (case (detail E rec offset, detail E rec (Suc offset)) of
        (Some (WString wallet), Some (WBytes balanceBytes)) \<Rightarrow>
          if pin_Balance pin = Map.empty then None
          else balances_loop E rec n (offset + 2)
                 (pin\<lparr>pin_Balance := (pin_Balance pin)(wallet \<mapsto> balanceBytes)\<rparr>)
      | _ \<Rightarrow> None)"

text \<open>The pin is appended before its height is compared, and it stays when they differ.\<close>

definition handleLatestBalances :: "sync_env \<Rightarrow> Syncv1 \<Rightarrow> SyncState \<Rightarrow> sync_result" where
  "handleLatestBalances E rec S =
     (if ss_ready S then Some (None, S)
      else
        (case se_pinParse E (s_Data rec) of
           None \<Rightarrow> Some (Some BadPinBytes, S)
         | Some latestPin \<Rightarrow>
             (let pins = ss_pins S; S1 = set_pins (pins @ [latestPin]) S in
              case detail E rec 0 of
                Some (WInt64 announced) \<Rightarrow>
                  if CurrentHeight (ss_pins S1) \<noteq> sint announced
                  then Some (Some (HeightMismatch (CurrentHeight (ss_pins S1)) (sint announced)), S1)
                  else
                    (case detail E rec 1 of
                       Some (WInt32 balanceLength) \<Rightarrow>
                         map_option (\<lambda>pin. (None, (set_pins (pins @ [pin]) S1)\<lparr>ss_ready := True\<rparr>))
                           (balances_loop E rec (nat (sint balanceLength)) 2 latestPin)
                     | _ \<Rightarrow> None)
              | _ \<Rightarrow> None)))"

text \<open>
  The channel of downloaded pins. A send blocks for ever when the buffer is full, since the only receiver runs on
  the same goroutine, and panics on a closed channel.
\<close>

definition openPinDownloading :: "SyncState \<Rightarrow> SyncState" where
  "openPinDownloading S = S\<lparr>ss_downloaded := [], ss_closed := False\<rparr>"

definition AddDownloadedPin :: "TxPin \<Rightarrow> SyncState \<Rightarrow> SyncState option" where
  "AddDownloadedPin pin S =
     (if ss_closed S \<or> 1000 \<le> length (ss_downloaded S) then None
      else Some (S\<lparr>ss_downloaded := ss_downloaded S @ [pin]\<rparr>))"

definition ClosePinDownloading :: "SyncState \<Rightarrow> SyncState option" where
  "ClosePinDownloading S = (if ss_closed S then None else Some (S\<lparr>ss_closed := True\<rparr>))"

text \<open>The offset is not advanced: every round reads the first pin.\<close>

fun downloaded_loop :: "sync_env \<Rightarrow> Syncv1 \<Rightarrow> nat \<Rightarrow> SyncState \<Rightarrow> sync_result" where
  "downloaded_loop E rec 0 S = Some (None, S)"
| "downloaded_loop E rec (Suc n) S =
     (case detail E rec 1 of
        Some (WBytes b) \<Rightarrow>
          (case se_pinParse E b of
             None \<Rightarrow> Some (Some BadPinBytes, S)
           | Some pin \<Rightarrow>
               (case AddDownloadedPin pin S of None \<Rightarrow> None | Some S' \<Rightarrow> downloaded_loop E rec n S'))
      | _ \<Rightarrow> None)"

definition handleDownloadedPinsFromLeader :: "sync_env \<Rightarrow> Syncv1 \<Rightarrow> SyncState \<Rightarrow> sync_result" where
  "handleDownloadedPinsFromLeader E rec S =
     (case detail E rec 0 of
        Some (WInt32 amountOfPins) \<Rightarrow>
          (case downloaded_loop E rec (nat (sint amountOfPins)) S of
             None \<Rightarrow> None
           | Some (err, S1) \<Rightarrow> map_option (Pair err) (ClosePinDownloading S1))
      | _ \<Rightarrow> None)"

text \<open>
  \<^verbatim>\<open>processPin\<close> with a gap selects between the channel and the timer. Go's receive yields the element and \<open>True\<close>, or
  nil and \<open>False\<close> once the channel is closed and empty; the source calls the second component \<^verbatim>\<open>closed\<close>.
\<close>

datatype dl_event = Delivered TxPin | Drained | TimerFired

fun receive_pin :: "dl_event \<Rightarrow> (TxPin option \<times> bool) option" where
  "receive_pin (Delivered p) = Some (Some p, True)"
| "receive_pin Drained = Some (None, False)"
| "receive_pin TimerFired = None"

fun pinProcessing :: "sync_env \<Rightarrow> dl_event list \<Rightarrow> int \<Rightarrow> SyncState \<Rightarrow> SyncState option" where
  "pinProcessing E [] currentHeight S = None"
| "pinProcessing E (ev # evs) currentHeight S =
     (case receive_pin ev of
        None \<Rightarrow> Some S
      | Some (downloadedPin, closed) \<Rightarrow>
          if closed then Some S
          else
            (case downloadedPin of
               None \<Rightarrow> None
             | Some p \<Rightarrow>
                 if sint (pin_PinNumber p) = currentHeight + 1
                 then (case SyncPins (se_pin E) p (w_node (ss_world S)) of
                         None \<Rightarrow> None
                       | Some ns \<Rightarrow>
                           pinProcessing E evs (currentHeight + 1)
                             (set_pins (ns_pins ns @ [p]) (S\<lparr>ss_world := (ss_world S)\<lparr>w_node := ns\<rparr>\<rparr>)))
                 else Some S))"

definition copy_confirmed :: "sync_env \<Rightarrow> SyncState \<Rightarrow> SyncState" where
  "copy_confirmed E S =
     (let W = ss_world S; ns = w_node W in
      S\<lparr>ss_world := W\<lparr>w_node :=
          ns\<lparr>ns_walletCache := WalletCache_copyFrom (pe_ord (se_pin E)) (ns_walletCacheConfirmed ns)\<rparr>\<rparr>\<rparr>)"

definition processPin :: "sync_env \<Rightarrow> dl_event list \<Rightarrow> TxPin \<Rightarrow> SyncState \<Rightarrow> SyncState option" where
  "processPin E evs pin S =
     (let currentHeight = CurrentHeight (ss_pins S) in
      if currentHeight + 1 = sint (pin_PinNumber pin)
      then (case SyncPins (se_pin E) pin (w_node (ss_world S)) of
              None \<Rightarrow> None
            | Some ns \<Rightarrow>
                (let S1 = copy_confirmed E (S\<lparr>ss_world := (ss_world S)\<lparr>w_node := ns\<rparr>\<rparr>) in
                 Some (set_pins (ss_pins S1 @ [pin]) S1)))
      else
        (case sendPindDownloadRequest E (currentHeight + 1) (openPinDownloading S) of
           None \<Rightarrow> None
         | Some (Some _, S1) \<Rightarrow> Some S1
         | Some (None, S1) \<Rightarrow> map_option (copy_confirmed E) (pinProcessing E evs currentHeight S1)))"

section \<open>The publisher and the subscriber\<close>

definition whenToPublish :: "8 word \<Rightarrow> bool" where
  "whenToPublish mt \<longleftrightarrow>
     mt = STX_ANNOUNCE \<or> mt = STX_REQUEST \<or> mt = STX_RESPONSE \<or> mt = STX_PIN_REQUEST \<or>
     mt = STX_PIN_RESPONSE \<or> mt = STX_SITE_REQUEST \<or> mt = STX_SITE_RESPONSE \<or>
     mt = STX_SNAPSHOT_BALANCE_REQUEST \<or> mt = STX_SNAPSHOT_BALANCE_RESPONSE \<or>
     mt = STX_PIN_DOWNLOAD_REQUEST \<or> mt = STX_PIN_DOWNLOAD_RESPONSE"

text \<open>
  One round of \<^verbatim>\<open>syncPublish\<close> for the first message of the queue: \<open>peers\<close> tells whether the topic has any,
  \<open>published\<close> whether \<^verbatim>\<open>Publish\<close> succeeded before the deadline, \<open>stopping\<close> whether the stop flag was set meanwhile.
  \<open>ss_sent\<close> collects what went over the wire: the envelope carries the protobuf record; sealing it is libp2p's part.
\<close>

definition sync_publish_one :: "sync_env \<Rightarrow> bool \<Rightarrow> bool \<Rightarrow> bool \<Rightarrow> SyncState \<Rightarrow> SyncState option" where
  "sync_publish_one E peers published stopping S =
     (case ss_queue S of
        [] \<Rightarrow> Some S
      | stx # rest \<Rightarrow>
          (let S1 = S\<lparr>ss_queue := rest\<rparr>; x = Tracking_Id stx;
               S2 = (if published then S1\<lparr>ss_sent := ss_sent S1 @ [Syncv1_ToProtobuf (se_ext E) stx]\<rparr> else S1) in
           if Msg_Type stx = STX_STOP then Some S1
           else if \<not> whenToPublish (Msg_Type stx) then Some S1
           else if \<not> se_Leader E \<and> \<not> peers then change_machine x SYNC_CANCEL_STATE S1
           else if stopping then Some (S2\<lparr>ss_StopFlag := True\<rparr>)
           else if \<not> published then change_machine x SYNC_CANCEL_STATE S2
           else Option.bind (change_machine x SYNC_DISPATCH_BEGIN (reset_machine x S2))
                  (change_machine x SYNC_DISPATCH_END)))"

definition is_message :: "Syncv1 \<Rightarrow> 8 word \<Rightarrow> 8 word \<Rightarrow> bool" where
  "is_message stx syncType msgType \<longleftrightarrow>
     Ver_type stx = STVX1 \<and> Sync_Type stx = syncType \<and> Msg_Type stx = msgType"

definition isSyncPinRequest :: "Syncv1 \<Rightarrow> bool \<Rightarrow> bool" where
  "isSyncPinRequest stx leader \<longleftrightarrow> is_message stx CURRENT STX_ANNOUNCE \<and> leader"

definition isSyncSiteRequest :: "Syncv1 \<Rightarrow> bool \<Rightarrow> bool" where
  "isSyncSiteRequest stx leader \<longleftrightarrow> is_message stx SITE STX_REQUEST \<and> leader"

definition isSyncBalanceSnapshotRequest :: "Syncv1 \<Rightarrow> bool \<Rightarrow> bool" where
  "isSyncBalanceSnapshotRequest stx leader \<longleftrightarrow> is_message stx CURRENT STX_SNAPSHOT_BALANCE_REQUEST \<and> leader"

definition isSyncBalanceSnapshotResponse :: "sync_env \<Rightarrow> SyncSM \<Rightarrow> Syncv1 \<Rightarrow> bool" where
  "isSyncBalanceSnapshotResponse E sms stx \<longleftrightarrow>
     is_message stx CURRENT STX_SNAPSHOT_BALANCE_RESPONSE \<and>
     currentSM (Tracking_Id stx) sms \<noteq> SYNC_ZERO_STATE \<and> se_SnapshotSync E"

definition isPinDownloadRequest :: "Syncv1 \<Rightarrow> bool \<Rightarrow> bool" where
  "isPinDownloadRequest stx leader \<longleftrightarrow> is_message stx CURRENT STX_PIN_DOWNLOAD_REQUEST \<and> leader"

definition isPinDownloadResponse :: "sync_env \<Rightarrow> SyncSM \<Rightarrow> Syncv1 \<Rightarrow> bool" where
  "isPinDownloadResponse E sms stx \<longleftrightarrow>
     is_message stx CURRENT STX_PIN_DOWNLOAD_RESPONSE \<and> existsSM (Tracking_Id stx) sms \<and> se_SnapshotSync E"

definition isSyncSiteResponse :: "Syncv1 \<Rightarrow> bool" where
  "isSyncSiteResponse stx \<longleftrightarrow> is_message stx SITE STX_RESPONSE"

definition isSyncUpSiteRequest :: "Syncv1 \<Rightarrow> bool \<Rightarrow> bool" where
  "isSyncUpSiteRequest stx leader \<longleftrightarrow> is_message stx GENESIS STX_SITE_REQUEST \<and> leader"

definition isSyncUpSiteResponse :: "Syncv1 \<Rightarrow> bool" where
  "isSyncUpSiteResponse stx \<longleftrightarrow> is_message stx GENESIS STX_SITE_RESPONSE"

definition isSyncPinResponse :: "sync_env \<Rightarrow> Syncv1 \<Rightarrow> bool" where
  "isSyncPinResponse E stx \<longleftrightarrow> is_message stx LATEST STX_RESPONSE \<and> \<not> se_SnapshotSync E"

definition isNewPinAnnounce :: "Syncv1 \<Rightarrow> bool" where
  "isNewPinAnnounce stx \<longleftrightarrow> is_message stx LATEST STX_ANNOUNCE"

definition isMissingPinRequest :: "sync_env \<Rightarrow> Syncv1 \<Rightarrow> bool" where
  "isMissingPinRequest E stx \<longleftrightarrow> is_message stx MISSING STX_PIN_REQUEST \<and> \<not> se_SnapshotSync E"

definition isMissingPinResponse :: "sync_env \<Rightarrow> Syncv1 \<Rightarrow> bool" where
  "isMissingPinResponse E stx \<longleftrightarrow> is_message stx MISSING STX_PIN_RESPONSE \<and> \<not> se_SnapshotSync E"

text \<open>The cases of the subscriber's \<^verbatim>\<open>switch\<close> that take more than a handler and the deletion of its machine.\<close>

definition on_SyncSiteResponse :: "sync_env \<Rightarrow> Syncv1 \<Rightarrow> SyncState \<Rightarrow> SyncState option" where
  "on_SyncSiteResponse E syncTx S =
     (let x = Tracking_Id syncTx in
      if existsSM x (ss_machines S) \<and> currentSM x (ss_machines S) = SYNC_DISPATCH_END
      then Option.bind (change_machine x SYNC_QUERY_BEGIN (reset_machine x S)) (\<lambda>S1.
             Option.bind (handleSyncSiteResponse E syncTx S1) (\<lambda>S2.
               if currentSM x (ss_machines S2) = SYNC_HANDLE_END
               then map_option (delete_machine x) (change_machine x SYNC_QUERY_END S2)
               else Some S2))
      else Some S)"

definition on_SyncPinRequest :: "sync_env \<Rightarrow> Syncv1 \<Rightarrow> SyncState \<Rightarrow> SyncState option" where
  "on_SyncPinRequest E syncTx S =
     (let x = Tracking_Id syncTx in
      Option.bind (change_machine x SYNC_QUERY_BEGIN (reset_machine x S)) (\<lambda>S1.
        Option.bind (handleSyncPinRequest E syncTx S1) (\<lambda>S2.
          if currentSM x (ss_machines S2) = SYNC_HANDLE_END
          then map_option (delete_machine x) (change_machine x SYNC_QUERY_END S2)
          else Some S2)))"

definition on_NewPinAnnounce :: "sync_env \<Rightarrow> dl_event list \<Rightarrow> Syncv1 \<Rightarrow> SyncState \<Rightarrow> SyncState option" where
  "on_NewPinAnnounce E evs syncTx S =
     (case se_pinParse E (s_Data syncTx) of
        None \<Rightarrow> Some S
      | Some pin \<Rightarrow>
          if ss_ready S \<and> (pe_NodeType (se_pin E) = 0 \<or> pe_NodeType (se_pin E) = 1)
          then processPin E evs pin S else Some S)"

text \<open>The bounded wait for \<^verbatim>\<open>SYNC_DISPATCH_END\<close> before the response is handled has no other effect.\<close>

definition on_SyncPinResponse :: "sync_env \<Rightarrow> Syncv1 \<Rightarrow> SyncState \<Rightarrow> SyncState option" where
  "on_SyncPinResponse E syncTx S =
     (if existsSM (Tracking_Id syncTx) (ss_machines S)
      then map_option (\<lambda>(_, S'). delete_machine (Tracking_Id syncTx) S')
             (handleSyncPinResponse E syncTx (S\<lparr>ss_HaveJoined := True\<rparr>))
      else Some S)"

text \<open>A response is handled between two changes of its machine.\<close>

definition on_tracked :: "(Syncv1 \<Rightarrow> SyncState \<Rightarrow> sync_result) \<Rightarrow> Syncv1 \<Rightarrow> SyncState \<Rightarrow> SyncState option" where
  "on_tracked handler syncTx S =
     (let x = Tracking_Id syncTx in
      Option.bind (change_machine x SYNC_HANDLE_BEGIN S) (\<lambda>S1.
        Option.bind (handler syncTx S1) (\<lambda>(_, S2). change_machine x SYNC_HANDLE_END S2)))"

definition sync_receive ::
  "sync_env \<Rightarrow> (SyncState \<Rightarrow> SyncState) list \<Rightarrow> dl_event list \<Rightarrow> Syncv1 \<Rightarrow> SyncState \<Rightarrow> SyncState option" where
  "sync_receive E rounds evs syncTx S =
     (let x = Tracking_Id syncTx; leader = se_Leader E in
      if isSyncUpSiteRequest syncTx leader
      then map_option (delete_machine x) (handleSyncUpRequest E syncTx S)
      else if isSyncUpSiteResponse syncTx
      then map_option (\<lambda>S'. delete_machine x (S'\<lparr>ss_SitesProcessed := True\<rparr>)) (handleSyncUpResponse E syncTx S)
      else if isMissingPinRequest E syncTx \<and> leader
      then map_option (delete_machine x) (handleMissPinRequest E syncTx S)
      else if isMissingPinResponse E syncTx
      then map_option (\<lambda>(_, S'). delete_machine x S') (processMissPinResponse E syncTx S)
      else if isSyncSiteRequest syncTx leader
      then map_option (delete_machine x)
             (Option.bind (change_machine x SYNC_QUERY_BEGIN (reset_machine x S)) (handleSyncSiteRequest E syncTx))
      else if isSyncSiteResponse syncTx then on_SyncSiteResponse E syncTx S
      else if isSyncPinRequest syncTx leader then on_SyncPinRequest E syncTx S
      else if isNewPinAnnounce syncTx then on_NewPinAnnounce E evs syncTx S
      else if isSyncPinResponse E syncTx then on_SyncPinResponse E syncTx S
      else if isSyncBalanceSnapshotRequest syncTx leader
      then map_option (\<lambda>(_, S'). delete_machine x S') (respondLatestBalances E rounds syncTx (reset_machine x S))
      else if isSyncBalanceSnapshotResponse E (ss_machines S) syncTx
      then on_tracked (handleLatestBalances E) syncTx S
      else if isPinDownloadRequest syncTx leader
      then map_option (\<lambda>(_, S'). delete_machine x S') (respondAllPinsFrom E rounds syncTx (reset_machine x S))
      else if isPinDownloadResponse E (ss_machines S) syncTx
      then on_tracked (handleDownloadedPinsFromLeader E) syncTx S
      else Some S)"

end
