(* ===== verification/Sync_Properties.thy ===== *)
theory Sync_Properties
  imports Sync_Protocol Dag_Properties
begin

text \<open>
  Lemmas and properties of the synchronisation protocol: what a leader's answers give a node that asked, when a gap in
  the pins is repaired and when it never is. A message goes from one node to another as the protobuf record that the
  publisher appends to \<open>ss_sent\<close> and that the subscriber reads with \<open>Syncv1FromProtobuf\<close>.
\<close>

section \<open>Machines\<close>

definition sm_at :: "State \<Rightarrow> StateMachine" where
  "sm_at st = NewSyncStateMachine\<lparr>sm_currentState := st\<rparr>"

lemma sm_at_simps [simp]:
  "sm_currentState (sm_at st) = st" "sm_stateChanges (sm_at st) = sync_changes"
  "(sm_at st)\<lparr>sm_currentState := st'\<rparr> = sm_at st'"
  by (simp_all add: sm_at_def NewSyncStateMachine_def NewStateMachine_def)

lemma resetSM_sm_at: "resetSM x s = s(x \<mapsto> sm_at SYNC_ZERO_STATE)"
  by (simp add: resetSM_def sm_at_def NewSyncStateMachine_def NewStateMachine_def)

lemma changeToSM_sm_at:
  "s x = Some (sm_at st) \<Longrightarrow> (st, st') \<in> sync_edges \<Longrightarrow> changeToSM x st' s = Some (s(x \<mapsto> sm_at st'))"
  by (subst changeToSM_edge) auto

lemma changeToSM_refused:
  "s x = Some (sm_at st) \<Longrightarrow> (st, st') \<notin> sync_edges \<Longrightarrow> State_String st \<noteq> None \<Longrightarrow> State_String st' \<noteq> None \<Longrightarrow>
   changeToSM x st' s = Some s"
  by (auto simp: changeToSM_def SyncChangeTo_def canChangeTo_def sync_changes_exact)

lemma changeToSM_absent: "s x = None \<Longrightarrow> changeToSM x st s = Some s"
  by (simp add: changeToSM_def)

lemma sync_edges_dispatch [simp]:
  "(SYNC_ZERO_STATE, SYNC_DISPATCH_BEGIN) \<in> sync_edges" "(SYNC_DISPATCH_BEGIN, SYNC_DISPATCH_END) \<in> sync_edges"
  "(SYNC_ZERO_STATE, SYNC_QUERY_BEGIN) \<in> sync_edges"
  "(SYNC_DISPATCH_END, SYNC_HANDLE_BEGIN) \<notin> sync_edges" "(SYNC_DISPATCH_END, SYNC_HANDLE_END) \<notin> sync_edges"
  by (auto simp: sync_edges_def sync_states)

lemma State_String_named [simp]:
  "State_String SYNC_DISPATCH_END = Some ''SYNC_DISPATCH_END''" "State_String SYNC_HANDLE_BEGIN = Some ''SYNC_HANDLE_BEGIN''" "State_String SYNC_HANDLE_END = Some ''SYNC_HANDLE_END''"
  by (simp_all add: State_String_def state_names_def sync_states)

lemma change_machine_same: "changeToSM x st (ss_machines S) = Some (ss_machines S) \<Longrightarrow> change_machine x st S = Some S"
  by (cases S) (simp add: change_machine_def)

lemma dispatch_reset:
  "dispatch stx (reset_machine (Tracking_Id stx) S) =
     Some (enqueue stx (S\<lparr>ss_machines := (ss_machines S)(Tracking_Id stx \<mapsto> sm_at SYNC_DISPATCH_BEGIN)\<rparr>))"
  by (simp add: dispatch_def change_machine_def reset_machine_def resetSM_sm_at changeToSM_sm_at)

text \<open>A successful round of the publisher.\<close>

definition publisher :: "sync_env \<Rightarrow> SyncState \<Rightarrow> SyncState" where
  "publisher E S = (case sync_publish_one E True True False S of Some S' \<Rightarrow> S' | None \<Rightarrow> S)"

lemma publisher_eq:
  assumes "ss_queue S = stx # rest" "whenToPublish (Msg_Type stx)"
  shows "publisher E S = S\<lparr>ss_queue := rest, ss_sent := ss_sent S @ [Syncv1_ToProtobuf (se_ext E) stx],
           ss_machines := (ss_machines S)(Tracking_Id stx \<mapsto> sm_at SYNC_DISPATCH_END)\<rparr>"
proof -
  have "Msg_Type stx \<noteq> STX_STOP" using assms(2) by (auto simp: whenToPublish_def)
  then show ?thesis using assms
    by (simp add: publisher_def sync_publish_one_def change_machine_def reset_machine_def resetSM_sm_at
        changeToSM_sm_at Let_def)
qed

lemma wire_fields:
  assumes "ext_ok X"
  shows "Syncv1FromProtobuf X (Syncv1_ToProtobuf X t) = t\<lparr>SyncHash := []\<rparr>"
  using assms by (simp add: Syncv1FromProtobuf_def Syncv1_ToProtobuf_def ext_okD)

section \<open>Gaps in the announced pins\<close>

lemma set_pins_simps [simp]:
  "ss_pins (set_pins ps S) = ps" "ss_machines (set_pins ps S) = ss_machines S" "ss_queue (set_pins ps S) = ss_queue S"
  "ss_sent (set_pins ps S) = ss_sent S" "ss_ready (set_pins ps S) = ss_ready S"
  "set_pins ps (set_pins qs S) = set_pins ps S"
  by (simp_all add: set_pins_def)

lemma machine_ops_world [simp]:
  "ss_world (reset_machine x S) = ss_world S" "ss_world (delete_machine x S) = ss_world S"
  "ss_world (enqueue stx S) = ss_world S"
  "ss_pins (copy_confirmed E S) = ss_pins S"
  by (simp_all add: reset_machine_def delete_machine_def enqueue_def copy_confirmed_def Let_def)

lemma change_machine_world: "change_machine x st S = Some S' \<Longrightarrow> ss_world S' = ss_world S"
  by (auto simp: change_machine_def)

lemma dispatch_world: "dispatch stx S = Some S' \<Longrightarrow> ss_world S' = ss_world S"
  by (auto simp: dispatch_def dest: change_machine_world)

lemma new_message_world: "new_message E a b S = (stx, S') \<Longrightarrow> ss_world S' = ss_world S"
  by (auto simp: new_message_def uuid_New_def)

lemma download_request_world:
  "sendPindDownloadRequest E h S = Some (r, S') \<Longrightarrow> ss_world S' = ss_world S"
  by (auto simp: sendPindDownloadRequest_def Let_def split: if_splits option.splits prod.splits
      dest!: dispatch_world dest: new_message_world)

lemma pinProcessing_idle: "pinProcessing E evs h S = Some S' \<Longrightarrow> S' = S"
  by (cases evs; cases "hd evs") auto

lemma processPin_gap:
  assumes "processPin E evs pin S = Some S'" "sint (pin_PinNumber pin) \<noteq> CurrentHeight (ss_pins S) + 1"
  shows "ss_pins S' = ss_pins S"
proof (cases "sendPindDownloadRequest E (CurrentHeight (ss_pins S) + 1) (openPinDownloading S)")
  case None
  then show ?thesis using assms by (simp add: processPin_def)
next
  case (Some q)
  obtain r S1 where q: "q = (r, S1)" by (cases q)
  have w: "ss_world S1 = ss_world S"
    using download_request_world [OF Some [unfolded q]] by (simp add: openPinDownloading_def)
  show ?thesis
  proof (cases r)
    case None
    then have "map_option (copy_confirmed E) (pinProcessing E evs (CurrentHeight (ss_pins S)) S1) = Some S'"
      using assms Some q by (simp add: processPin_def)
    then have "S' = copy_confirmed E S1" using pinProcessing_idle by fastforce
    then show ?thesis using w by simp
  next
    case (Some e)
    then show ?thesis using assms \<open>sendPindDownloadRequest _ _ _ = _\<close> q w by (simp add: processPin_def)
  qed
qed

lemma downloaded_loop_world: "downloaded_loop E rec n S = Some (r, S') \<Longrightarrow> ss_world S' = ss_world S"
  by (induction n arbitrary: S)
    (auto simp: AddDownloadedPin_def split: option.splits wrapper.splits if_splits)

lemma handleDownloaded_world:
  "handleDownloadedPinsFromLeader E rec S = Some (r, S') \<Longrightarrow> ss_world S' = ss_world S"
  by (auto simp: handleDownloadedPinsFromLeader_def ClosePinDownloading_def
      split: option.splits wrapper.splits if_splits dest!: downloaded_loop_world)

text \<open>The subscriber on a sequence of messages, each with what happens while it is handled.\<close>

fun receive_all ::
  "sync_env \<Rightarrow> (((SyncState \<Rightarrow> SyncState) list \<times> dl_event list) \<times> Syncv1) list \<Rightarrow> SyncState \<Rightarrow> SyncState option" where
  "receive_all E [] S = Some S"
| "receive_all E (((rounds, evs), m) # ms) S = Option.bind (sync_receive E rounds evs m S) (receive_all E ms)"

definition announces_beyond :: "sync_env \<Rightarrow> int \<Rightarrow> Syncv1 \<Rightarrow> bool" where
  "announces_beyond E h m \<longleftrightarrow>
     is_message m LATEST STX_ANNOUNCE \<and> (\<forall>p. se_pinParse E (s_Data m) = Some p \<longrightarrow> h < sint (pin_PinNumber p))"

lemma receive_announce:
  "is_message m LATEST STX_ANNOUNCE \<Longrightarrow> sync_receive E rounds evs m S = on_NewPinAnnounce E evs m S"
  by (simp add: sync_receive_def Let_def is_message_def isSyncUpSiteRequest_def isSyncUpSiteResponse_def
      isMissingPinRequest_def isMissingPinResponse_def isSyncSiteRequest_def isSyncSiteResponse_def
      isSyncPinRequest_def isNewPinAnnounce_def)

lemma receive_download:
  "is_message m CURRENT STX_PIN_DOWNLOAD_RESPONSE \<Longrightarrow> sync_receive E rounds evs m S =
     (if isPinDownloadResponse E (ss_machines S) m then on_tracked (handleDownloadedPinsFromLeader E) m S else Some S)"
  by (simp add: sync_receive_def Let_def is_message_def isSyncUpSiteRequest_def isSyncUpSiteResponse_def
      isMissingPinRequest_def isMissingPinResponse_def isSyncSiteRequest_def isSyncSiteResponse_def
      isSyncPinRequest_def isNewPinAnnounce_def isSyncPinResponse_def isSyncBalanceSnapshotRequest_def
      isSyncBalanceSnapshotResponse_def isPinDownloadRequest_def)

lemma on_tracked_world:
  assumes "on_tracked f m S = Some S'" "\<And>S1 r S2. f m S1 = Some (r, S2) \<Longrightarrow> ss_world S2 = ss_world S1"
  shows "ss_world S' = ss_world S"
  using assms by (auto simp: on_tracked_def Let_def bind_eq_Some_conv dest!: change_machine_world)

lemma gap_step:
  assumes "sync_receive E rounds evs m S = Some S'"
    and "announces_beyond E (CurrentHeight (ss_pins S) + 1) m \<or> is_message m CURRENT STX_PIN_DOWNLOAD_RESPONSE"
  shows "ss_pins S' = ss_pins S"
  using assms(2)
proof
  assume m: "announces_beyond E (CurrentHeight (ss_pins S) + 1) m"
  then have "on_NewPinAnnounce E evs m S = Some S'"
    using assms(1) receive_announce by (simp add: announces_beyond_def)
  then show ?thesis using m
    by (auto simp: on_NewPinAnnounce_def announces_beyond_def split: option.splits if_splits
        dest!: processPin_gap)
next
  assume "is_message m CURRENT STX_PIN_DOWNLOAD_RESPONSE"
  then show ?thesis
    using assms(1) on_tracked_world [of "handleDownloadedPinsFromLeader E" m S S'] handleDownloaded_world
    by (auto simp: receive_download split: if_splits)
qed

text \<open>
  C12. A node that missed one announced pin never catches up. Once every further announcement carries a number above
  the next one, no sequence of announcements and download responses changes the node's pins, whatever the channel of
  downloaded pins delivers while they are handled: the loop takes a delivered pin for the end of the channel.
\<close>
theorem gap_is_permanent:
  assumes "receive_all E ms S = Some S'"
    and "\<And>w m. (w, m) \<in> set ms \<Longrightarrow>
      announces_beyond E (CurrentHeight (ss_pins S) + 1) m \<or> is_message m CURRENT STX_PIN_DOWNLOAD_RESPONSE"
  shows "ss_pins S' = ss_pins S"
  using assms
proof (induction E ms S rule: receive_all.induct)
  case (2 E rounds evs m ms S)
  then obtain S1 where S1: "sync_receive E rounds evs m S = Some S1" "receive_all E ms S1 = Some S'"
    by (auto simp: bind_eq_Some_conv)
  have eq: "ss_pins S1 = ss_pins S" by (rule gap_step [OF S1(1)]) (use "2.prems"(2) in auto)
  have "ss_pins S' = ss_pins S1"
    by (rule "2.IH" [OF S1]) (use "2.prems"(2) eq in auto)
  with eq show ?case by simp
qed simp

section \<open>The snapshot of balances\<close>

lemma sync_okD:
  assumes "sync_ok E"
  shows "ext_ok (se_ext E)" "range_order (pe_ord (se_pin E))"
    "se_unany E (se_any E (WInt64 n)) = Some (WInt64 n)" "se_unany E (se_any E (WInt32 m)) = Some (WInt32 m)"
    "se_unany E (se_any E (WBytes b)) = Some (WBytes b)"
    "se_any E w \<noteq> nil_any \<Longrightarrow> se_unany E (se_any E w) = Some w"
    "se_pinBytes E p = Some c \<Longrightarrow> se_pinParse E c = Some p"
  using assms by (simp_all add: sync_ok_def)

lemma balances_loop_eq:
  assumes "drop i (Details rec) = concat (map (\<lambda>w. [se_any E (WString w), se_any E (WBytes (f w))]) ws)"
    and "sync_ok E" "se_unany R = se_unany E" "\<And>w. w \<in> set ws \<Longrightarrow> se_any E (WString w) \<noteq> nil_any"
    and "pin_Balance pin \<noteq> Map.empty"
  shows "balances_loop R rec (length ws) i pin =
    Some (pin\<lparr>pin_Balance := fold (\<lambda>w m. m(w \<mapsto> f w)) ws (pin_Balance pin)\<rparr>)"
  using assms(1,4,5)
proof (induction ws arbitrary: i pin)
  case (Cons w ws)
  have "length (drop i (Details rec)) \<ge> 2" using Cons.prems(1) by simp
  then have len: "Suc i < length (Details rec)" by simp
  have d: "Details rec ! i = se_any E (WString w)" "Details rec ! Suc i = se_any E (WBytes (f w))"
    "drop (i + 2) (Details rec) = concat (map (\<lambda>w. [se_any E (WString w), se_any E (WBytes (f w))]) ws)"
    using Cons.prems(1) len Cons_nth_drop_Suc [of i "Details rec"] Cons_nth_drop_Suc [of "Suc i" "Details rec"] by simp_all
  have "balances_loop R rec (length (w # ws)) i pin =
      balances_loop R rec (length ws) (i + 2) (pin\<lparr>pin_Balance := (pin_Balance pin)(w \<mapsto> f w)\<rparr>)"
    using len d Cons.prems(2,3) assms(3) sync_okD(5,6) [OF assms(2)] by (simp add: detail_def)
  also have "\<dots> = Some (pin\<lparr>pin_Balance := fold (\<lambda>w m. m(w \<mapsto> f w)) (w # ws) (pin_Balance pin)\<rparr>)"
    by (subst Cons.IH [OF d(3)]) (use Cons.prems(2) in auto)
  finally show ?case .
qed simp

text \<open>The balances of all pins, read at the height of the last pin.\<close>

definition all_pinned :: "TxPin list \<Rightarrow> string \<rightharpoonup> bytes" where
  "all_pinned pins w = latestBalance_loop w (List.rev pins)"

lemma pinned_at_last:
  assumes "range_order ord" "\<forall>p \<in> set pins. finite (dom (pin_Balance p))"
    and "sorted (map (\<lambda>p. sint (pin_PinNumber p)) pins)" "GetLastPin pins = Some p"
  shows "GetPinnedBalances ord pins (sint (pin_PinNumber p)) = all_pinned pins"
proof
  fix w
  have p: "pins \<noteq> []" "p = last pins" using assms(4) by (auto simp: GetLastPin_def last_conv_nth split: if_splits)
  have "sint (pin_PinNumber q) \<le> sint (pin_PinNumber p)" if "q \<in> set pins" for q
  proof -
    have "pins = butlast pins @ [p]" using p by simp
    then have "sorted (map (\<lambda>p. sint (pin_PinNumber p)) (butlast pins @ [p]))" "q \<in> set (butlast pins @ [p])"
      using assms(3) that by metis+
    then show ?thesis by (auto simp: sorted_append)
  qed
  then have "filter (\<lambda>q. sint (pin_PinNumber q) \<le> sint (pin_PinNumber p)) pins = pins" by simp
  then show "GetPinnedBalances ord pins (sint (pin_PinNumber p)) w = all_pinned pins w"
    using pinned_balances_at [OF assms(1-3)] by (simp add: all_pinned_def)
qed

lemma finite_all_pinned: "\<forall>p \<in> set pins. finite (dom (pin_Balance p)) \<Longrightarrow> finite (dom (all_pinned pins))"
proof (induction pins rule: rev_induct)
  case (snoc p pins)
  have "dom (all_pinned (pins @ [p])) \<subseteq> dom (pin_Balance p) \<union> dom (all_pinned pins)"
    by (auto simp: all_pinned_def split: option.splits)
  with snoc show ?case by (auto intro: finite_subset)
qed (simp add: all_pinned_def dom_def)

lemma all_pinned_last: "GetLastPin pins = Some p \<Longrightarrow> pin_Balance p w = Some v \<Longrightarrow> all_pinned pins w = Some v"
  by (cases pins rule: rev_cases) (auto simp: GetLastPin_def all_pinned_def)

text \<open>A host key that can be used for requests.\<close>

definition can_send :: "sync_env \<Rightarrow> bool" where
  "can_send E \<longleftrightarrow> ext_ok (se_ext E) \<and> se_keyPair E \<and> se_pubkey E \<noteq> None"

abbreviation over_wire :: "sync_env \<Rightarrow> pb_Syncv1 \<Rightarrow> Syncv1" where
  "over_wire E \<equiv> Syncv1FromProtobuf (se_ext E)"

lemma signed_simps [simp]:
  "Tracking_Id (signed E t) = Tracking_Id t" "Ver_type (signed E t) = Ver_type t" "Sync_Type (signed E t) = Sync_Type t"
  "Msg_Type (signed E t) = Msg_Type t" "s_Data (signed E t) = s_Data t" "Details (signed E t) = Details t"
  "s_Sender_Pubk (signed E t) = s_Sender_Pubk t"
  by (simp_all add: signed_def Syncv1_GenerateSignature_def split: option.split)

lemma NewSyncv1_simps [simp]:
  "Tracking_Id (NewSyncv1 x t) = x" "Details (NewSyncv1 x t) = []" "s_Data (NewSyncv1 x t) = []"
  by (simp_all add: NewSyncv1_def)

lemma with_hash_simps [simp]:
  "Tracking_Id (with_hash E t) = Tracking_Id t" "Ver_type (with_hash E t) = Ver_type t"
  "Sync_Type (with_hash E t) = Sync_Type t" "Msg_Type (with_hash E t) = Msg_Type t" "s_Data (with_hash E t) = s_Data t"
  "Details (with_hash E t) = Details t" "s_Sender_Pubk (with_hash E t) = s_Sender_Pubk t"
  by (simp_all add: with_hash_def)

lemma new_message_eq:
  "new_message E a b S =
     ((NewSyncv1 (se_uuid E (ss_drawn S)) (se_clock E (ss_drawn S)))\<lparr>Ver_type := STVX1, Sync_Type := a, Msg_Type := b\<rparr>,
      S\<lparr>ss_drawn := Suc (ss_drawn S)\<rparr>)"
  by (simp add: new_message_def uuid_New_def)

lemma is_message_wire [simp]: "is_message (t\<lparr>SyncHash := h\<rparr>) a b = is_message t a b"
  by (simp add: is_message_def)

lemma waitFor_sm_at: "s x = Some (sm_at st) \<Longrightarrow> waitForSMInLoop x st' [s] = (if st = st' then (st, False) else (SYNC_ZERO_STATE, True))"
  by (simp add: waitForSM_def WaitForState_def)

lemma snapshot_request:
  assumes "can_send P" "ss_queue S = []"
  defines "x \<equiv> se_uuid P (ss_drawn S)"
  shows "\<exists>req S1. sendSnapshotRequest P (publisher P) S = Some ((None, Some x), S1) \<and>
    ss_sent S1 = ss_sent S @ [req] \<and> ss_world S1 = ss_world S \<and> ss_ready S1 = ss_ready S \<and>
    ss_machines S1 x = Some (sm_at SYNC_DISPATCH_END) \<and>
    is_message (over_wire P req) CURRENT STX_SNAPSHOT_BALANCE_REQUEST \<and> Tracking_Id (over_wire P req) = x"
proof -
  obtain pub where pub: "se_pubkey P = Some pub" using assms(1) by (auto simp: can_send_def)
  let ?stx = "signed P (with_hash P ((NewSyncv1 x (se_clock P (ss_drawn S)))
    \<lparr>Ver_type := STVX1, Sync_Type := CURRENT, Msg_Type := STX_SNAPSHOT_BALANCE_REQUEST, s_Sender_Pubk := pub, s_Data := []\<rparr>))"
  let ?S0 = "S\<lparr>ss_drawn := Suc (ss_drawn S)\<rparr>"
  let ?S3 = "enqueue ?stx (?S0\<lparr>ss_machines := (ss_machines ?S0)(x \<mapsto> sm_at SYNC_DISPATCH_BEGIN)\<rparr>)"
  have d: "dispatch ?stx (reset_machine x ?S0) = Some ?S3"
    using dispatch_reset [of ?stx ?S0] by simp
  have "ss_queue ?S3 = [?stx]" using assms(2) by (simp add: enqueue_def)
  then have p: "publisher P ?S3 = ?S3\<lparr>ss_queue := [], ss_sent := ss_sent ?S3 @ [Syncv1_ToProtobuf (se_ext P) ?stx],
      ss_machines := (ss_machines ?S3)(x \<mapsto> sm_at SYNC_DISPATCH_END)\<rparr>"
    by (subst publisher_eq) (auto simp: whenToPublish_def)
  have "sendSnapshotRequest P (publisher P) S = Some ((None, Some x), publisher P ?S3)"
    using assms(1) pub d p unfolding sendSnapshotRequest_def new_message_eq
    by (simp add: can_send_def x_def Let_def waitFor_sm_at del: waitForSMInLoop.simps)
  moreover have "over_wire P (Syncv1_ToProtobuf (se_ext P) ?stx) = ?stx\<lparr>SyncHash := []\<rparr>"
    using assms(1) wire_fields by (auto simp: can_send_def)
  ultimately show ?thesis
    by (intro exI [of _ "Syncv1_ToProtobuf (se_ext P) ?stx"] exI [of _ "publisher P ?S3"])
      (unfold p, simp add: enqueue_def is_message_def)
qed

text \<open>A leader that can answer: it has a pin with balances, its pins are in the order of their numbers.\<close>

definition snapshot_leader :: "sync_env \<Rightarrow> SyncState \<Rightarrow> TxPin \<Rightarrow> bool" where
  "snapshot_leader L S p \<longleftrightarrow>
     sync_ok L \<and> can_send L \<and> se_Leader L \<and> ss_queue S = [] \<and>
     GetLastPin (ss_pins S) = Some p \<and> se_pinBytes L p \<noteq> None \<and> pin_Balance p \<noteq> Map.empty \<and>
     (\<forall>q \<in> set (ss_pins S). finite (dom (pin_Balance q))) \<and>
     sorted (map (\<lambda>q. sint (pin_PinNumber q)) (ss_pins S)) \<and>
     card (dom (all_pinned (ss_pins S))) < 2 ^ 31 \<and>
     (\<forall>w \<in> dom (all_pinned (ss_pins S)). se_any L (WString w) \<noteq> nil_any)"

definition snapshot_message :: "sync_env \<Rightarrow> TxPin \<Rightarrow> (string \<rightharpoonup> bytes) \<Rightarrow> uuid \<Rightarrow> Syncv1 \<Rightarrow> bool" where
  "snapshot_message L p balances x m \<longleftrightarrow>
     is_message m CURRENT STX_SNAPSHOT_BALANCE_RESPONSE \<and> Tracking_Id m = x \<and>
     Some (s_Data m) = se_pinBytes L p \<and>
     Details m = se_any L (WInt64 (pin_PinNumber p)) # se_any L (WInt32 (of_nat (card (dom balances)))) #
       balance_details L balances"

lemma receive_snapshot_request:
  "is_message m CURRENT STX_SNAPSHOT_BALANCE_REQUEST \<Longrightarrow> se_Leader E \<Longrightarrow> sync_receive E rounds evs m S =
     map_option (\<lambda>(_, S'). delete_machine (Tracking_Id m) S')
       (respondLatestBalances E rounds m (reset_machine (Tracking_Id m) S))"
  by (simp add: sync_receive_def Let_def is_message_def isSyncUpSiteRequest_def isSyncUpSiteResponse_def
      isMissingPinRequest_def isMissingPinResponse_def isSyncSiteRequest_def isSyncSiteResponse_def
      isSyncPinRequest_def isNewPinAnnounce_def isSyncPinResponse_def isSyncBalanceSnapshotRequest_def)

lemma receive_snapshot_response:
  "is_message m CURRENT STX_SNAPSHOT_BALANCE_RESPONSE \<Longrightarrow> sync_receive E rounds evs m S =
     (if isSyncBalanceSnapshotResponse E (ss_machines S) m then on_tracked (handleLatestBalances E) m S else Some S)"
  by (simp add: sync_receive_def Let_def is_message_def isSyncUpSiteRequest_def isSyncUpSiteResponse_def
      isMissingPinRequest_def isMissingPinResponse_def isSyncSiteRequest_def isSyncSiteResponse_def
      isSyncPinRequest_def isNewPinAnnounce_def isSyncPinResponse_def isSyncBalanceSnapshotRequest_def
      isPinDownloadRequest_def isPinDownloadResponse_def)

lemma snapshot_answer:
  assumes "snapshot_leader L S p" "is_message req CURRENT STX_SNAPSHOT_BALANCE_REQUEST"
  shows "\<exists>S' resp. sync_receive L [publisher L] evs req S = Some S' \<and> ss_sent S' = ss_sent S @ [resp] \<and>
    snapshot_message L p (all_pinned (ss_pins S)) (Tracking_Id req) (over_wire L resp)"
proof -
  let ?x = "Tracking_Id req" and ?bal = "all_pinned (ss_pins S)"
  obtain pub b where pub: "se_pubkey L = Some pub" "se_keyPair L" and b: "se_pinBytes L p = Some b"
    and p: "GetLastPin (ss_pins S) = Some p" and q: "ss_queue S = []" and X: "ext_ok (se_ext L)"
    using assms(1) by (auto simp: can_send_def snapshot_leader_def)
  have bal: "GetPinnedBalances (pe_ord (se_pin L)) (ss_pins S) (sint (pin_PinNumber p)) = ?bal"
    using assms(1) by (intro pinned_at_last) (auto simp: snapshot_leader_def dest: sync_okD(2))
  define stx where "stx = signed L ((NewSyncv1 (se_uuid L (ss_drawn S)) (se_clock L (ss_drawn S)))
    \<lparr>Ver_type := STVX1, Sync_Type := CURRENT, Msg_Type := STX_SNAPSHOT_BALANCE_RESPONSE, Tracking_Id := ?x,
     Details := se_any L (WInt64 (pin_PinNumber p)) # se_any L (WInt32 (of_nat (card (dom ?bal)))) #
       balance_details L ?bal, s_Data := b, s_Sender_Pubk := pub, SyncHash := []\<rparr>)"
  define S2 where "S2 = enqueue stx ((reset_machine ?x S)\<lparr>ss_drawn := Suc (ss_drawn S)\<rparr>)"
  have stx: "Tracking_Id stx = ?x" "Msg_Type stx = STX_SNAPSHOT_BALANCE_RESPONSE" by (simp_all add: stx_def)
  have "ss_queue S2 = [stx]" using q by (simp add: S2_def enqueue_def reset_machine_def)
  then have pb: "publisher L S2 = S2\<lparr>ss_queue := [], ss_sent := ss_sent S2 @ [Syncv1_ToProtobuf (se_ext L) stx],
      ss_machines := (ss_machines S2)(?x \<mapsto> sm_at SYNC_DISPATCH_END)\<rparr>"
    by (subst publisher_eq) (auto simp: whenToPublish_def stx)
  have "ensure_published stx [publisher L] S2 = Some (publisher L S2)"
    by (simp add: stx pb Let_def waitFor_sm_at del: waitForSMInLoop.simps)
  moreover have "respondLatestBalances L [publisher L] req (reset_machine ?x S) =
      map_option (Pair None) (ensure_published stx [publisher L] S2)"
    using pub b p bal unfolding respondLatestBalances_def new_message_eq S2_def stx_def
    by (simp add: Let_def reset_machine_def del: ensure_published.simps)
  ultimately have "sync_receive L [publisher L] evs req S = Some (delete_machine ?x (publisher L S2))"
    using assms by (simp add: receive_snapshot_request snapshot_leader_def)
  moreover have "snapshot_message L p ?bal ?x (over_wire L (Syncv1_ToProtobuf (se_ext L) stx))"
    using b by (simp add: wire_fields [OF X] snapshot_message_def is_message_def stx_def)
  ultimately show ?thesis
    by (intro exI [of _ "delete_machine ?x (publisher L S2)"] exI [of _ "Syncv1_ToProtobuf (se_ext L) stx"])
      (unfold pb, simp add: delete_machine_def S2_def enqueue_def reset_machine_def)
qed

lemma sint_of_length: "n < 2 ^ 31 \<Longrightarrow> sint (of_nat n :: 32 word) = int n"
  by (simp add: signed_of_nat signed_take_bit_int_eq_self)

lemma fold_upd_map: "fold (\<lambda>w m. m(w \<mapsto> the (g w))) ws m0 w = (if w \<in> set ws then Some (the (g w)) else m0 w)"
  by (induction ws arbitrary: m0) auto

lemma snapshot_apply:
  assumes "snapshot_leader L SL p" "same_codec L P" "se_SnapshotSync P" "\<not> ss_ready S" "ss_pins S = []"
    and "snapshot_message L p (all_pinned (ss_pins SL)) x m" "ss_machines S x = Some (sm_at SYNC_DISPATCH_END)"
  shows "sync_receive P rounds evs m S =
    Some ((set_pins [p\<lparr>pin_Balance := all_pinned (ss_pins SL)\<rparr>] S)\<lparr>ss_ready := True\<rparr>)"
proof -
  let ?bal = "all_pinned (ss_pins SL)" and ?ord = "pe_ord (se_pin L)"
  have ok: "sync_ok L" and fin: "finite (dom ?bal)" and ord: "range_order ?ord" and lt: "card (dom ?bal) < 2 ^ 31"
    and p: "GetLastPin (ss_pins SL) = Some p"
    using assms(1) finite_all_pinned sync_okD(2) by (auto simp: snapshot_leader_def)
  have m: "is_message m CURRENT STX_SNAPSHOT_BALANCE_RESPONSE" "Tracking_Id m = x" "se_pinBytes L p = Some (s_Data m)"
    "Details m = se_any L (WInt64 (pin_PinNumber p)) # se_any L (WInt32 (of_nat (card (dom ?bal)))) # balance_details L ?bal"
    using assms(6) by (simp_all add: snapshot_message_def)
  have codec: "se_unany P = se_unany L" "se_pinParse P = se_pinParse L" using assms(2) by (simp_all add: same_codec_def)
  have parse: "se_pinParse P (s_Data m) = Some p" using sync_okD(7) [OF ok m(3)] codec by simp
  have d: "detail P m 0 = Some (WInt64 (pin_PinNumber p))"
    "detail P m 1 = Some (WInt32 (of_nat (card (dom ?bal))))"
    using sync_okD(3,4) [OF ok] codec by (simp_all add: detail_def m(4))
  have w: "set (?ord (dom ?bal)) = dom ?bal" "length (?ord (dom ?bal)) = card (dom ?bal)"
    using ord fin distinct_card [of "?ord (dom ?bal)"] by (simp_all add: range_order_def)
  have n: "nat (sint (of_nat (card (dom ?bal)) :: 32 word)) = length (?ord (dom ?bal))"
    using sint_of_length [OF lt] w(2) by simp
  have "balances_loop P m (length (?ord (dom ?bal))) 2 p =
      Some (p\<lparr>pin_Balance := fold (\<lambda>w m. m(w \<mapsto> the (?bal w))) (?ord (dom ?bal)) (pin_Balance p)\<rparr>)"
    by (rule balances_loop_eq [of _ _ L]) (use ok codec assms(1) w in \<open>auto simp: m(4) balance_details_def snapshot_leader_def\<close>)
  moreover have "fold (\<lambda>w m. m(w \<mapsto> the (?bal w))) (?ord (dom ?bal)) (pin_Balance p) = ?bal"
  proof
    fix w
    show "fold (\<lambda>w m. m(w \<mapsto> the (?bal w))) (?ord (dom ?bal)) (pin_Balance p) w = ?bal w"
      using all_pinned_last [OF p, of w] by (cases "?bal w"; cases "pin_Balance p w") (auto simp: fold_upd_map w(1))
  qed
  ultimately have loop: "balances_loop P m (nat (sint (of_nat (card (dom ?bal)) :: 32 word))) 2 p = Some (p\<lparr>pin_Balance := ?bal\<rparr>)"
    by (simp add: n)
  have h: "handleLatestBalances P m S' = Some (None, (set_pins [p\<lparr>pin_Balance := ?bal\<rparr>] S')\<lparr>ss_ready := True\<rparr>)"
    if "\<not> ss_ready S'" "ss_pins S' = []" for S'
    using that parse d loop by (simp add: handleLatestBalances_def CurrentHeight_def Let_def)
  have "isSyncBalanceSnapshotResponse P (ss_machines S) m"
    using m assms(3,7) by (simp add: isSyncBalanceSnapshotResponse_def currentSM_def Current_def sync_states)
  moreover have "change_machine x st S' = Some S'" if "st \<in> {SYNC_HANDLE_BEGIN, SYNC_HANDLE_END}"
    "ss_machines S' = ss_machines S" for st S'
    by (rule change_machine_same) (use that assms(7) changeToSM_refused [of "ss_machines S" x SYNC_DISPATCH_END st] in auto)
  ultimately show ?thesis
    using m(1,2) assms(4,5) by (simp add: receive_snapshot_response on_tracked_def h)
qed

text \<open>Concrete nodes: pins are encoded by their signatures, and of the sites only one can be encoded.\<close>

definition demo_pins :: "TxPin list" where
  "demo_pins =
     [(NewTxPin (0, 0) [])\<lparr>pin_Sign := replicate 5 1, pin_Balance := [''a'' \<mapsto> [5], ''b'' \<mapsto> [6]]\<rparr>,
      (NewTxPin (0, 0) (replicate 5 1))\<lparr>pin_Sign := replicate 5 2, pin_PinNumber := 1, pin_Balance := [''a'' \<mapsto> [7]]\<rparr>,
      (NewTxPin (0, 0) (replicate 5 2))\<lparr>pin_Sign := replicate 5 3, pin_PinNumber := 2, pin_Balance := [''a'' \<mapsto> [8]]\<rparr>]"

definition demo_pbnode :: pb_Node where
  "demo_pbnode = the (Node_ToPbNode demo_ext demo_flops 0 (\<lambda>_. demo_node) 0)"

fun demo_any :: "wrapper \<Rightarrow> any" where
  "demo_any (WInt64 n) = Any ''l'' (Bytes (uint n))"
| "demo_any (WInt32 n) = Any ''i'' (Bytes (uint n))"
| "demo_any (WString s) = Any (CHR ''s'' # s) []"
| "demo_any (WBytes b) = Any ''b'' b"
| "demo_any (WNode n) = (if n = demo_pbnode then Any ''n'' [] else nil_any)"
| "demo_any WOther = nil_any"

fun demo_unany :: "any \<Rightarrow> wrapper option" where
  "demo_unany (Any [] b) = None"
| "demo_unany (Any (c # s) b) =
     (if c = CHR ''l'' then Some (WInt64 (word_of_int (SetBytes b)))
      else if c = CHR ''i'' then Some (WInt32 (word_of_int (SetBytes b)))
      else if c = CHR ''s'' then Some (WString s)
      else if c = CHR ''n'' then Some (WNode demo_pbnode) else Some (WBytes b))"

definition demo_sync :: "bool \<Rightarrow> bool \<Rightarrow> sync_env" where
  "demo_sync leader snap =
     \<lparr>se_dag = demo_dag_env\<lparr>de_pin := (de_pin demo_dag_env)\<lparr>pe_marshal :=
        (\<lambda>_ p. if p \<in> set demo_pins then Some (pin_Sign p) else None)\<rparr>\<rparr>,
      se_Leader = leader, se_SnapshotSync = snap, se_keyPair = True, se_pubkey = Some [1], se_sign = (\<lambda>m. Some [9]),
      se_unmarshalKey = (\<lambda>b. Some (\<lambda>m s. Some (s = [9]))), se_syncBytes = (\<lambda>m. []),
      se_pinParse = (\<lambda>b. List.find (\<lambda>p. pin_Sign p = b) demo_pins), se_any = demo_any, se_unany = demo_unany,
      se_md5 = (\<lambda>b. []), se_uuidParse = (\<lambda>s. 0), se_uuid = (\<lambda>n. of_nat (Suc n)), se_clock = (\<lambda>n. 0)\<rparr>"

definition demo_sync_state :: "TxPin list \<Rightarrow> SyncState" where
  "demo_sync_state ps =
     \<lparr>ss_world = demo_start\<lparr>w_node := demo_state\<lparr>ns_pins := ps\<rparr>\<rparr>, ss_machines = Map.empty, ss_queue = [], ss_ready = False,
      ss_downloaded = [], ss_closed = False, ss_HaveJoined = False, ss_SitesProcessed = False, ss_StopFlag = False,
      ss_sent = [], ss_drawn = 0\<rparr>"

lemma demo_sync_simps [simp]:
  "se_ext (demo_sync l s) = demo_ext" "se_Leader (demo_sync l s) = l" "se_SnapshotSync (demo_sync l s) = s"
  "se_keyPair (demo_sync l s)" "se_pubkey (demo_sync l s) = Some [1]" "se_any (demo_sync l s) = demo_any"
  "se_unany (demo_sync l s) = demo_unany" "se_pinParse (demo_sync l s) = (\<lambda>b. List.find (\<lambda>p. pin_Sign p = b) demo_pins)"
  "pe_marshal (se_pin (demo_sync l s)) = (\<lambda>_ p. if p \<in> set demo_pins then Some (pin_Sign p) else None)"
  "pe_ord (se_pin (demo_sync l s)) = sorted_list_of_set"
  by (simp_all add: demo_sync_def demo_dag_env_def demo_env_def)

lemma demo_state_simps [simp]:
  "ss_pins (demo_sync_state ps) = ps" "ss_queue (demo_sync_state ps) = []" "\<not> ss_ready (demo_sync_state ps)"
  by (simp_all add: demo_sync_state_def)

lemma demo_pin_parse: "p \<in> set demo_pins \<Longrightarrow> List.find (\<lambda>q. pin_Sign q = pin_Sign p) demo_pins = Some p"
  by (auto simp: demo_pins_def NewTxPin_def)

lemma demo_any_ok: "demo_any w \<noteq> nil_any \<Longrightarrow> demo_unany (demo_any w) = Some w"
  by (cases w) (simp_all add: nil_any_def SetBytes_Bytes split: if_splits)

lemma demo_sync_ok: "sync_ok (demo_sync l s)"
  using demo_any_ok demo_pin_parse
  by (auto simp: sync_ok_def demo_ext_ok range_order_sorted nil_any_def split: if_splits)

lemma demo_can_send: "can_send (demo_sync l s)"
  by (simp add: can_send_def demo_ext_ok)

lemma demo_same_codec: "same_codec (demo_sync l s) (demo_sync l' s')"
  by (simp add: same_codec_def)



section \<open>Repairing the chain of pins\<close>

lemma missing_without:
  assumes c: "pin_chain ps" and i: "Suc i < length ps" and j: "j < length ps - 1"
  shows "missing_before (take i ps @ drop (Suc i) ps) j \<longleftrightarrow> j = i"
proof -
  let ?qs = "take i ps @ drop (Suc i) ps"
  have i': "i < length ps" using i by simp
  have at: "?qs ! k = ps ! (if k < i then k else Suc k)" if "k < length ps - 1" for k
    by (rule nth_without [OF i' that])
  note prev = pin_chainD(1) [OF c] and sign = pin_chainD(3) [OF c]
  consider "j < i" | "j = i" | "i < j" by linarith
  then show ?thesis
  proof cases
    case 1
    then show ?thesis using at [OF j] at [of "j - 1"] j prev [of j] i' by (auto simp: missing_before_def Let_def)
  next
    case 2
    have "pin_Sign (ps ! i) \<noteq> pin_Sign (ps ! (i - 1))" if "i \<noteq> 0"
      using chain_sign_eq [OF c i', of "i - 1"] that i' by fastforce
    then show ?thesis using 2 at [OF j] at [of "i - 1"] j prev [OF i] sign [OF i'] by (auto simp: missing_before_def Let_def)
  next
    case 3
    then have "?qs ! (j - 1) = ps ! j" using at [of "j - 1"] j by simp
    then show ?thesis using 3 at [OF j] j prev [of "Suc j"] by (auto simp: missing_before_def Let_def)
  qed
qed

lemma miss_request:
  assumes "can_send P" "5 \<le> length sign"
  shows "\<exists>stx S'. transactMissingPinRequest P sign S = Some (None, S') \<and> ss_queue S' = ss_queue S @ [stx] \<and>
    ss_sent S' = ss_sent S \<and> ss_world S' = ss_world S \<and> is_message stx MISSING STX_PIN_REQUEST \<and> s_Data stx = sign"
proof -
  obtain pub where pub: "se_pubkey P = Some pub" using assms(1) by (auto simp: can_send_def)
  define x where "x = se_uuid P (ss_drawn S)"
  define stx where "stx = signed P (with_hash P ((NewSyncv1 x (se_clock P (ss_drawn S)))
    \<lparr>Ver_type := STVX1, Sync_Type := MISSING, Msg_Type := STX_PIN_REQUEST, s_Sender_Pubk := pub, s_Data := sign\<rparr>))"
  have stx: "Tracking_Id stx = x" "is_message stx MISSING STX_PIN_REQUEST" "s_Data stx = sign"
    by (simp_all add: stx_def is_message_def)
  have "transactMissingPinRequest P sign S =
      map_option (\<lambda>S'. (None, delete_machine x S')) (dispatch stx (reset_machine (Tracking_Id stx) (S\<lparr>ss_drawn := Suc (ss_drawn S)\<rparr>)))"
    unfolding stx(1) transactMissingPinRequest_def new_message_eq
    using assms pub by (simp add: can_send_def x_def stx_def Let_def)
  then show ?thesis using stx unfolding dispatch_reset by (auto simp: delete_machine_def enqueue_def)
qed

lemma syncPin_quiet: "(\<And>j. j < n \<Longrightarrow> \<not> missing_before (ss_pins S) j) \<Longrightarrow> syncPin_loop P n S = Some S"
  by (induction n) auto

lemma syncPin_one:
  assumes "i < n" "\<And>j. j < n \<Longrightarrow> missing_before (ss_pins S) j \<longleftrightarrow> j = i"
    and "transactMissingPinRequest P (pin_Prev (ss_pins S ! i)) S = Some (r, S')" "ss_world S' = ss_world S"
  shows "syncPin_loop P n S = Some S'"
  using assms(1,2)
proof (induction n)
  case (Suc n)
  show ?case
  proof (cases "n = i")
    case True
    have "syncPin_loop P n S' = Some S'" by (rule syncPin_quiet) (use Suc.prems(2) True assms(4) in auto)
    then show ?thesis using True Suc.prems(2) [of n] assms(3) by simp
  next
    case False
    then show ?thesis using Suc.IH Suc.prems by simp
  qed
qed simp

lemma miss_response:
  assumes "can_send L" "host_key L P" "se_ext L = se_ext P" "se_pinBytes L p = Some b"
  shows "\<exists>stx S'. publishMissPinResponse L x p S = Some (None, S') \<and> ss_queue S' = ss_queue S @ [stx] \<and>
    ss_sent S' = ss_sent S \<and> ss_world S' = ss_world S \<and> is_message stx MISSING STX_PIN_RESPONSE \<and> s_Data stx = b \<and>
    (\<exists>verify. se_unmarshalKey P (s_Sender_Pubk stx) = Some verify \<and> Syncv1_VerifySignature (se_ext P) verify stx = Some True)"
proof -
  obtain pub verify where k: "se_pubkey L = Some pub" "se_unmarshalKey P pub = Some verify" "se_keyPair L"
    "\<And>m. \<exists>s. se_sign L m = Some s \<and> verify m s = Some True"
    using assms(2) by (auto simp: host_key_def)
  define stx where "stx = signed L (with_hash L ((NewSyncv1 (se_uuid L (ss_drawn S)) (se_clock L (ss_drawn S)))
    \<lparr>Ver_type := STVX1, Sync_Type := MISSING, Msg_Type := STX_PIN_RESPONSE, Tracking_Id := x, s_Sender_Pubk := pub, s_Data := b\<rparr>))"
  obtain s where s: "se_sign L (sha256 (se_ext P) b) = Some s" "verify (sha256 (se_ext P) b) s = Some True" using k(4) by blast
  have stx: "Tracking_Id stx = x" "is_message stx MISSING STX_PIN_RESPONSE" "s_Data stx = b" "s_Sender_Pubk stx = pub"
    "s_Signature stx = s"
    using s(1) by (simp_all add: stx_def is_message_def) (simp add: signed_def Syncv1_GenerateSignature_def assms(3))
  have "publishMissPinResponse L x p S =
      map_option (\<lambda>S'. (None, delete_machine x S')) (dispatch stx (reset_machine (Tracking_Id stx) (S\<lparr>ss_drawn := Suc (ss_drawn S)\<rparr>)))"
    unfolding stx(1) publishMissPinResponse_def new_message_eq
    using assms k by (simp add: stx_def Let_def)
  then show ?thesis using stx k(2) s(2) unfolding dispatch_reset
    by (auto simp: delete_machine_def enqueue_def Syncv1_VerifySignature_def)
qed

lemma missPin_quiet: "(\<And>p. p \<in> set ps \<Longrightarrow> pin_Sign p \<noteq> s_Data rec) \<Longrightarrow> missPin_loop L rec ps S = Some S"
  by (induction ps) auto

lemma missPin_one:
  assumes "distinct (map pin_Sign ps)" "p \<in> set ps" "s_Data rec = pin_Sign p"
    and "publishMissPinResponse L (Tracking_Id rec) p S = Some (r, S')"
  shows "missPin_loop L rec ps S = Some S'"
  using assms(1,2)
proof (induction ps)
  case (Cons q ps)
  show ?case
  proof (cases "q = p")
    case True
    have "pin_Sign p \<notin> pin_Sign ` set ps" using Cons.prems(1) True by simp
    then have "pin_Sign q' \<noteq> s_Data rec" if "q' \<in> set ps" for q' using assms(3) that by (metis imageI)
    then have "missPin_loop L rec ps S' = Some S'" by (rule missPin_quiet)
    then show ?thesis using True assms(3,4) by simp
  next
    case False
    then have "pin_Sign q \<noteq> s_Data rec" using Cons.prems assms(3) by auto
    then show ?thesis using Cons False by simp
  qed
qed simp

lemma receive_miss_request:
  "is_message m MISSING STX_PIN_REQUEST \<Longrightarrow> se_Leader L \<Longrightarrow> \<not> se_SnapshotSync L \<Longrightarrow>
   sync_receive L rounds evs m S = map_option (delete_machine (Tracking_Id m)) (handleMissPinRequest L m S)"
  by (simp add: sync_receive_def Let_def is_message_def isSyncUpSiteRequest_def isSyncUpSiteResponse_def
      isMissingPinRequest_def)

lemma receive_miss_response:
  "is_message m MISSING STX_PIN_RESPONSE \<Longrightarrow> \<not> se_SnapshotSync P \<Longrightarrow>
   sync_receive P rounds evs m S = map_option (\<lambda>(_, S'). delete_machine (Tracking_Id m) S') (processMissPinResponse P m S)"
  by (simp add: sync_receive_def Let_def is_message_def isSyncUpSiteRequest_def isSyncUpSiteResponse_def
      isMissingPinRequest_def isMissingPinResponse_def)

lemma publisher_one:
  assumes "ss_queue S = [stx]" "is_message stx MISSING t" "t = STX_PIN_REQUEST \<or> t = STX_PIN_RESPONSE"
  shows "ss_sent (publisher E S) = ss_sent S @ [Syncv1_ToProtobuf (se_ext E) stx] \<and> ss_queue (publisher E S) = [] \<and>
    ss_world (publisher E S) = ss_world S"
proof -
  have "whenToPublish (Msg_Type stx)" using assms(2,3) by (auto simp: whenToPublish_def is_message_def)
  from publisher_eq [OF assms(1) this] show ?thesis by simp
qed

text \<open>
  C9. A missing pin is fetched and put in its place. When a node holds the leader's chain of pins without one pin that
  has a successor, its periodic check sends one request, the leader answers with that pin under a signature the node
  accepts, and after handling the answer the node holds the leader's chain.
\<close>
theorem missing_pin_repaired:
  assumes chain: "pin_chain ps" "Suc i < length ps"
    and codec: "sync_ok L" "same_codec L P" "host_key L P" "se_pinBytes L (ps ! i) \<noteq> None"
    and roles: "can_send L" "can_send P" "se_Leader L" "\<not> se_SnapshotSync L" "\<not> se_SnapshotSync P"
    and states: "ss_pins SL = ps" "ss_pins SP = take i ps @ drop (Suc i) ps" "ss_queue SL = []" "ss_queue SP = []"
  shows "\<exists>S1 req SL1 resp SP'.
    SyncPin P SP = Some S1 \<and> ss_sent (publisher P S1) = ss_sent SP @ [req] \<and> ss_queue (publisher P S1) = [] \<and>
    sync_receive L rounds evs (over_wire L req) SL = Some SL1 \<and> ss_sent (publisher L SL1) = ss_sent SL @ [resp] \<and>
    sync_receive P rounds' evs' (over_wire P resp) (publisher P S1) = Some SP' \<and> ss_pins SP' = ps"
proof -
  let ?p = "ps ! i" and ?qs = "take i ps @ drop (Suc i) ps"
  have i: "i < length ps" using chain(2) by simp
  have len: "length ?qs = length ps - 1" "i < length ps - 1" using chain(2) by simp_all
  have prev: "pin_Prev (ss_pins SP ! i) = pin_Sign ?p"
    using pin_chainD(1) [OF chain] nth_without [OF i len(2)] states(2) by simp
  obtain stx S1 where req: "transactMissingPinRequest P (pin_Sign ?p) SP = Some (None, S1)" "ss_queue S1 = [stx]"
    "ss_sent S1 = ss_sent SP" "ss_world S1 = ss_world SP" "is_message stx MISSING STX_PIN_REQUEST" "s_Data stx = pin_Sign ?p"
    using miss_request [OF roles(2) pin_chainD(2) [OF chain(1) i], of SP] states(4) by auto
  have "syncPin_loop P (length ?qs) SP = Some S1"
    by (rule syncPin_one [of i]) (use len missing_without [OF chain] req(1,4) prev in \<open>auto simp: states(2)\<close>)
  then have sync: "SyncPin P SP = Some S1" by (simp add: SyncPin_def states(2))
  have X: "se_ext P = se_ext L" "ext_ok (se_ext L)" using codec(2) sync_okD(1) [OF codec(1)] by (simp_all add: same_codec_def)
  let ?req = "Syncv1_ToProtobuf (se_ext P) stx"
  have wire: "over_wire L ?req = stx\<lparr>SyncHash := []\<rparr>" using X wire_fields by simp
  obtain b where b: "se_pinBytes L ?p = Some b" using codec(4) by blast
  obtain stx2 SL1 where resp: "publishMissPinResponse L (Tracking_Id stx) ?p SL = Some (None, SL1)" "ss_queue SL1 = [stx2]"
    "ss_sent SL1 = ss_sent SL" "is_message stx2 MISSING STX_PIN_RESPONSE" "s_Data stx2 = b"
    and v: "\<exists>verify. se_unmarshalKey P (s_Sender_Pubk stx2) = Some verify \<and> Syncv1_VerifySignature (se_ext P) verify stx2 = Some True"
    using miss_response [OF roles(1) codec(3) X(1) [symmetric] b, of "Tracking_Id stx" SL] states(3) by auto
  have "handleMissPinRequest L (over_wire L ?req) SL = Some SL1"
    unfolding handleMissPinRequest_def
    by (rule missPin_one [of _ ?p]) (use chain i req(6) resp(1) in \<open>auto simp: states(1) wire pin_chain_def\<close>)
  then have answer: "sync_receive L rounds evs (over_wire L ?req) SL = Some (delete_machine (Tracking_Id stx) SL1)"
    using roles(3,4) req(5) by (simp add: receive_miss_request wire)
  let ?resp = "Syncv1_ToProtobuf (se_ext L) stx2" and ?SP1 = "publisher P S1"
  have wire2: "over_wire P ?resp = stx2\<lparr>SyncHash := []\<rparr>" using X wire_fields by simp
  have pub: "ss_sent ?SP1 = ss_sent SP @ [?req]" "ss_queue ?SP1 = []" "ss_world ?SP1 = ss_world SP"
    using publisher_one [OF req(2,5)] req(3,4) by auto
  have pub2: "ss_sent (publisher L (delete_machine (Tracking_Id stx) SL1)) = ss_sent SL @ [?resp]"
    using publisher_one [of "delete_machine (Tracking_Id stx) SL1" stx2] resp by (simp add: delete_machine_def)
  have "se_pinParse P (s_Data stx2) = Some ?p" using sync_okD(7) [OF codec(1) b] codec(2) resp(5) by (simp add: same_codec_def)
  then have "processMissPinResponse P (over_wire P ?resp) ?SP1 = Some (None, set_pins ps ?SP1)"
    using v insert_repairs_chain [OF chain(1) i] states(2) pub(3) unfolding wire2
    by (auto simp: processMissPinResponse_def Syncv1_VerifySignature_def)
  then have "sync_receive P rounds' evs' (over_wire P ?resp) ?SP1 = Some (delete_machine (Tracking_Id stx2) (set_pins ps ?SP1))"
    using resp(4) roles(5) by (simp add: receive_miss_response wire2)
  then show ?thesis using sync pub(1,2) answer pub2 by (intro exI conjI) (assumption | simp)+
qed

lemma demo_pins_chain: "pin_chain demo_pins"
  by (simp add: pin_chain_def demo_pins_def NewTxPin_def less_Suc_eq all_simps numeral_2_eq_2 numeral_3_eq_3)

theorem missing_pin_repaired_witness:
  "\<exists>S1 req SL1 resp SP'.
     SyncPin (demo_sync False False) (demo_sync_state [demo_pins ! 0, demo_pins ! 2]) = Some S1 \<and>
     ss_sent (publisher (demo_sync False False) S1) = [req] \<and>
     sync_receive (demo_sync True False) [] [] (over_wire (demo_sync True False) req) (demo_sync_state demo_pins) = Some SL1 \<and>
     ss_sent (publisher (demo_sync True False) SL1) = [resp] \<and>
     sync_receive (demo_sync False False) [] [] (over_wire (demo_sync False False) resp)
       (publisher (demo_sync False False) S1) = Some SP' \<and> ss_pins SP' = demo_pins"
proof -
  have k: "host_key (demo_sync True False) (demo_sync False False)" by (simp add: host_key_def demo_sync_def)
  have b: "se_pinBytes (demo_sync True False) (demo_pins ! 1) \<noteq> None" by (simp add: demo_pins_def)
  have q: "take 1 demo_pins @ drop (Suc 1) demo_pins = [demo_pins ! 0, demo_pins ! 2]" "Suc 1 < length demo_pins"
    by (simp_all add: demo_pins_def)
  have e: "ss_sent (demo_sync_state ps) = []" for ps by (simp add: demo_sync_state_def)
  show ?thesis
    using missing_pin_repaired [OF demo_pins_chain q(2) demo_sync_ok demo_same_codec k b demo_can_send demo_can_send,
        of "demo_sync_state demo_pins" "demo_sync_state [demo_pins ! 0, demo_pins ! 2]" "[]" "[]" "[]" "[]"]
    unfolding q(1) e append_Nil by (simp del: nth_Cons_0) metis
qed

lemma download_request_sent:
  assumes "can_send E"
  shows "\<exists>S'. sendPindDownloadRequest E h S = Some (None, S')"
proof -
  obtain pub where pub: "se_pubkey E = Some pub" using assms by (auto simp: can_send_def)
  have "\<exists>S'. dispatch stx (reset_machine x S0) = Some S'" if "Tracking_Id stx = x" for stx x S0
    using dispatch_reset [of stx S0] that by blast
  then show ?thesis
    using assms pub unfolding sendPindDownloadRequest_def new_message_eq by (auto simp: can_send_def Let_def)
qed

theorem gap_is_permanent_witness:
  "\<exists>S'. receive_all (demo_sync False True)
     [(([], [Delivered (demo_pins ! 1)]),
       (NewSyncv1 0 0)\<lparr>Ver_type := 1, Sync_Type := LATEST, Msg_Type := STX_ANNOUNCE, s_Data := replicate 5 3\<rparr>)]
     ((demo_sync_state [demo_pins ! 0])\<lparr>ss_ready := True\<rparr>) = Some S' \<and> ss_pins S' = [demo_pins ! 0]"
proof -
  let ?E = "demo_sync False True" and ?S = "(demo_sync_state [demo_pins ! 0])\<lparr>ss_ready := True\<rparr>"
  let ?m = "(NewSyncv1 0 0)\<lparr>Ver_type := 1, Sync_Type := LATEST, Msg_Type := STX_ANNOUNCE, s_Data := replicate 5 3\<rparr>"
  have m: "is_message ?m LATEST STX_ANNOUNCE" by (simp add: is_message_def)
  have h: "CurrentHeight (ss_pins ?S) = 0" by (simp add: CurrentHeight_def demo_pins_def NewTxPin_def)
  have p: "se_pinParse ?E (s_Data ?m) = Some (demo_pins ! 2)" "sint (pin_PinNumber (demo_pins ! 2)) = 2"
    by (simp_all add: demo_pins_def NewTxPin_def)
  obtain S1 where "sendPindDownloadRequest ?E 1 (openPinDownloading ?S) = Some (None, S1)"
    using download_request_sent [OF demo_can_send] by blast
  then have "processPin ?E [Delivered (demo_pins ! 1)] (demo_pins ! 2) ?S = Some (copy_confirmed ?E S1)"
    using h p by (simp add: processPin_def)
  moreover have "pe_NodeType (se_pin ?E) = 0" by (simp add: demo_sync_def demo_dag_env_def demo_env_def)
  ultimately have r: "receive_all ?E [(([], [Delivered (demo_pins ! 1)]), ?m)] ?S = Some (copy_confirmed ?E S1)"
    using p by (simp add: receive_announce [OF m] on_NewPinAnnounce_def)
  have "ss_pins (copy_confirmed ?E S1) = ss_pins ?S"
    by (rule gap_is_permanent [OF r]) (use m h p in \<open>auto simp: announces_beyond_def\<close>)
  with r show ?thesis by simp
qed

section \<open>Fetching missing sites\<close>

lemma Node_wire_id:
  assumes "ext_ok E" "Node_ToPbNode E F now_ms h a = Some p"
  shows "\<exists>n. Node_FromPbNode E F p z = Some n \<and> nid_id (n_id n) = node_uuid h a"
proof -
  obtain t where t: "MarshalBinary E now_ms (n_tx (h a)) = Some t" using assms(2) by (auto simp: Node_ToPbNode_def Let_def)
  have "UnmarshalBinary E t = Some (n_tx (h a))"
    using assms(1) t by (cases "n_tx (h a)")
      (auto simp: UnmarshalBinary_def Txv1_unmarshal_marshal EthTx_UnmarshalBinary_def
        Txv1_MarshalBinary_def EthTx_MarshalBinary_def ext_okD split: option.splits
        dest: Txv1_unmarshal_marshal [of E, unfolded Txv1_MarshalBinary_def])
  then show ?thesis using assms t by (auto simp: Node_ToPbNode_def Node_FromPbNode_def Let_def)
qed

text \<open>The sites a node can send, with their encodings.\<close>

definition sendable :: "sync_env \<Rightarrow> World \<Rightarrow> addr \<Rightarrow> pb_Node \<Rightarrow> bool" where
  "sendable L W v n \<longleftrightarrow>
     Node_ToPbNode (se_ext L) (pe_flops (se_pin L)) (pe_now_ms (se_pin L)) (w_heap W) v = Some n \<and>
     se_any L (WNode n) \<noteq> nil_any"

lemma node_details_sendable:
  "list_all2 (sendable L W) vs ns \<Longrightarrow> node_details L W vs = Some (map (\<lambda>n. se_any L (WNode n)) ns)"
  by (induction rule: list_all2_induct) (auto simp: node_details_def sendable_def)

lemma received_nodes_ids:
  assumes "list_all2 (sendable L WL) vs ns" "sync_ok L" "same_codec L P" "pe_flops (se_pin L) = pe_flops (se_pin P)"
  shows "\<exists>as W'. received_nodes P (map (\<lambda>n. se_any L (WNode n)) ns) W = Some (as, W') \<and>
    map (node_uuid (w_heap W')) as = map (node_uuid (w_heap WL)) vs \<and>
    (\<forall>a < w_next W. w_heap W' a = w_heap W a) \<and> w_next W \<le> w_next W' \<and> w_dag W' = w_dag W"
  using assms(1)
proof (induction arbitrary: W rule: list_all2_induct)
  case (Cons v vs n ns)
  obtain nd where nd: "Node_FromPbNode (se_ext P) (pe_flops (se_pin P)) n (zeroNode (pe_flops (se_pin P)) (de_nilTx (se_dag P))) = Some nd"
    "nid_id (n_id nd) = node_uuid (w_heap WL) v"
    using Node_wire_id [OF sync_okD(1) [OF assms(2)]] Cons.hyps(1) assms(3,4) by (fastforce simp: sendable_def same_codec_def)
  let ?W1 = "W\<lparr>w_heap := (w_heap W)(w_next W := nd), w_next := Suc (w_next W)\<rparr>"
  obtain as W' where r: "received_nodes P (map (\<lambda>n. se_any L (WNode n)) ns) ?W1 = Some (as, W')"
    "map (node_uuid (w_heap W')) as = map (node_uuid (w_heap WL)) vs"
    "\<forall>a < w_next ?W1. w_heap W' a = w_heap ?W1 a" "w_next ?W1 \<le> w_next W'" "w_dag W' = w_dag ?W1"
    using Cons.IH [of ?W1] by blast
  have "se_unany P (se_any L (WNode n)) = Some (WNode n)"
    using sync_okD(6) [OF assms(2)] Cons.hyps(1) assms(3) by (auto simp: sendable_def same_codec_def)
  then have "received_nodes P (map (\<lambda>n. se_any L (WNode n)) (n # ns)) W = Some (w_next W # as, W')"
    using nd(1) r(1) by (simp add: alloc_def)
  moreover have "w_heap W' (w_next W) = nd" "\<forall>a < w_next W. w_heap W' a = w_heap W a"
    using r(3) by simp_all
  ultimately show ?case using r(2,4,5) nd(2) by simp
qed simp

lemma getById_known:
  "Dag_getById h d u False \<noteq> None \<longleftrightarrow> dg_vertices d u \<noteq> None \<or> (\<exists>a \<in> set (dg_dag d). node_uuid h a = u)"
  using goFind_None_iff [of "\<lambda>n. node_uuid h n = u" "dg_dag d"]
  by (cases "dg_vertices d u"; cases "goFind (\<lambda>n. node_uuid h n = u) (dg_dag d)")
    (auto simp: Dag_getById_def find_site_def)

lemma insertIfMissing_heap [simp]: "w_heap (insertIfMissing_one v W) = w_heap W"
  by (simp add: insertIfMissing_one_def split: option.split)

lemma insertIfMissing_keeps:
  "Dag_getById (w_heap W) (w_dag W) u False \<noteq> None \<Longrightarrow>
   Dag_getById (w_heap W) (w_dag (insertIfMissing_one v W)) u False \<noteq> None"
  unfolding getById_known
  by (auto simp: insertIfMissing_one_def insertMissing_def send_tx_def lookupCacheUpdate_def Let_def split: option.splits)

lemma insertIfMissing_adds:
  "Dag_getById (w_heap W) (w_dag (insertIfMissing_one v W)) (node_uuid (w_heap W) v) False \<noteq> None"
  by (auto simp: insertIfMissing_one_def insertMissing_def send_tx_def lookupCacheUpdate_def Dag_getById_def Let_def
      split: option.splits)

lemma InsertIfNotExist_adds:
  assumes "v \<in> set vs \<or> Dag_getById (w_heap W) (w_dag W) (node_uuid (w_heap W) v) False \<noteq> None"
  shows "Dag_getById (w_heap W) (w_dag (InsertIfNotExist vs W)) (node_uuid (w_heap W) v) False \<noteq> None"
  using assms
proof (induction vs arbitrary: W)
  case (Cons a vs)
  have "v \<in> set vs \<or> Dag_getById (w_heap W) (w_dag (insertIfMissing_one a W)) (node_uuid (w_heap W) v) False \<noteq> None"
    using Cons.prems insertIfMissing_adds [of W a] insertIfMissing_keeps [of W "node_uuid (w_heap W) v" a] by auto
  then show ?case using Cons.IH [of "insertIfMissing_one a W"] by (simp add: InsertIfNotExist_def)
qed (simp add: InsertIfNotExist_def)

lemma InsertIfNotExist_heap: "w_heap (InsertIfNotExist vs W) = w_heap W"
  unfolding InsertIfNotExist_def by (induction vs arbitrary: W) simp_all

lemma receive_site_request:
  "is_message m SITE STX_REQUEST \<Longrightarrow> se_Leader L \<Longrightarrow> sync_receive L rounds evs m S =
     map_option (delete_machine (Tracking_Id m))
       (Option.bind (change_machine (Tracking_Id m) SYNC_QUERY_BEGIN (reset_machine (Tracking_Id m) S)) (handleSyncSiteRequest L m))"
  by (simp add: sync_receive_def Let_def is_message_def isSyncUpSiteRequest_def isSyncUpSiteResponse_def
      isMissingPinRequest_def isMissingPinResponse_def isSyncSiteRequest_def)

lemma receive_site_response:
  "is_message m SITE STX_RESPONSE \<Longrightarrow> sync_receive P rounds evs m S = on_SyncSiteResponse P m S"
  by (simp add: sync_receive_def Let_def is_message_def isSyncUpSiteRequest_def isSyncUpSiteResponse_def
      isMissingPinRequest_def isMissingPinResponse_def isSyncSiteRequest_def isSyncSiteResponse_def)

lemma site_request:
  assumes "can_send P" "ss_queue S = []"
  defines "x \<equiv> se_uuid P (ss_drawn S)"
  shows "\<exists>S1 req. transactSiteRequest P ids S = Some (None, S1) \<and> ss_sent (publisher P S1) = ss_sent S @ [req] \<and>
    ss_world (publisher P S1) = ss_world S \<and> ss_machines (publisher P S1) x = Some (sm_at SYNC_DISPATCH_END) \<and>
    is_message (over_wire P req) SITE STX_REQUEST \<and> Tracking_Id (over_wire P req) = x \<and>
    Details (over_wire P req) = map (\<lambda>v. se_any P (WString v)) ids"
proof -
  obtain pub where pub: "se_pubkey P = Some pub" using assms(1) by (auto simp: can_send_def)
  define stx where "stx = signed P (with_hash P ((NewSyncv1 x (se_clock P (ss_drawn S)))
    \<lparr>Ver_type := STVX1, Sync_Type := SITE, Msg_Type := STX_REQUEST, s_Sender_Pubk := pub,
     Details := map (\<lambda>v. se_any P (WString v)) ids\<rparr>))"
  have stx: "Tracking_Id stx = x" "is_message stx SITE STX_REQUEST" "Details stx = map (\<lambda>v. se_any P (WString v)) ids"
    "whenToPublish (Msg_Type stx)"
    by (simp_all add: stx_def is_message_def whenToPublish_def)
  define S1 where "S1 = delete_machine x (enqueue stx (S\<lparr>ss_drawn := Suc (ss_drawn S),
    ss_machines := (ss_machines S)(x \<mapsto> sm_at SYNC_DISPATCH_BEGIN)\<rparr>))"
  have "transactSiteRequest P ids S =
      map_option (\<lambda>S'. (None, delete_machine x S')) (dispatch stx (reset_machine (Tracking_Id stx) (S\<lparr>ss_drawn := Suc (ss_drawn S)\<rparr>)))"
    unfolding stx(1) transactSiteRequest_def new_message_eq
    using assms(1) pub by (simp add: can_send_def x_def stx_def Let_def)
  then have "transactSiteRequest P ids S = Some (None, S1)" unfolding dispatch_reset by (simp add: S1_def stx(1))
  moreover have "ss_queue S1 = [stx]" using assms(2) by (simp add: S1_def delete_machine_def enqueue_def)
  note publisher_eq [OF this stx(4), of P]
  moreover have "over_wire P (Syncv1_ToProtobuf (se_ext P) stx) = stx\<lparr>SyncHash := []\<rparr>"
    using assms(1) wire_fields by (auto simp: can_send_def)
  ultimately show ?thesis using stx
    by (intro exI [of _ S1] exI [of _ "Syncv1_ToProtobuf (se_ext P) stx"]) (simp add: S1_def delete_machine_def enqueue_def)
qed

lemma requested_ids:
  assumes "sync_ok P" "se_unany L = se_unany P" "\<And>s. s \<in> set ids \<Longrightarrow> se_any P (WString s) \<noteq> nil_any"
  shows "List.map_filter (\<lambda>v. case se_unany L v of Some (WString s) \<Rightarrow> Some s | _ \<Rightarrow> None)
    (map (\<lambda>v. se_any P (WString v)) ids) = ids"
  using assms(3) sync_okD(6) [OF assms(1)] by (induction ids) (simp_all add: map_filter_simps assms(2))

lemma getVertices_all:
  assumes "list_all2 (\<lambda>s v. dg_vertices d (parse s) = Some v) ids vs"
  shows "getVertices parse d ids = (vs, False)"
proof -
  have "List.map_filter (Dag_Vertex d) (map parse ids) = vs"
    using assms by (induction rule: list_all2_induct) (simp_all add: map_filter_simps Dag_Vertex_def)
  then show ?thesis using list_all2_lengthD [OF assms] by (simp add: getVertices_def)
qed

lemma site_answer:
  assumes "sync_ok L" "can_send L" "se_Leader L" "ss_queue S = []" "ids \<noteq> []" "Tracking_Id m \<noteq> uuid_Nil"
    and m: "is_message m SITE STX_REQUEST"
      "List.map_filter (\<lambda>v. case se_unany L v of Some (WString s) \<Rightarrow> Some s | _ \<Rightarrow> None) (Details m) = ids"
    and vs: "list_all2 (\<lambda>s v. dg_vertices (w_dag (ss_world S)) (se_uuidParse L s) = Some v) ids vs"
      "list_all2 (sendable L (ss_world S)) vs ns"
  shows "\<exists>S' resp. sync_receive L rounds evs m S = Some S' \<and> ss_sent (publisher L S') = ss_sent S @ [resp] \<and>
    is_message (over_wire L resp) SITE STX_RESPONSE \<and> Tracking_Id (over_wire L resp) = Tracking_Id m \<and>
    Details (over_wire L resp) = map (\<lambda>n. se_any L (WNode n)) ns"
proof -
  let ?x = "Tracking_Id m"
  obtain pub where pub: "se_pubkey L = Some pub" "se_keyPair L" using assms(2) by (auto simp: can_send_def)
  define stx where "stx = signed L (with_hash L ((NewSyncv1 (se_uuid L (ss_drawn S)) (se_clock L (ss_drawn S)))
    \<lparr>Ver_type := STVX1, Sync_Type := SITE, Msg_Type := STX_RESPONSE, Tracking_Id := ?x, s_Sender_Pubk := pub,
     Details := map (\<lambda>n. se_any L (WNode n)) ns\<rparr>))"
  have stx: "Tracking_Id stx = ?x" "is_message stx SITE STX_RESPONSE" "Details stx = map (\<lambda>n. se_any L (WNode n)) ns"
    "whenToPublish (Msg_Type stx)"
    by (simp_all add: stx_def is_message_def whenToPublish_def)
  define S0 where "S0 = S\<lparr>ss_machines := (ss_machines S)(?x \<mapsto> sm_at SYNC_HANDLE_BEGIN)\<rparr>"
  define S1 where "S1 = delete_machine ?x (enqueue stx (S0\<lparr>ss_drawn := Suc (ss_drawn S),
    ss_machines := (ss_machines S0)(?x \<mapsto> sm_at SYNC_DISPATCH_BEGIN)\<rparr>))"
  have "vs \<noteq> []" using vs(1) assms(5) by auto
  then have "handleSiteRequest L ?x ids S0 =
      map_option (\<lambda>S'. (None, delete_machine ?x S')) (dispatch stx (reset_machine (Tracking_Id stx) (S0\<lparr>ss_drawn := Suc (ss_drawn S0)\<rparr>)))"
    unfolding stx(1) handleSiteRequest_def new_message_eq
    using pub assms(6) getVertices_all [OF vs(1)] node_details_sendable [OF vs(2)]
    by (simp add: Let_def or_fresh_def S0_def stx_def)
  then have h: "handleSiteRequest L ?x ids S0 = Some (None, S1)" unfolding dispatch_reset by (simp add: S1_def stx(1) S0_def)
  have "(SYNC_QUERY_BEGIN, SYNC_HANDLE_BEGIN) \<in> sync_edges" by (simp add: sync_edges_def)
  then have "change_machine ?x SYNC_HANDLE_BEGIN (S\<lparr>ss_machines := (ss_machines S)(?x \<mapsto> sm_at SYNC_QUERY_BEGIN)\<rparr>) = Some S0"
    by (simp add: change_machine_def changeToSM_sm_at S0_def)
  moreover have "change_machine ?x SYNC_HANDLE_END S1 = Some S1"
    by (rule change_machine_same, rule changeToSM_absent) (simp add: S1_def delete_machine_def deleteSM_def)
  ultimately have "handleSyncSiteRequest L m (S\<lparr>ss_machines := (ss_machines S)(?x \<mapsto> sm_at SYNC_QUERY_BEGIN)\<rparr>) = Some S1"
    using h m(2) by (simp add: handleSyncSiteRequest_def Let_def)
  then have r: "sync_receive L rounds evs m S = Some (delete_machine ?x S1)"
    using receive_site_request [OF m(1) assms(3)]
    by (simp add: change_machine_def reset_machine_def resetSM_sm_at changeToSM_sm_at)
  have "ss_queue (delete_machine ?x S1) = [stx]" using assms(4) by (simp add: S1_def S0_def delete_machine_def enqueue_def)
  from publisher_eq [OF this stx(4), of L] have "ss_sent (publisher L (delete_machine ?x S1)) =
      ss_sent S @ [Syncv1_ToProtobuf (se_ext L) stx]"
    by (simp add: S1_def S0_def delete_machine_def enqueue_def)
  moreover have "over_wire L (Syncv1_ToProtobuf (se_ext L) stx) = stx\<lparr>SyncHash := []\<rparr>"
    using sync_okD(1) [OF assms(1)] wire_fields by auto
  ultimately show ?thesis using r stx
    by (intro exI [of _ "delete_machine ?x S1"] exI [of _ "Syncv1_ToProtobuf (se_ext L) stx"]) simp
qed

lemma site_apply:
  assumes "sync_ok L" "same_codec L P" "pe_flops (se_pin L) = pe_flops (se_pin P)" "list_all2 (sendable L WL) vs ns"
    and "is_message m SITE STX_RESPONSE" "Details m = map (\<lambda>n. se_any L (WNode n)) ns"
    and "ss_machines S (Tracking_Id m) = Some (sm_at SYNC_DISPATCH_END)"
  shows "\<exists>S'. sync_receive P rounds evs m S = Some S' \<and> (\<forall>v \<in> set vs.
    Dag_getById (w_heap (ss_world S')) (w_dag (ss_world S')) (node_uuid (w_heap WL) v) False \<noteq> None)"
proof -
  let ?x = "Tracking_Id m"
  let ?S1 = "S\<lparr>ss_machines := (ss_machines S)(?x \<mapsto> sm_at SYNC_QUERY_BEGIN)\<rparr>"
  obtain as W where r: "received_nodes P (Details m) (ss_world S) = Some (as, W)"
    "map (node_uuid (w_heap W)) as = map (node_uuid (w_heap WL)) vs"
    using received_nodes_ids [OF assms(4,1,2,3)] assms(6) by metis
  let ?S2 = "?S1\<lparr>ss_world := InsertIfNotExist as W\<rparr>"
  have "currentSM ?x (ss_machines ?S2) \<noteq> SYNC_HANDLE_END" by (simp add: currentSM_def Current_def sync_states)
  moreover have "existsSM ?x (ss_machines S)" "currentSM ?x (ss_machines S) = SYNC_DISPATCH_END"
    using assms(7) by (simp_all add: existsSM_def currentSM_def Current_def)
  ultimately have "sync_receive P rounds evs m S = Some ?S2"
    using r(1) assms(5)
    by (simp add: receive_site_response on_SyncSiteResponse_def handleSyncSiteResponse_def change_machine_def
        reset_machine_def resetSM_sm_at changeToSM_sm_at)
  moreover have "Dag_getById (w_heap W) (w_dag (InsertIfNotExist as W)) (node_uuid (w_heap WL) v) False \<noteq> None"
    if v: "v \<in> set vs" for v
  proof -
    have "node_uuid (w_heap WL) v \<in> set (map (node_uuid (w_heap W)) as)" using v r(2) by simp
    then obtain a where "a \<in> set as" "node_uuid (w_heap WL) v = node_uuid (w_heap W) a" by auto
    then show ?thesis using InsertIfNotExist_adds [of a as W] by auto
  qed
  ultimately show ?thesis by (auto simp: InsertIfNotExist_heap)
qed



end
