(* ===== verification/Dag_Graph.thy ===== *)
theory Dag_Graph
  imports Dag_Properties
begin

text \<open>
  The reverse image of the DAG and the traversals: \<^verbatim>\<open>src/graph/dgraph.go\<close>, \<^verbatim>\<open>src/graph/dvertex.go\<close>,
  \<^verbatim>\<open>src/graph/dedge.go\<close>, the watcher's part of \<^verbatim>\<open>src/dag/sync.go\<close> (\<^verbatim>\<open>Notify\<close>, \<^verbatim>\<open>syncUp\<close>, \<^verbatim>\<open>pinTxIDs\<close>) and
  \<^verbatim>\<open>src/dag/traverse.go\<close>.

  The searches share one stack between all their recursive calls. They are modelled with fuel, \<open>None\<close>
  stands for a panic or for running out of it; the locale \<open>worklist\<close> shows once how much fuel is
  enough and what is visited, and is interpreted for both searches.
\<close>

section \<open>Vertices, edges and the graph\<close>

record DEdge =
  de_from :: uuid
  de_to :: uuid

record DVertex =
  dv_id :: uuid
  dv_major :: "64 word"
  dv_minor :: "32 word"
  dv_depth :: "64 word"
  dv_edges :: "DEdge list"

type_synonym DGraph = "uuid \<rightharpoonup> DVertex"

definition NewEdge :: "uuid \<Rightarrow> uuid \<Rightarrow> DEdge" where
  "NewEdge f t = \<lparr>de_from = f, de_to = t\<rparr>"

definition ReversedEdge :: "DEdge \<Rightarrow> DEdge" where
  "ReversedEdge e = \<lparr>de_from = de_to e, de_to = de_from e\<rparr>"

definition NewVertex :: "uuid \<Rightarrow> 64 word \<Rightarrow> 32 word \<Rightarrow> DVertex" where
  "NewVertex vid major minor = \<lparr>dv_id = vid, dv_major = major, dv_minor = minor, dv_depth = 0, dv_edges = []\<rparr>"

definition AddEdge :: "DEdge \<Rightarrow> DVertex \<Rightarrow> DVertex" where
  "AddEdge e v = v\<lparr>dv_edges := dv_edges v @ [e]\<rparr>"

definition SetDepth :: "64 word \<Rightarrow> DVertex \<Rightarrow> DVertex" where
  "SetDepth d v = v\<lparr>dv_depth := d\<rparr>"

definition NewGraph :: DGraph where
  "NewGraph = Map.empty"

definition AddVertex :: "DVertex \<Rightarrow> DGraph \<Rightarrow> DGraph" where
  "AddVertex v g = (if g (dv_id v) = None then g(dv_id v \<mapsto> v) else g)"

definition RemoveVertex :: "uuid \<Rightarrow> DGraph \<Rightarrow> DGraph" where
  "RemoveVertex vid g = g(vid := None)"

definition Vertices :: "uuid visit_order \<Rightarrow> DGraph \<Rightarrow> DVertex list" where
  "Vertices ord g = map (\<lambda>k. the (g k)) (ord (dom g))"

text \<open>
  The stack of pins, the top first. Its elements are interface values, \<open>None\<close> is nil, which the
  library answers for an empty stack and \<^verbatim>\<open>PeekPrev\<close> then pushes back.
\<close>

type_synonym PinTxStack = "uuid option list"

definition Stack_Pop :: "PinTxStack \<Rightarrow> uuid option \<times> PinTxStack" where
  "Stack_Pop s = (case s of [] \<Rightarrow> (None, []) | x # xs \<Rightarrow> (x, xs))"

definition Stack_Peek :: "PinTxStack \<Rightarrow> uuid option" where
  "Stack_Peek s = (case s of [] \<Rightarrow> None | x # _ \<Rightarrow> x)"

definition PeekPrev :: "PinTxStack \<Rightarrow> uuid option \<times> PinTxStack" where
  "PeekPrev s = (let (lst, s1) = Stack_Pop s in (Stack_Peek s1, lst # s1))"

section \<open>The watcher\<close>

text \<open>
  \<^verbatim>\<open>Notify\<close> adds the vertex unless its identifier is known and hangs it below the vertices it
  approves. The depth is set on the new object, which is not the one in the graph when the identifier was known
  (\<open>fresh = False\<close>). Drawing the graph for a second pin is file output.
\<close>

definition notify_edge :: "uuid \<Rightarrow> bool \<Rightarrow> Node \<Rightarrow> DGraph \<Rightarrow> DGraph" where
  "notify_edge vid fresh e g =
     (let src = nid_id (n_id e) in
      case g src of
        None \<Rightarrow> g
      | Some srcVertex \<Rightarrow>
          let g1 = g(src \<mapsto> AddEdge (NewEdge src vid) srcVertex) in
          if fresh then g1(vid := map_option (SetDepth (dv_depth srcVertex + 1)) (g1 vid)) else g1)"

definition Notify :: "TxVL \<Rightarrow> DGraph \<times> PinTxStack \<Rightarrow> DGraph \<times> PinTxStack" where
  "Notify txvl st =
     (let (g, pinStack) = st;
          nid = n_id (tv_vertex txvl);
          v = NewVertex (nid_id nid) (nid_idMajor nid) (nid_idMinor nid);
          g1 = AddVertex v g;
          g2 = fold (notify_edge (nid_id nid) (g (nid_id nid) = None)) (tv_edges txvl) g1;
          ty = GetTransactionType (n_tx (tv_vertex txvl)) in
      (g2, if ty = SERVICE_PIN \<or> ty = SERVICE_GENESIS then Some (nid_id nid) # pinStack else pinStack))"

text \<open>
  The inner function of \<^verbatim>\<open>syncUp\<close> collects the targets of a vertex. It searches the links from
  position \<^verbatim>\<open>i\<close> on but continues with the position inside that slice.
\<close>

fun links_loop :: "nat \<Rightarrow> heap \<Rightarrow> Link list \<Rightarrow> uuid \<Rightarrow> nat \<Rightarrow> Node list \<Rightarrow> Node list option" where
  "links_loop 0 h edges x i e = None"
| "links_loop (Suc fuel) h edges x i e =
     (if i < length edges then
        case goFind (\<lambda>l. node_uuid h (link_source l) = x) (drop i edges) of
          Some (l, idx) \<Rightarrow> links_loop fuel h edges x (idx + 1) (e @ [h (link_target l)])
        | None \<Rightarrow> Some e
      else Some e)"

definition links_from :: "nat \<Rightarrow> heap \<Rightarrow> Link list \<Rightarrow> uuid \<Rightarrow> Node list option" where
  "links_from fuel h edges x = (if x = uuid_Nil then Some [] else links_loop fuel h edges x 0 [])"

fun syncUp_loop :: "nat \<Rightarrow> heap \<Rightarrow> Link list \<Rightarrow> addr list \<Rightarrow> DGraph \<times> PinTxStack \<Rightarrow> (DGraph \<times> PinTxStack) option" where
  "syncUp_loop fuel h edges [] st = Some st"
| "syncUp_loop fuel h edges (v # vs) st =
     (case links_from fuel h edges (node_uuid h v) of
        None \<Rightarrow> None
      | Some es \<Rightarrow> syncUp_loop fuel h edges vs (Notify \<lparr>tv_vertex = h v, tv_edges = es\<rparr> st))"

definition watcher_syncUp :: "nat \<Rightarrow> World \<Rightarrow> DGraph \<times> PinTxStack \<Rightarrow> (DGraph \<times> PinTxStack) option" where
  "watcher_syncUp fuel W st = syncUp_loop fuel (w_heap W) (dg_links (w_dag W)) (dg_dag (w_dag W)) st"

section \<open>Tips of the graph\<close>

text \<open>
  The search from the genesis vertex. The state is the stack, the visited identifiers and the
  identifiers of the tips, the vertices with fewer than two edges. A vertex without edges returns at once and
  leaves the stack to its caller.
\<close>

type_synonym search = "uuid list \<times> uuid set \<times> uuid set"

fun DGraph_visit :: "nat \<Rightarrow> DGraph \<Rightarrow> DVertex \<Rightarrow> search \<Rightarrow> search option"
  and DGraph_loop :: "nat \<Rightarrow> DGraph \<Rightarrow> search \<Rightarrow> search option" where
  "DGraph_visit 0 g cur st = None"
| "DGraph_visit (Suc n) g cur (ws, vis, tips) =
     (let vis' = insert (dv_id cur) vis;
          es = dv_edges cur;
          tips' = (if length es < 2 then insert (dv_id cur) tips else tips) in
      if length es = 0 then Some (ws, vis', tips')
      else DGraph_loop n g (rev (map de_to es) @ ws, vis', tips'))"
| "DGraph_loop 0 g st = None"
| "DGraph_loop (Suc n) g (ws, vis, tips) =
     (case ws of
        [] \<Rightarrow> Some ([], vis, tips)
      | x # ws' \<Rightarrow>
          if x \<notin> vis then
            (case g x of
               None \<Rightarrow> None
             | Some v \<Rightarrow>
                 (case DGraph_visit n g v (ws', vis, tips) of
                    None \<Rightarrow> None
                  | Some st \<Rightarrow> DGraph_loop n g st))
          else DGraph_loop n g (ws', vis, tips))"

definition GetTipVertices :: "nat \<Rightarrow> DGraph \<Rightarrow> uuid set option" where
  "GetTipVertices fuel g =
     (case g uuid_Nil of
        None \<Rightarrow> None
      | Some v \<Rightarrow> map_option (\<lambda>(ws, vis, tips). tips) (DGraph_visit fuel g v ([], {}, {})))"

section \<open>Slices of the DAG\<close>

text \<open>
  \<^verbatim>\<open>Dag.visit\<close> follows the targets of a vertex and stops at pins. A vertex that is not in the DAG is a
  panic when the search starts there and is skipped later.
\<close>

definition isPinVertex :: "heap \<Rightarrow> addr \<Rightarrow> bool" where
  "isPinVertex h a \<longleftrightarrow> GetTransactionType (n_tx (h a)) = SERVICE_PIN"

fun Dag_visit :: "nat \<Rightarrow> heap \<Rightarrow> Dag \<Rightarrow> uuid \<Rightarrow> uuid list \<times> uuid set \<Rightarrow> (uuid list \<times> uuid set) option"
  and Dag_visit_loop :: "nat \<Rightarrow> heap \<Rightarrow> Dag \<Rightarrow> uuid list \<times> uuid set \<Rightarrow> (uuid list \<times> uuid set) option" where
  "Dag_visit 0 h d x st = None"
| "Dag_visit (Suc n) h d x (ws, vis) =
     (case Dag_Vertex d x of
        None \<Rightarrow> None
      | Some vertex \<Rightarrow>
          if isPinVertex h vertex then Some (ws, insert x vis)
          else Dag_visit_loop n h d (rev (edges_of d x) @ ws, insert x vis))"
| "Dag_visit_loop 0 h d st = None"
| "Dag_visit_loop (Suc n) h d (ws, vis) =
     (case ws of
        [] \<Rightarrow> Some ([], vis)
      | x # ws' \<Rightarrow>
          (if x \<notin> vis \<and> (case Dag_Vertex d x of None \<Rightarrow> False | Some v \<Rightarrow> \<not> isPinVertex h v) then
             (case Dag_visit n h d x (ws', vis) of
                None \<Rightarrow> None
              | Some st \<Rightarrow> Dag_visit_loop n h d st)
           else Dag_visit_loop n h d (ws', vis)))"

fun visit_all :: "nat \<Rightarrow> heap \<Rightarrow> Dag \<Rightarrow> uuid list \<Rightarrow> uuid list \<times> uuid set \<Rightarrow> (uuid list \<times> uuid set) option" where
  "visit_all n h d [] st = Some st"
| "visit_all n h d (x # xs) st =
     (case Dag_visit n h d x st of None \<Rightarrow> None | Some st' \<Rightarrow> visit_all n h d xs st')"

definition traverseDagSlice ::
  "nat \<Rightarrow> uuid visit_order \<Rightarrow> heap \<Rightarrow> uuid list \<Rightarrow> Dag \<Rightarrow> (uuid list \<times> Dag) option" where
  "traverseDagSlice fuel ord h xs d =
     (let d1 = updateMappedEdges h (updateMappedVertices h d) in
      map_option (\<lambda>(ws, vis). (ord vis, d1)) (visit_all fuel h d1 xs ([], {})))"

definition pinTxIDs :: "nat \<Rightarrow> uuid visit_order \<Rightarrow> heap \<Rightarrow> uuid set \<Rightarrow> Dag \<Rightarrow> (uuid list \<times> Dag) option" where
  "pinTxIDs fuel ord h tips d = traverseDagSlice fuel ord h (ord tips) d"

definition dag_NodeToVertex :: "Node \<Rightarrow> Vertex" where
  "dag_NodeToVertex node =
     \<lparr>v_Id = \<lparr>vi_Id = nid_id (n_id node), vi_Address = [], vi_IdMajor = nid_idMajor (n_id node),
              vi_IdMinor = nid_idMinor (n_id node)\<rparr>,
      v_CumWeight = n_cumWeight node, v_TxWeight = n_txWeight node, v_Timestamp = n_time node,
      v_Tx = n_tx node\<rparr>"

definition getLatestDagSlice ::
  "nat \<Rightarrow> uuid visit_order \<Rightarrow> DGraph \<Rightarrow> heap \<Rightarrow> Dag \<Rightarrow> (Vertex list \<times> Edge list) option" where
  "getLatestDagSlice fuel ord g h d =
     (case GetTipVertices fuel g of
        None \<Rightarrow> None
      | Some tips \<Rightarrow>
          (case pinTxIDs fuel ord h tips d of
             None \<Rightarrow> None
           | Some (tipIds, d1) \<Rightarrow>
               (case traverseDagSlice fuel ord h tipIds d1 of
                  None \<Rightarrow> None
                | Some (sliceTxs, d2) \<Rightarrow>
                    if \<forall>x\<in>set sliceTxs. Dag_Vertex d2 x \<noteq> None then
                      Some (map (\<lambda>x. dag_NodeToVertex (h (the (Dag_Vertex d2 x)))) sliceTxs,
                            map (\<lambda>x. \<lparr>Edge_Vertex = x, Edges = edges_of d2 x\<rparr>) sliceTxs)
                    else None)))"

section \<open>Searching with a shared stack\<close>

text \<open>
  The contract of both searches: what one round of the loop and one visit do. \<open>nexts v\<close> are the
  vertices a visit pushes, \<open>None\<close> when it returns without looking at the stack; a skipped vertex is popped
  and forgotten; a good vertex can be visited without a panic.
\<close>

locale worklist =
  fixes visit :: "nat \<Rightarrow> 'v \<Rightarrow> 'v list \<times> 'v set \<Rightarrow> ('v list \<times> 'v set) option"
    and loop :: "nat \<Rightarrow> 'v list \<times> 'v set \<Rightarrow> ('v list \<times> 'v set) option"
    and nexts :: "'v \<Rightarrow> 'v list option"
    and skip :: "'v \<Rightarrow> bool"
    and good :: "'v \<Rightarrow> bool"
  assumes loop_done: "loop (Suc n) ([], vis) = Some ([], vis)"
    and loop_skip: "x \<in> vis \<or> skip x \<Longrightarrow> loop (Suc n) (x # ws, vis) = loop n (ws, vis)"
    and loop_visit: "x \<notin> vis \<Longrightarrow> \<not> skip x \<Longrightarrow> good x \<Longrightarrow>
      loop (Suc n) (x # ws, vis) = Option.bind (visit n x (ws, vis)) (loop n)"
    and visit_stop: "good v \<Longrightarrow> nexts v = None \<Longrightarrow> visit (Suc n) v (ws, vis) = Some (ws, insert v vis)"
    and visit_push: "good v \<Longrightarrow> nexts v = Some es \<Longrightarrow>
      visit (Suc n) v (ws, vis) = loop n (rev es @ ws, insert v vis)"
begin

definition edge :: "'v \<Rightarrow> 'v \<Rightarrow> bool" where
  "edge u w \<longleftrightarrow> (\<exists>es. nexts u = Some es \<and> w \<in> set es \<and> \<not> skip w)"

definition pushes :: "'v \<Rightarrow> nat" where
  "pushes v = (case nexts v of None \<Rightarrow> 0 | Some es \<Rightarrow> length es)"

definition work :: "'v set \<Rightarrow> 'v set \<Rightarrow> nat" where
  "work R vis = (\<Sum>u\<in>R - vis. Suc (pushes u))"

definition reach :: "'v list \<Rightarrow> 'v set" where
  "reach ws = {w. \<exists>u\<in>set ws. \<not> skip u \<and> edge\<^sup>*\<^sup>* u w}"

definition region :: "'v set \<Rightarrow> bool" where
  "region R \<longleftrightarrow> finite R \<and> (\<forall>u\<in>R. good u) \<and> (\<forall>u\<in>R. \<forall>w. edge u w \<longrightarrow> w \<in> R)"

lemma work_insert: "finite R \<Longrightarrow> v \<in> R \<Longrightarrow> v \<notin> vis \<Longrightarrow> work R vis = Suc (pushes v) + work R (insert v vis)"
proof -
  assume "finite R" "v \<in> R" "v \<notin> vis"
  then have eq: "insert v (R - insert v vis) = R - vis" and fin: "finite (R - insert v vis)" by auto
  have "(\<Sum>u\<in>insert v (R - insert v vis). Suc (pushes u)) = Suc (pushes v) + (\<Sum>u\<in>R - insert v vis. Suc (pushes u))"
    using fin by (rule sum.insert) simp
  then show ?thesis unfolding work_def eq .
qed

lemma work_mono: "finite R \<Longrightarrow> vis \<subseteq> vis' \<Longrightarrow> work R vis' \<le> work R vis"
  unfolding work_def by (rule sum_mono2) auto

text \<open>What a run of the loop and of a visit achieve.\<close>

definition loop_result :: "'v list \<Rightarrow> 'v set \<Rightarrow> 'v set \<Rightarrow> bool" where
  "loop_result ws vis vis' \<longleftrightarrow>
     vis \<subseteq> vis' \<and> vis' \<subseteq> vis \<union> reach ws \<and> (\<forall>u\<in>set ws. \<not> skip u \<longrightarrow> u \<in> vis') \<and>
     (\<forall>u\<in>vis' - vis. \<forall>w. edge u w \<longrightarrow> w \<in> vis')"

definition visit_result :: "'v \<Rightarrow> 'v list \<Rightarrow> 'v set \<Rightarrow> 'v list \<Rightarrow> 'v set \<Rightarrow> bool" where
  "visit_result v ws vis ws' vis' \<longleftrightarrow>
     insert v vis \<subseteq> vis' \<and> vis' \<subseteq> vis \<union> {w. edge\<^sup>*\<^sup>* v w} \<union> reach ws \<and>
     (ws' = ws \<or> ws' = [] \<and> (\<forall>u\<in>set ws. \<not> skip u \<longrightarrow> u \<in> vis')) \<and>
     (\<forall>u\<in>insert v (vis' - vis). \<forall>w. edge u w \<longrightarrow> w \<in> vis')"

lemma reach_Cons: "reach (x # ws) = (if skip x then {} else {w. edge\<^sup>*\<^sup>* x w}) \<union> reach ws"
  by (auto simp: reach_def)

lemma reach_push: "nexts v = Some es \<Longrightarrow> reach (rev es @ ws) \<subseteq> {w. edge\<^sup>*\<^sup>* v w} \<union> reach ws"
proof
  fix w assume v: "nexts v = Some es" and "w \<in> reach (rev es @ ws)"
  then obtain u where u: "u \<in> set es \<or> u \<in> set ws" "\<not> skip u" "edge\<^sup>*\<^sup>* u w" by (auto simp: reach_def)
  show "w \<in> {w. edge\<^sup>*\<^sup>* v w} \<union> reach ws"
  proof (cases "u \<in> set es")
    case True
    then have "edge v u" using v u(2) by (auto simp: edge_def)
    then show ?thesis using u(3) by (auto intro: converse_rtranclp_into_rtranclp)
  next
    case False
    then show ?thesis using u by (auto simp: reach_def)
  qed
qed

lemma visit_from_loop:
  assumes "nexts v = Some es" and "loop_result (rev es @ ws) (insert v vis) vis'"
  shows "visit_result v ws vis [] vis'"
proof -
  have e: "\<forall>w. edge v w \<longrightarrow> w \<in> vis'" using assms by (auto simp: loop_result_def edge_def)
  have 1: "insert v vis \<subseteq> vis'" and 2: "vis' \<subseteq> insert v vis \<union> reach (rev es @ ws)"
    and 3: "\<forall>u\<in>set ws. \<not> skip u \<longrightarrow> u \<in> vis'"
    and 4: "\<forall>u\<in>vis' - insert v vis. \<forall>w. edge u w \<longrightarrow> w \<in> vis'"
    using assms(2) by (simp_all add: loop_result_def)
  have "insert v vis \<union> reach (rev es @ ws) \<subseteq> vis \<union> {w. edge\<^sup>*\<^sup>* v w} \<union> reach ws"
    using reach_push [OF assms(1), of ws] by auto
  with 2 have "vis' \<subseteq> vis \<union> {w. edge\<^sup>*\<^sup>* v w} \<union> reach ws" by (rule subset_trans)
  moreover have "\<forall>u\<in>insert v (vis' - vis). \<forall>w. edge u w \<longrightarrow> w \<in> vis'" using e 4 by blast
  ultimately show ?thesis unfolding visit_result_def using 1 3 by blast
qed

lemma loop_after_visit:
  assumes "visit_result x ws vis ws' vis1" and "\<not> skip x" and "loop_result ws' vis1 vis'"
  shows "loop_result (x # ws) vis vis'"
proof -
  have v: "insert x vis \<subseteq> vis1" "vis1 \<subseteq> vis \<union> {w. edge\<^sup>*\<^sup>* x w} \<union> reach ws"
      "ws' = ws \<or> ws' = [] \<and> (\<forall>u\<in>set ws. \<not> skip u \<longrightarrow> u \<in> vis1)"
      "\<forall>u\<in>insert x (vis1 - vis). \<forall>w. edge u w \<longrightarrow> w \<in> vis1"
    using assms(1) by (simp_all add: visit_result_def)
  have l: "vis1 \<subseteq> vis'" "vis' \<subseteq> vis1 \<union> reach ws'" "\<forall>u\<in>set ws'. \<not> skip u \<longrightarrow> u \<in> vis'"
      "\<forall>u\<in>vis' - vis1. \<forall>w. edge u w \<longrightarrow> w \<in> vis'"
    using assms(3) by (simp_all add: loop_result_def)
  have "reach ws' \<subseteq> reach ws" using v(3) by (auto simp: reach_def)
  then have "vis' \<subseteq> vis \<union> reach (x # ws)" using l(2) v(2) assms(2) unfolding reach_Cons by auto
  moreover have "\<forall>u\<in>set (x # ws). \<not> skip u \<longrightarrow> u \<in> vis'" using v(1,3) l(1,3) by auto
  moreover have "\<forall>u\<in>vis' - vis. \<forall>w. edge u w \<longrightarrow> w \<in> vis'" using v(4) l(1,4) by blast
  ultimately show ?thesis unfolding loop_result_def using v(1) l(1) by blast
qed

lemma search_spec:
  assumes "region R"
  shows "\<lbrakk>\<forall>u\<in>set ws. \<not> skip u \<longrightarrow> u \<in> R; 2 * (length ws + work R vis) < n\<rbrakk> \<Longrightarrow>
           \<exists>vis'. loop n (ws, vis) = Some ([], vis') \<and> loop_result ws vis vis'"
    and "\<lbrakk>v \<in> R; \<forall>u\<in>set ws. \<not> skip u \<longrightarrow> u \<in> R; 2 * (length ws + pushes v + work R (insert v vis)) + 1 < n\<rbrakk> \<Longrightarrow>
           \<exists>ws' vis'. visit n v (ws, vis) = Some (ws', vis') \<and> visit_result v ws vis ws' vis'"
proof (induction n arbitrary: ws vis v)
  case 0
  { case 1 then show ?case by simp }
  { case 2 then show ?case by simp }
next
  case (Suc n)
  have R: "finite R" "\<And>u. u \<in> R \<Longrightarrow> good u" "\<And>u w. u \<in> R \<Longrightarrow> edge u w \<Longrightarrow> w \<in> R"
    using assms by (auto simp: region_def)
  { case 1
    show ?case
    proof (cases ws)
      case Nil
      then show ?thesis by (simp add: loop_done loop_result_def)
    next
      case (Cons x xs)
      show ?thesis
      proof (cases "x \<in> vis \<or> skip x")
        case True
        then obtain vis' where "loop n (xs, vis) = Some ([], vis')" "loop_result xs vis vis'"
          using Suc.IH(1) [of xs vis] 1 Cons by auto
        then show ?thesis using True Cons by (auto simp: loop_skip loop_result_def reach_Cons)
      next
        case False
        then have x: "x \<in> R" using 1 Cons by auto
        have w: "work R vis = Suc (pushes x) + work R (insert x vis)" using work_insert R(1) x False by blast
        obtain ws' vis1 where v: "visit n x (xs, vis) = Some (ws', vis1)" "visit_result x xs vis ws' vis1"
          using Suc.IH(2) [of x xs vis] x 1 Cons w by auto
        have "work R vis1 \<le> work R vis" using work_mono R(1) v(2) by (auto simp: visit_result_def)
        moreover have "length ws' \<le> length xs" "\<forall>u\<in>set ws'. \<not> skip u \<longrightarrow> u \<in> R"
          using v(2) 1(1) Cons by (auto simp: visit_result_def)
        ultimately obtain vis' where "loop n (ws', vis1) = Some ([], vis')" "loop_result ws' vis1 vis'"
          using Suc.IH(1) [of ws' vis1] 1(2) Cons by auto
        then show ?thesis
          using v False Cons R(2) [OF x] loop_after_visit by (auto simp: loop_visit)
      qed
    qed }
  { case 2
    show ?case
    proof (cases "nexts v")
      case None
      then have "\<not> edge v w" for w by (simp add: edge_def)
      then show ?thesis using None R(2) 2(1) by (auto simp: visit_stop visit_result_def)
    next
      case (Some es)
      have "\<forall>u\<in>set (rev es @ ws). \<not> skip u \<longrightarrow> u \<in> R" using 2(1,2) R(3) Some by (auto simp: edge_def)
      moreover have "2 * (length (rev es @ ws) + work R (insert v vis)) < n"
        using 2(3) Some by (simp add: pushes_def)
      ultimately obtain vis' where "loop n (rev es @ ws, insert v vis) = Some ([], vis')"
          "loop_result (rev es @ ws) (insert v vis) vis'" using Suc.IH(1) by blast
      then show ?thesis using visit_from_loop [OF Some] 2(1) R(2) Some by (auto simp: visit_push)
    qed }
qed

text \<open>A visit from a closed set of visited vertices adds exactly what can be reached.\<close>

lemma visit_exact:
  assumes "region R" and "v \<in> R" and "2 * (\<Sum>u\<in>R. Suc (pushes u)) + 1 < n"
    and "\<forall>u\<in>vis. \<forall>w. edge u w \<longrightarrow> w \<in> vis"
  shows "visit n v ([], vis) = Some ([], vis \<union> {w. edge\<^sup>*\<^sup>* v w})"
proof -
  have "pushes v + work R (insert v vis) \<le> (\<Sum>u\<in>R. Suc (pushes u))"
  proof -
    have fin: "finite R" using assms(1) by (simp add: region_def)
    have "pushes v + work R (insert v vis) \<le> pushes v + work R {v}" using work_mono [OF fin] by simp
    also have "\<dots> \<le> work R {}" using work_insert [OF fin assms(2), of "{}"] by simp
    finally show ?thesis by (simp add: work_def)
  qed
  then obtain ws' vis' where v: "visit n v ([], vis) = Some (ws', vis')" "visit_result v [] vis ws' vis'"
    using search_spec(2) [OF assms(1,2), of "[]" vis n] assms(3) by auto
  have cl: "edge u w \<Longrightarrow> w \<in> vis'" if "u \<in> vis'" for u w
    using v(2) assms(4) that unfolding visit_result_def by blast
  have "edge\<^sup>*\<^sup>* v w \<Longrightarrow> w \<in> vis'" for w
  proof (induction rule: rtranclp_induct)
    case base
    then show ?case using v(2) by (simp add: visit_result_def)
  next
    case (step a b)
    then show ?case using cl by blast
  qed
  then have "vis' = vis \<union> {w. edge\<^sup>*\<^sup>* v w}" using v(2) by (auto simp: visit_result_def reach_def)
  then show ?thesis using v by (auto simp: visit_result_def)
qed

end

section \<open>The slices of the DAG\<close>

definition slice_skip :: "heap \<Rightarrow> Dag \<Rightarrow> uuid \<Rightarrow> bool" where
  "slice_skip h d x \<longleftrightarrow> (case Dag_Vertex d x of None \<Rightarrow> True | Some v \<Rightarrow> isPinVertex h v)"

definition slice_nexts :: "heap \<Rightarrow> Dag \<Rightarrow> uuid \<Rightarrow> uuid list option" where
  "slice_nexts h d x =
     (case Dag_Vertex d x of
        None \<Rightarrow> None
      | Some v \<Rightarrow> if isPinVertex h v then None else Some (edges_of d x))"

interpretation slice: worklist "\<lambda>n. Dag_visit n h d" "\<lambda>n. Dag_visit_loop n h d" "slice_nexts h d"
    "slice_skip h d" "\<lambda>x. Dag_Vertex d x \<noteq> None" for h d
proof
  fix n x ws vis
  assume "x \<notin> vis" "\<not> slice_skip h d x"
  then show "Dag_visit_loop (Suc n) h d (x # ws, vis) = Option.bind (Dag_visit n h d x (ws, vis)) (Dag_visit_loop n h d)"
    by (auto simp: slice_skip_def split: option.splits)
qed (auto simp: slice_skip_def slice_nexts_def split: option.splits if_splits)

text \<open>One step of the traversal: from a vertex that is not a pin to a known target that is not a pin.\<close>

definition slice_edge :: "heap \<Rightarrow> Dag \<Rightarrow> uuid \<Rightarrow> uuid \<Rightarrow> bool" where
  "slice_edge h d x y \<longleftrightarrow>
     (\<exists>v w. Dag_Vertex d x = Some v \<and> \<not> isPinVertex h v \<and> y \<in> set (edges_of d x) \<and>
            Dag_Vertex d y = Some w \<and> \<not> isPinVertex h w)"

lemma slice_edge_eq: "slice.edge h d = slice_edge h d"
  by (auto simp: fun_eq_iff slice.edge_def slice_edge_def slice_nexts_def slice_skip_def split: option.splits if_splits)

definition slice_fuel :: "Dag \<Rightarrow> nat" where
  "slice_fuel d = 2 * (\<Sum>x\<in>dom (dg_vertices d). Suc (length (edges_of d x))) + 2"

lemma slice_pushes: "slice.pushes h d x \<le> length (edges_of d x)"
  by (simp add: slice.pushes_def slice_nexts_def split: option.splits)

lemma Dag_visit_exact:
  assumes "finite (dom (dg_vertices d))" and "Dag_Vertex d x \<noteq> None" and "slice_fuel d \<le> n"
    and "\<forall>u\<in>vis. \<forall>w. slice_edge h d u w \<longrightarrow> w \<in> vis"
  shows "Dag_visit n h d x ([], vis) = Some ([], vis \<union> {w. (slice_edge h d)\<^sup>*\<^sup>* x w})"
proof -
  let ?R = "dom (dg_vertices d)"
  have "slice.region h d ?R"
    unfolding slice.region_def slice_edge_eq using assms(1) by (auto simp: slice_edge_def Dag_Vertex_def)
  moreover have "x \<in> ?R" using assms(2) by (auto simp: Dag_Vertex_def)
  moreover have "(\<Sum>u\<in>?R. Suc (slice.pushes h d u)) \<le> (\<Sum>u\<in>?R. Suc (length (edges_of d u)))"
    by (rule sum_mono) (simp add: slice_pushes)
  then have "2 * (\<Sum>u\<in>?R. Suc (slice.pushes h d u)) + 1 < n" using assms(3) by (simp add: slice_fuel_def)
  ultimately show ?thesis using slice.visit_exact [of h d ?R x n vis] assms(4) by (simp add: slice_edge_eq)
qed

lemma visit_all_exact:
  assumes "finite (dom (dg_vertices d))" and "\<forall>x\<in>set xs. Dag_Vertex d x \<noteq> None" and "slice_fuel d \<le> n"
    and "\<forall>u\<in>vis. \<forall>w. slice_edge h d u w \<longrightarrow> w \<in> vis"
  shows "visit_all n h d xs ([], vis) = Some ([], vis \<union> {y. \<exists>x\<in>set xs. (slice_edge h d)\<^sup>*\<^sup>* x y})"
  using assms(2,4)
proof (induction xs arbitrary: vis)
  case (Cons x xs)
  let ?vis = "vis \<union> {w. (slice_edge h d)\<^sup>*\<^sup>* x w}"
  have "\<forall>u\<in>?vis. \<forall>w. slice_edge h d u w \<longrightarrow> w \<in> ?vis"
    using Cons.prems(2) by (auto intro: rtranclp.rtrancl_into_rtrancl)
  then have "visit_all n h d xs ([], ?vis) = Some ([], ?vis \<union> {y. \<exists>x\<in>set xs. (slice_edge h d)\<^sup>*\<^sup>* x y})"
    using Cons by auto
  moreover have "Dag_visit n h d x ([], vis) = Some ([], ?vis)"
    using Dag_visit_exact [OF assms(1) _ assms(3) Cons.prems(2)] Cons.prems(1) by simp
  ultimately show ?case by auto
qed simp

section \<open>The tips of the graph\<close>

lemma DGraph_tips:
  "DGraph_visit n g v (ws, vis, tips) =
     map_option (\<lambda>(ws', vis', t). (ws', vis', tips \<union> t)) (DGraph_visit n g v (ws, vis, {}))"
  "DGraph_loop n g (ws, vis, tips) =
     map_option (\<lambda>(ws', vis', t). (ws', vis', tips \<union> t)) (DGraph_loop n g (ws, vis, {}))"
proof (induction n arbitrary: v ws vis tips)
  case 0
  { case 1 then show ?case by simp }
  { case 2 then show ?case by simp }
next
  case (Suc n)
  { case 1
    show ?case
      using Suc.IH(2) [of "rev (map de_to (dv_edges v)) @ ws" "insert (dv_id v) vis" "insert (dv_id v) tips"]
        Suc.IH(2) [of "rev (map de_to (dv_edges v)) @ ws" "insert (dv_id v) vis" "{dv_id v}"]
        Suc.IH(2) [of "rev (map de_to (dv_edges v)) @ ws" "insert (dv_id v) vis" tips]
      by (auto simp: Let_def option.map_comp comp_def split: prod.splits intro!: option.map_cong) }
  { case 2
    show ?case
    proof (cases ws)
      case (Cons x ws')
      show ?thesis
      proof (cases "x \<in> vis \<or> g x = None")
        case True
        then show ?thesis using Cons Suc.IH(2) [of ws' vis tips] by auto
      next
        case False
        then obtain v where v: "g x = Some v" "x \<notin> vis" by auto
        show ?thesis
        proof (cases "DGraph_visit n g v (ws', vis, {})")
          case None
          then show ?thesis using Cons v Suc.IH(1) [of v ws' vis tips] by simp
        next
          case (Some st)
          obtain ws1 vis1 t1 where st: "st = (ws1, vis1, t1)" by (cases st)
          have "DGraph_visit n g v (ws', vis, tips) = Some (ws1, vis1, tips \<union> t1)"
            using Suc.IH(1) [of v ws' vis tips] Some st by simp
          then show ?thesis
            using Cons v Some st Suc.IH(2) [of ws1 vis1 "tips \<union> t1"] Suc.IH(2) [of ws1 vis1 t1]
            by (cases "DGraph_loop n g (ws1, vis1, {})") auto
        qed
      qed
    qed simp }
qed

definition few :: "DGraph \<Rightarrow> uuid \<Rightarrow> bool" where
  "few g x \<longleftrightarrow> (\<exists>v. g x = Some v \<and> length (dv_edges v) < 2)"

definition graph_ok :: "DGraph \<Rightarrow> bool" where
  "graph_ok g \<longleftrightarrow>
     finite (dom g) \<and> (\<forall>x v. g x = Some v \<longrightarrow> dv_id v = x \<and> (\<forall>e\<in>set (dv_edges v). de_to e \<in> dom g))"

text \<open>The tips found are the vertices with fewer than two edges among those visited on the way.\<close>

lemma DGraph_tips_few:
  assumes "graph_ok g"
  shows "\<lbrakk>DGraph_visit n g v (ws, vis, {}) = Some (ws', vis', t); g (dv_id v) = Some v\<rbrakk> \<Longrightarrow>
           insert (dv_id v) vis \<subseteq> vis' \<and> t = {u \<in> insert (dv_id v) (vis' - vis). few g u}"
    and "DGraph_loop n g (ws, vis, {}) = Some (ws', vis', t) \<Longrightarrow>
           vis \<subseteq> vis' \<and> t = {u \<in> vis' - vis. few g u}"
proof (induction n arbitrary: v ws vis ws' vis' t)
  case 0
  { case 1 then show ?case by simp }
  { case 2 then show ?case by simp }
next
  case (Suc n)
  { case 1
    let ?x = "dv_id v" let ?t = "if length (dv_edges v) < 2 then {dv_id v} else {}"
    have few: "few g ?x \<longleftrightarrow> length (dv_edges v) < 2" using 1(2) by (simp add: few_def)
    show ?case
    proof (cases "dv_edges v = []")
      case True
      then show ?thesis using 1 few by auto
    next
      case False
      then have "DGraph_loop n g (rev (map de_to (dv_edges v)) @ ws, insert ?x vis, ?t) = Some (ws', vis', t)"
        using 1(1) by (simp add: Let_def)
      then obtain t' where t': "DGraph_loop n g (rev (map de_to (dv_edges v)) @ ws, insert ?x vis, {}) = Some (ws', vis', t')"
          "t = ?t \<union> t'"
        using DGraph_tips(2) [of n g _ _ ?t] by auto
      show ?thesis using Suc.IH(2) [OF t'(1)] t'(2) few by (auto split: if_splits)
    qed }
  { case 2
    show ?case
    proof (cases ws)
      case (Cons x xs)
      show ?thesis
      proof (cases "x \<in> vis")
        case True
        then show ?thesis using 2 Cons Suc.IH(2) [of xs vis] by simp
      next
        case False
        then obtain v ws1 vis1 t1 where v: "g x = Some v" and v1: "DGraph_visit n g v (xs, vis, {}) = Some (ws1, vis1, t1)"
            and l: "DGraph_loop n g (ws1, vis1, t1) = Some (ws', vis', t)"
          using 2 Cons by (auto split: option.splits)
        have x: "dv_id v = x" using assms v by (simp add: graph_ok_def)
        obtain t2 where t2: "DGraph_loop n g (ws1, vis1, {}) = Some (ws', vis', t2)" "t = t1 \<union> t2"
          using l DGraph_tips(2) [of n g ws1 vis1 t1] by auto
        show ?thesis
          using Suc.IH(1) [OF v1] Suc.IH(2) [OF t2(1)] t2(2) v x False by auto
      qed
    qed (use 2 in simp) }
qed

text \<open>
  The search of the graph without its tips. Every vertex of a graph that satisfies \<open>graph_ok\<close> is good.
\<close>

definition seen :: "search option \<Rightarrow> (uuid list \<times> uuid set) option" where
  "seen r = map_option (\<lambda>(ws, vis, tips). (ws, vis)) r"

definition seen_visit :: "DGraph \<Rightarrow> nat \<Rightarrow> uuid \<Rightarrow> uuid list \<times> uuid set \<Rightarrow> (uuid list \<times> uuid set) option" where
  "seen_visit g n x st = seen (DGraph_visit n g (the (g x)) (fst st, snd st, {}))"

definition seen_loop :: "DGraph \<Rightarrow> nat \<Rightarrow> uuid list \<times> uuid set \<Rightarrow> (uuid list \<times> uuid set) option" where
  "seen_loop g n st = seen (DGraph_loop n g (fst st, snd st, {}))"

definition tip_nexts :: "DGraph \<Rightarrow> uuid \<Rightarrow> uuid list option" where
  "tip_nexts g x =
     (case g x of
        None \<Rightarrow> None
      | Some v \<Rightarrow> if dv_edges v = [] then None else Some (map de_to (dv_edges v)))"

lemma seen_loop_tips: "seen (DGraph_loop n g (ws, vis, tips)) = seen_loop g n (ws, vis)"
  by (subst DGraph_tips(2)) (auto simp: seen_loop_def seen_def option.map_comp comp_def intro!: option.map_cong)

interpretation tips: worklist "\<lambda>n. seen_visit g n" "\<lambda>n. seen_loop g n" "tip_nexts g"
    "\<lambda>x. False" "\<lambda>x. \<exists>v. g x = Some v \<and> dv_id v = x" for g
proof
  fix n x ws and vis :: "uuid set"
  assume "x \<notin> vis" "\<exists>v. g x = Some v \<and> dv_id v = x"
  then obtain v where v: "g x = Some v" "x \<notin> vis" by blast
  show "seen_loop g (Suc n) (x # ws, vis) = Option.bind (seen_visit g n x (ws, vis)) (seen_loop g n)"
  proof (cases "DGraph_visit n g v (ws, vis, {})")
    case None
    then show ?thesis using v by (simp add: seen_loop_def seen_visit_def seen_def)
  next
    case (Some st)
    obtain ws1 vis1 t1 where st: "st = (ws1, vis1, t1)" by (cases st)
    have "seen_visit g n x (ws, vis) = Some (ws1, vis1)" using v Some st by (simp add: seen_visit_def seen_def)
    moreover have "seen_loop g (Suc n) (x # ws, vis) = seen (DGraph_loop n g (ws1, vis1, t1))"
      using v Some st by (simp add: seen_loop_def)
    ultimately show ?thesis by (simp add: seen_loop_tips)
  qed
next
  fix n v es ws and vis :: "uuid set"
  assume "\<exists>a. g v = Some a \<and> dv_id a = v" and "tip_nexts g v = Some es"
  then show "seen_visit g (Suc n) v (ws, vis) = seen_loop g n (rev es @ ws, insert v vis)"
    by (auto simp: seen_visit_def tip_nexts_def Let_def seen_loop_tips split: if_splits)
qed (auto simp: seen_loop_def seen_visit_def seen_def tip_nexts_def Let_def split: if_splits)

definition graph_edge :: "DGraph \<Rightarrow> uuid \<Rightarrow> uuid \<Rightarrow> bool" where
  "graph_edge g x y \<longleftrightarrow> (\<exists>v. g x = Some v \<and> y \<in> de_to ` set (dv_edges v))"

lemma graph_edge_eq: "tips.edge g = graph_edge g"
  by (auto simp: fun_eq_iff tips.edge_def graph_edge_def tip_nexts_def split: option.splits if_splits)

definition graph_fuel :: "DGraph \<Rightarrow> nat" where
  "graph_fuel g = 2 * (\<Sum>x\<in>dom g. Suc (length (dv_edges (the (g x))))) + 2"

lemma GetTipVertices_exact:
  assumes ok: "graph_ok g" and v: "g uuid_Nil = Some v" and fuel: "graph_fuel g \<le> n"
  shows "GetTipVertices n g = Some {x. (graph_edge g)\<^sup>*\<^sup>* uuid_Nil x \<and> few g x}"
proof -
  have "tips.pushes g u \<le> length (dv_edges (the (g u)))" if "u \<in> dom g" for u
    using that by (auto simp: tips.pushes_def tip_nexts_def)
  then have "(\<Sum>u\<in>dom g. Suc (tips.pushes g u)) \<le> (\<Sum>u\<in>dom g. Suc (length (dv_edges (the (g u)))))"
    by (auto intro: sum_mono)
  then have "2 * (\<Sum>u\<in>dom g. Suc (tips.pushes g u)) + 1 < n" using fuel by (simp add: graph_fuel_def)
  moreover have "tips.region g (dom g)"
    using ok unfolding tips.region_def graph_edge_eq by (fastforce simp: graph_ok_def graph_edge_def)
  moreover have "uuid_Nil \<in> dom g" using v by blast
  ultimately have "seen_visit g n uuid_Nil ([], {}) = Some ([], {w. (graph_edge g)\<^sup>*\<^sup>* uuid_Nil w})"
    using tips.visit_exact [of g "dom g" uuid_Nil n "{}"] by (simp add: graph_edge_eq)
  then obtain t where t: "DGraph_visit n g v ([], {}, {}) = Some ([], {w. (graph_edge g)\<^sup>*\<^sup>* uuid_Nil w}, t)"
    using v by (auto simp: seen_visit_def seen_def)
  have "g (dv_id v) = Some v" "dv_id v = uuid_Nil" using ok v by (auto simp: graph_ok_def)
  then have "t = {u \<in> insert uuid_Nil {w. (graph_edge g)\<^sup>*\<^sup>* uuid_Nil w}. few g u}"
    using DGraph_tips_few(1) [OF ok t] by simp
  then show ?thesis using v t by (auto simp: GetTipVertices_def)
qed

section \<open>What the watcher builds\<close>

lemma NewGraph_ok: "graph_ok NewGraph"
  by (simp add: graph_ok_def NewGraph_def)

lemma AddVertex_ok: "graph_ok g \<Longrightarrow> dv_edges v = [] \<Longrightarrow> graph_ok (AddVertex v g)"
  by (auto simp: graph_ok_def AddVertex_def)

lemma graph_ok_upd:
  "graph_ok g \<Longrightarrow> x \<in> dom g \<Longrightarrow> dv_id v = x \<Longrightarrow> \<forall>e\<in>set (dv_edges v). de_to e \<in> dom g \<Longrightarrow> graph_ok (g(x \<mapsto> v))"
  by (auto simp: graph_ok_def)

lemma notify_edge_dom: "vid \<in> dom g \<Longrightarrow> dom (notify_edge vid fresh e g) = dom g"
  by (auto simp: notify_edge_def Let_def split: option.splits)

lemma notify_edge_ok:
  assumes "graph_ok g" and "vid \<in> dom g"
  shows "graph_ok (notify_edge vid fresh e g)"
proof (cases "g (nid_id (n_id e))")
  case None
  then show ?thesis using assms(1) by (simp add: notify_edge_def Let_def)
next
  case (Some s)
  let ?src = "nid_id (n_id e)" let ?g1 = "g(?src \<mapsto> AddEdge (NewEdge ?src vid) s)"
  have ok1: "graph_ok ?g1"
    using assms Some by (intro graph_ok_upd) (auto simp: graph_ok_def AddEdge_def NewEdge_def)
  have "vid \<in> dom ?g1" using assms(2) by simp
  then obtain w where w: "?g1 vid = Some w" by blast
  have "graph_ok (?g1(vid \<mapsto> SetDepth (dv_depth s + 1) w))"
  proof (rule graph_ok_upd [OF ok1])
    show "vid \<in> dom ?g1" using w by blast
    have "dv_id w = vid \<and> (\<forall>e\<in>set (dv_edges w). de_to e \<in> dom ?g1)" using ok1 w unfolding graph_ok_def by blast
    then show "dv_id (SetDepth (dv_depth s + 1) w) = vid"
      and "\<forall>e\<in>set (dv_edges (SetDepth (dv_depth s + 1) w)). de_to e \<in> dom ?g1" by (simp_all add: SetDepth_def)
  qed
  then show ?thesis using Some w ok1 by (simp add: notify_edge_def Let_def del: fun_upd_apply)
qed

lemma notify_edges_ok:
  "graph_ok g \<Longrightarrow> vid \<in> dom g \<Longrightarrow>
     graph_ok (fold (notify_edge vid fresh) es g) \<and> dom (fold (notify_edge vid fresh) es g) = dom g"
  by (induction es arbitrary: g) (simp_all add: notify_edge_ok notify_edge_dom)

lemma AddVertex_dom: "dom (AddVertex v g) = insert (dv_id v) (dom g)"
  by (auto simp: AddVertex_def)

lemma Notify_graph:
  assumes "graph_ok (fst st)"
  shows "graph_ok (fst (Notify m st)) \<and>
         dom (fst (Notify m st)) = insert (nid_id (n_id (tv_vertex m))) (dom (fst st))"
proof -
  let ?v = "NewVertex (nid_id (n_id (tv_vertex m))) (nid_idMajor (n_id (tv_vertex m))) (nid_idMinor (n_id (tv_vertex m)))"
  have "graph_ok (AddVertex ?v (fst st))" using assms by (intro AddVertex_ok) (simp_all add: NewVertex_def)
  then show ?thesis
    using notify_edges_ok [of "AddVertex ?v (fst st)" "nid_id (n_id (tv_vertex m))"]
    by (cases st) (simp add: Notify_def Let_def AddVertex_dom, simp add: NewVertex_def)
qed

lemma Notify_all_graph:
  "graph_ok (fst st) \<Longrightarrow>
     graph_ok (fst (fold Notify ms st)) \<and>
     dom (fst (fold Notify ms st)) = (\<lambda>m. nid_id (n_id (tv_vertex m))) ` set ms \<union> dom (fst st)"
proof (induction ms arbitrary: st)
  case (Cons m ms)
  then show ?case using Notify_graph [OF Cons.prems, of m] Cons.IH [of "Notify m st"] by auto
qed simp

section \<open>The maps of the DAG\<close>

lemma fold_self_map: "fold (\<lambda>v m. m(f v \<mapsto> v)) xs m = m ++ map_of (rev (map (\<lambda>v. (f v, v)) xs))"
  by (induction xs arbitrary: m) (simp_all add: map_add_upd_left map_add_def fun_eq_iff split: option.splits)

lemma map_add_absorb: "m ++ n ++ n = m ++ n"
  by (simp add: map_add_def fun_eq_iff split: option.splits)

lemma updateMappedVertices_idem:
  "updateMappedVertices h (updateMappedVertices h d) = updateMappedVertices h d"
  by (simp add: updateMappedVertices_def fold_self_map map_add_absorb)

lemma updateMappedVertices_dom:
  "dom (dg_vertices (updateMappedVertices h d)) = dom (dg_vertices d) \<union> node_uuid h ` set (dg_dag d)"
  by (simp add: updateMappedVertices_def fold_self_map dom_map_of_conv_image_fst image_image Un_commute)

lemma mapEdge_one_keeps:
  "dg_links (mapEdge_one h l d) = dg_links d" "dg_dag (mapEdge_one h l d) = dg_dag d"
  "dg_vertices (mapEdge_one h l d) = dg_vertices d"
  by (simp_all add: mapEdge_one_def Let_def split: option.splits)

lemma edges_of_upd: "edges_of (d\<lparr>dg_edges := (dg_edges d)(s \<mapsto> es)\<rparr>) x = (if x = s then es else edges_of d x)"
  by (simp add: edges_of_def)

lemma mapEdge_one_edges:
  "set (edges_of (mapEdge_one h l d) x) =
     set (edges_of d x) \<union> (if x = node_uuid h (link_source l) then {node_uuid h (link_target l)} else {})"
proof (cases "goFind (\<lambda>i. i = node_uuid h (link_target l)) (edges_of d (node_uuid h (link_source l)))")
  case None
  then show ?thesis by (simp add: mapEdge_one_def Let_def edges_of_upd)
next
  case (Some r)
  then have "node_uuid h (link_target l) \<in> set (edges_of d (node_uuid h (link_source l)))"
    using goFind_None_iff [of "\<lambda>i. i = node_uuid h (link_target l)" "edges_of d (node_uuid h (link_source l))"] by auto
  then show ?thesis using Some by (auto simp: mapEdge_one_def Let_def)
qed

lemma mapEdges_keeps:
  "dg_links (fold (mapEdge_one h) ls d) = dg_links d \<and> dg_dag (fold (mapEdge_one h) ls d) = dg_dag d \<and>
   dg_vertices (fold (mapEdge_one h) ls d) = dg_vertices d \<and>
   set (edges_of d x) \<subseteq> set (edges_of (fold (mapEdge_one h) ls d) x)"
proof (induction ls arbitrary: d)
  case (Cons l ls)
  then show ?case using Cons [of "mapEdge_one h l d"] mapEdge_one_keeps [of h l d] by (auto simp: mapEdge_one_edges)
qed simp

lemma mapEdges_mapped:
  "l \<in> set ls \<Longrightarrow>
     node_uuid h (link_target l) \<in> set (edges_of (fold (mapEdge_one h) ls d) (node_uuid h (link_source l)))"
proof (induction ls arbitrary: d)
  case (Cons k ls)
  then show ?case
    using mapEdges_keeps [of h ls "mapEdge_one h k d" "node_uuid h (link_source k)"] by (auto simp: mapEdge_one_edges)
qed simp

lemma mapEdges_id:
  "\<forall>l\<in>set ls. node_uuid h (link_target l) \<in> set (edges_of d (node_uuid h (link_source l))) \<Longrightarrow>
     fold (mapEdge_one h) ls d = d"
proof (induction ls)
  case (Cons l ls)
  then have "goFind (\<lambda>i. i = node_uuid h (link_target l)) (edges_of d (node_uuid h (link_source l))) \<noteq> None"
    by (auto simp: goFind_None_iff)
  then have "mapEdge_one h l d = d" by (auto simp: mapEdge_one_def Let_def)
  then show ?case using Cons by simp
qed simp

definition mapped :: "heap \<Rightarrow> Dag \<Rightarrow> Dag" where
  "mapped h d = updateMappedEdges h (updateMappedVertices h d)"

lemma mapped_vertices: "dg_vertices (mapped h d) = dg_vertices (updateMappedVertices h d)"
  using mapEdges_keeps by (simp add: mapped_def updateMappedEdges_def)

lemma mapped_finite: "finite (dom (dg_vertices d)) \<Longrightarrow> finite (dom (dg_vertices (mapped h d)))"
  by (simp add: mapped_vertices updateMappedVertices_dom)

lemma mapped_idem: "mapped h (mapped h d) = mapped h d"
proof -
  let ?d = "updateMappedVertices h d" let ?m = "mapped h d"
  have keeps: "dg_dag ?m = dg_dag ?d \<and> dg_links ?m = dg_links ?d \<and> dg_vertices ?m = dg_vertices ?d"
    using mapEdges_keeps by (simp add: mapped_def updateMappedEdges_def)
  have "dg_vertices (updateMappedVertices h ?m) = dg_vertices (updateMappedVertices h ?d)"
    using keeps by (simp add: updateMappedVertices_def)
  then have "dg_vertices (updateMappedVertices h ?m) = dg_vertices ?m"
    using keeps by (simp only: updateMappedVertices_idem)
  then have "updateMappedVertices h ?m = ?m" by (simp add: updateMappedVertices_def)
  moreover have "\<forall>l\<in>set (dg_links ?m). node_uuid h (link_target l) \<in> set (edges_of ?m (node_uuid h (link_source l)))"
    using keeps mapEdges_mapped [of _ "dg_links ?d" h ?d] by (auto simp: mapped_def updateMappedEdges_def)
  then have "updateMappedEdges h ?m = ?m" by (simp add: updateMappedEdges_def mapEdges_id)
  ultimately show ?thesis by (simp add: mapped_def [of h ?m])
qed

lemma slice_reach_known: "(slice_edge h d)\<^sup>*\<^sup>* x y \<Longrightarrow> Dag_Vertex d x \<noteq> None \<Longrightarrow> Dag_Vertex d y \<noteq> None"
  by (induction rule: rtranclp_induct) (auto simp: slice_edge_def)

definition slice_of :: "heap \<Rightarrow> Dag \<Rightarrow> uuid set \<Rightarrow> uuid set" where
  "slice_of h d X = {y. \<exists>x\<in>X. (slice_edge h d)\<^sup>*\<^sup>* x y}"

lemma slice_of_idem: "slice_of h d (slice_of h d X) = slice_of h d X"
  by (auto simp: slice_of_def intro: rtranclp_trans)

lemma slice_of_known: "\<forall>x\<in>X. Dag_Vertex d x \<noteq> None \<Longrightarrow> y \<in> slice_of h d X \<Longrightarrow> Dag_Vertex d y \<noteq> None"
  using slice_reach_known by (auto simp: slice_of_def)

lemma slice_of_finite: "finite (dom (dg_vertices d)) \<Longrightarrow> \<forall>x\<in>X. Dag_Vertex d x \<noteq> None \<Longrightarrow> finite (slice_of h d X)"
  using slice_of_known by (auto simp: Dag_Vertex_def intro!: finite_subset [of "slice_of h d X" "dom (dg_vertices d)"])

lemma traverseDagSlice_exact:
  assumes "finite (dom (dg_vertices d))" and "\<forall>x\<in>set xs. Dag_Vertex (mapped h d) x \<noteq> None"
    and "slice_fuel (mapped h d) \<le> n"
  shows "traverseDagSlice n ord h xs d = Some (ord (slice_of h (mapped h d) (set xs)), mapped h d)"
  using visit_all_exact [OF mapped_finite [OF assms(1)] assms(2,3), of "{}"]
  by (simp add: traverseDagSlice_def Let_def mapped_def [symmetric] slice_of_def)

section \<open>Collecting the links of a vertex\<close>

lemma goFind_le:
  assumes "k < length xs" and "p (xs ! k)"
  obtains x i where "goFind p xs = Some (x, i)" and "i \<le> k"
proof -
  from assms have "goFind p xs \<noteq> None" by (auto simp: goFind_None_iff)
  then obtain x i where "goFind p xs = Some (x, i)" by auto
  moreover from goFind_SomeD(4) [OF this] assms(2) have "i \<le> k" by (meson not_le)
  ultimately show thesis by (rule that)
qed

text \<open>With two links of the vertex the position returns behind the second one in every round.\<close>

lemma links_loop_stuck:
  assumes "p < q" and "q < length ls"
    and "node_uuid h (link_source (ls ! p)) = x" and "node_uuid h (link_source (ls ! q)) = x"
  shows "i \<le> q \<Longrightarrow> links_loop n h ls x i e = None"
proof (induction n arbitrary: i e)
  case (Suc n)
  let ?P = "\<lambda>l. node_uuid h (link_source l) = x"
  define k where "k = (if i = 0 then p else q - i)"
  have "k < length (drop i ls)" "?P (drop i ls ! k)" using assms Suc.prems by (auto simp: k_def)
  then obtain l j where lj: "goFind ?P (drop i ls) = Some (l, j)" "j \<le> k" by (rule goFind_le)
  have "Suc k \<le> q" using assms(1) Suc.prems by (auto simp: k_def)
  then show ?case using lj Suc.IH [of "Suc j"] Suc.prems assms(2) by simp
qed simp

definition links_of :: "heap \<Rightarrow> Link list \<Rightarrow> uuid \<Rightarrow> Link list" where
  "links_of h ls x = (if x = uuid_Nil then [] else filter (\<lambda>l. node_uuid h (link_source l) = x) ls)"

lemma links_two:
  assumes "2 \<le> length (filter P ls)"
  obtains p q where "p < q" and "q < length ls" and "P (ls ! p)" and "P (ls ! q)"
proof -
  let ?I = "{i. i < length ls \<and> P (ls ! i)}"
  have "2 \<le> card ?I" using assms by (simp add: length_filter_conv_card)
  then obtain p q where "p \<in> ?I" "q \<in> ?I" "p \<noteq> q"
    by (metis (no_types, lifting) card_2_iff' obtain_subset_with_card_n subset_iff)
  then show thesis using that [of p q] that [of q p] by (cases "p < q") auto
qed

lemma links_from_exact:
  "links_from (Suc (Suc n)) h ls x =
     (if length (links_of h ls x) \<le> 1 then Some (map (\<lambda>l. h (link_target l)) (links_of h ls x)) else None)"
proof (cases "x = uuid_Nil")
  case False
  let ?P = "\<lambda>l. node_uuid h (link_source l) = x"
  show ?thesis
  proof (cases "length (filter ?P ls) \<le> 1")
    case True
    show ?thesis
    proof (cases "goFind ?P ls")
      case None
      then have "filter ?P ls = []" by (simp add: goFind_None_iff filter_empty_conv)
      then show ?thesis using None False by (simp add: links_from_def links_of_def)
    next
      case (Some r)
      obtain l i where r: "r = (l, i)" by (cases r)
      note s = goFind_SomeD [OF Some [unfolded r]]
      have "ls = take i ls @ l # drop (Suc i) ls" using s(1,2) id_take_nth_drop by blast
      moreover have "\<not> ?P a" if "a \<in> set (take i ls)" for a
        using that s(4) unfolding in_set_conv_nth by (metis length_take min_less_iff_conj nth_take)
      then have "filter ?P (take i ls) = []" by (simp add: filter_empty_conv)
      ultimately have f: "filter ?P ls = l # filter ?P (drop (Suc i) ls)"
        using s(3) by (metis (mono_tags, lifting) append_Nil filter.simps(2) filter_append)
      with True have "filter ?P (drop (Suc i) ls) = []" by simp
      then have "goFind ?P (drop (Suc i) ls) = None" by (simp add: goFind_None_iff filter_empty_conv)
      moreover have "ls \<noteq> []" using s(1) by auto
      ultimately show ?thesis
        using Some r f \<open>filter ?P (drop (Suc i) ls) = []\<close> False by (simp add: links_from_def links_of_def)
    qed
  next
    case two: False
    then have "2 \<le> length (filter ?P ls)" by simp
    then obtain p q where "p < q" "q < length ls" "?P (ls ! p)" "?P (ls ! q)" by (rule links_two)
    then show ?thesis using links_loop_stuck [of p q ls h x 0 "Suc (Suc n)" "[]"] two False by (simp add: links_from_def links_of_def)
  qed
qed (simp add: links_from_def links_of_def)

lemma syncUp_loop_exact:
  "syncUp_loop (Suc (Suc n)) h ls vs st =
     (if \<forall>v\<in>set vs. length (links_of h ls (node_uuid h v)) \<le> 1
      then Some (fold (\<lambda>v. Notify \<lparr>tv_vertex = h v,
             tv_edges = map (\<lambda>l. h (link_target l)) (links_of h ls (node_uuid h v))\<rparr>) vs st)
      else None)"
  by (induction vs arbitrary: st) (simp_all add: links_from_exact)

text \<open>
  C27. What the watcher's syncUp does, for every amount of fuel from two on: it returns exactly when no
  vertex of the DAG, the one with the nil identifier apart, is the source of two links, and has then told
  the graph of every vertex with the target of its link. With one vertex that approves two sites the search for
  its links goes round for ever, no fuel is enough.
\<close>
theorem syncUp_exact:
  "watcher_syncUp (Suc (Suc n)) W st =
     (if \<forall>v\<in>set (dg_dag (w_dag W)). length (links_of (w_heap W) (dg_links (w_dag W)) (node_uuid (w_heap W) v)) \<le> 1
      then Some (fold (\<lambda>v. Notify \<lparr>tv_vertex = w_heap W v,
             tv_edges = map (\<lambda>l. w_heap W (link_target l))
                          (links_of (w_heap W) (dg_links (w_dag W)) (node_uuid (w_heap W) v))\<rparr>)
             (dg_dag (w_dag W)) st)
      else None)"
  by (simp only: watcher_syncUp_def syncUp_loop_exact)

text \<open>Two sites on the genesis site and a site that approves both.\<close>

definition demo_site :: "addr \<Rightarrow> Node" where
  "demo_site a = demo_node\<lparr>n_id := (n_id demo_node)\<lparr>nid_id := of_nat a\<rparr>\<rparr>"

definition demo_link :: "addr \<Rightarrow> addr \<Rightarrow> Link" where
  "demo_link s t = \<lparr>link_source = s, link_target = t\<rparr>"

definition demo_joined :: World where
  "demo_joined = demo_start\<lparr>w_heap := demo_site,
     w_dag := (w_dag demo_start)\<lparr>dg_dag := [0, 1, 2], dg_links := [demo_link 1 0, demo_link 2 1, demo_link 2 0]\<rparr>\<rparr>"

theorem syncUp_exact_witness: "\<forall>n. watcher_syncUp (Suc (Suc n)) demo_joined (NewGraph, []) = None"
  by (simp add: syncUp_exact demo_joined_def demo_start_def demo_site_def demo_link_def links_of_def)

section \<open>The latest slice\<close>

text \<open>
  C28. The latest slice of the DAG. The graph is what any sequence of notifications made, the genesis site
  (with the nil identifier) among them, and its vertices are in the DAG. Then the traversals end, with fuel
  linear in the vertices and edges, and the slice returned holds each vertex once: those that can be reached from a tip through
  vertices that are not pins, a tip being a vertex reachable from the genesis site that fewer than two vertices
  approve. Each vertex comes with the targets the DAG has for it.
\<close>
theorem latest_slice_exact:
  assumes "g = fst (fold Notify ms (NewGraph, []))"
    and "m \<in> set ms" and "nid_id (n_id (tv_vertex m)) = uuid_Nil"
    and "finite (dom (dg_vertices d))" and "\<forall>x\<in>dom g. Dag_Vertex (mapped h d) x \<noteq> None"
    and "range_order ord" and "graph_fuel g \<le> n" and "slice_fuel (mapped h d) \<le> n"
  shows "\<exists>xs. distinct xs \<and>
           set xs = slice_of h (mapped h d) {x. (graph_edge g)\<^sup>*\<^sup>* uuid_Nil x \<and> few g x} \<and>
           getLatestDagSlice n ord g h d =
             Some (map (\<lambda>x. dag_NodeToVertex (h (the (Dag_Vertex (mapped h d) x)))) xs,
                   map (\<lambda>x. \<lparr>Edge_Vertex = x, Edges = edges_of (mapped h d) x\<rparr>) xs)"
proof -
  let ?d = "mapped h d" let ?T = "{x. (graph_edge g)\<^sup>*\<^sup>* uuid_Nil x \<and> few g x}"
  have g: "graph_ok g" "uuid_Nil \<in> dom g"
    using Notify_all_graph [of "(NewGraph, [])" ms] assms(1-3) NewGraph_ok by (auto simp: rev_image_eqI)
  then have tips: "GetTipVertices n g = Some ?T" using GetTipVertices_exact assms(7) by blast
  have sub: "?T \<subseteq> dom g" by (auto simp: few_def)
  then have known: "\<forall>x\<in>?T. Dag_Vertex ?d x \<noteq> None" using assms(5) by blast
  have "finite ?T" using sub g(1) by (auto simp: graph_ok_def intro: finite_subset)
  then have T: "set (ord ?T) = ?T" using assms(6) by (rule range_order_set [rotated])
  have fin: "finite (dom (dg_vertices ?d))" using assms(4) by (rule mapped_finite)
  have "finite (slice_of h ?d ?T)" using fin known by (rule slice_of_finite)
  then have S: "set (ord (slice_of h ?d ?T)) = slice_of h ?d ?T \<and> distinct (ord (slice_of h ?d ?T))"
    using assms(6) by (simp add: range_order_def)
  have sknown: "\<forall>x\<in>slice_of h ?d ?T. Dag_Vertex ?d x \<noteq> None" using slice_of_known [OF known] by blast
  have "pinTxIDs n ord h ?T d = Some (ord (slice_of h ?d ?T), ?d)"
    using traverseDagSlice_exact [of d "ord ?T" h n ord] assms(4,8) known T by (simp add: pinTxIDs_def)
  moreover have "traverseDagSlice n ord h (ord (slice_of h ?d ?T)) ?d = Some (ord (slice_of h ?d ?T), ?d)"
    using traverseDagSlice_exact [of ?d "ord (slice_of h ?d ?T)" h n ord] fin assms(8) S sknown
    by (simp add: mapped_idem slice_of_idem)
  ultimately have "getLatestDagSlice n ord g h d =
      Some (map (\<lambda>x. dag_NodeToVertex (h (the (Dag_Vertex ?d x)))) (ord (slice_of h ?d ?T)),
            map (\<lambda>x. \<lparr>Edge_Vertex = x, Edges = edges_of ?d x\<rparr>) (ord (slice_of h ?d ?T)))"
    using tips S sknown by (simp add: getLatestDagSlice_def)
  then show ?thesis using S by blast
qed

definition demo_notified :: "TxVL list" where
  "demo_notified = [\<lparr>tv_vertex = demo_site 0, tv_edges = []\<rparr>, \<lparr>tv_vertex = demo_site 1, tv_edges = [demo_site 0]\<rparr>]"

definition demo_graph :: DGraph where
  "demo_graph = fst (fold Notify demo_notified (NewGraph, []))"

definition demo_chain :: Dag where
  "demo_chain = (w_dag demo_start)\<lparr>dg_dag := [0, 1], dg_links := [demo_link 1 0]\<rparr>"

lemma demo_graph_dom: "dom demo_graph = {0, 1}"
  using Notify_all_graph [of "(NewGraph, [])" demo_notified] NewGraph_ok
  by (auto simp: demo_graph_def demo_notified_def demo_site_def NewGraph_def)

lemma demo_graph_fuel: "graph_fuel demo_graph = 8"
  unfolding graph_fuel_def demo_graph_dom
  by (simp add: demo_graph_def demo_notified_def demo_site_def NewGraph_def Notify_def Let_def AddVertex_def
      NewVertex_def notify_edge_def AddEdge_def NewEdge_def SetDepth_def)

lemma demo_chain_mapped: "dg_vertices (mapped demo_site demo_chain) = [0 \<mapsto> 0, 1 \<mapsto> 1]"
  by (simp add: mapped_vertices updateMappedVertices_def demo_chain_def demo_start_def demo_site_def)

lemma demo_chain_edges: "dg_edges (mapped demo_site demo_chain) = [1 \<mapsto> [0]]"
  by (simp add: mapped_def updateMappedEdges_def updateMappedVertices_def demo_chain_def demo_start_def demo_site_def
      demo_link_def mapEdge_one_def edges_of_def)

theorem latest_slice_exact_witness:
  "\<exists>xs. distinct xs \<and>
     set xs = slice_of demo_site (mapped demo_site demo_chain)
                {x. (graph_edge demo_graph)\<^sup>*\<^sup>* uuid_Nil x \<and> few demo_graph x} \<and>
     getLatestDagSlice 8 sorted_list_of_set demo_graph demo_site demo_chain =
       Some (map (\<lambda>x. dag_NodeToVertex (demo_site (the (Dag_Vertex (mapped demo_site demo_chain) x)))) xs,
             map (\<lambda>x. \<lparr>Edge_Vertex = x, Edges = edges_of (mapped demo_site demo_chain) x\<rparr>) xs)"
proof (rule latest_slice_exact [of demo_graph demo_notified "\<lparr>tv_vertex = demo_site 0, tv_edges = []\<rparr>"])
  show "finite (dom (dg_vertices demo_chain))" by (simp add: demo_chain_def demo_start_def)
  show "\<forall>x\<in>dom demo_graph. Dag_Vertex (mapped demo_site demo_chain) x \<noteq> None"
    by (simp add: demo_graph_dom Dag_Vertex_def demo_chain_mapped)
  show "slice_fuel (mapped demo_site demo_chain) \<le> 8"
    by (simp add: slice_fuel_def demo_chain_mapped edges_of_def demo_chain_edges)
  show "graph_fuel demo_graph \<le> 8" by (simp add: demo_graph_fuel)
qed (simp_all add: demo_graph_def demo_notified_def range_order_sorted demo_site_def)

end
