(* ===== verification/Transaction_Service.thy ===== *)
theory Transaction_Service
  imports Dag_Properties
begin

text \<open>
  The transaction service behind the node's interfaces: \<^verbatim>\<open>src/services/transactions.go\<close>,
  \<^verbatim>\<open>src/services/page.go\<close>, \<^verbatim>\<open>src/services/sort.go\<close>, \<^verbatim>\<open>src/services/accounts.go\<close> and the searches of
  \<^verbatim>\<open>src/dag/search.go\<close>.

  The service works on the \<open>World\<close> of the DAG and on the publish queue, from which the publisher takes
  the admitted payments; the queue is the list of its elements, the abstraction that
  \<^verbatim>\<open>Lockfree_Queue\<close> justifies. The clients of the virtual machine and the configuration are the record
  \<open>svc_env\<close>. \<open>None\<close> as outermost result is a panic.
\<close>

section \<open>Environment and state\<close>

text \<open>The requests to the virtual machine, \<^verbatim>\<open>Message\<close> and \<^verbatim>\<open>FuelEstimationRequest\<close>.\<close>

record ReadContractRequest =
  rr_Header :: PinTxHeader
  rr_ContractAddress :: bytes
  rr_MethodSignature :: string
  rr_MethodParameters :: string
  rr_Sender :: string

record Message =
  m_From :: "bytes option"
  m_To :: "bytes option"
  m_Data :: "bytes option"
  m_Amount :: "bytes option"
  m_CoinbaseAccountAdress :: "bytes option"
  m_Timestamp :: pb_timestamp
  m_FixingTx :: "bytes option"

record FuelEstimationRequest =
  fr_RawTx :: "bytes option"
  fr_Message :: "Message option"

datatype TxOrMessage = EstimateTx pb_Txv1 | EstimateMessage Message

record EstimateGasRequest =
  eg_Header :: PinTxHeader
  eg_TxOrMessage :: TxOrMessage

record svc_env =
  sv_pin :: pin_env
  sv_Network :: int
  sv_Maxfuellimit :: "64 word"
  sv_Maxfuelprice :: "64 word"
  sv_RunCode :: "ReadContractRequest \<Rightarrow> Storage \<Rightarrow> (string + VmResponse) \<times> Storage"
  sv_EstimateGas :: "EstimateGasRequest \<Rightarrow> Storage \<Rightarrow> (string + VmResponse) \<times> Storage"

record Service =
  sv_world :: World
  sv_publish :: "transaction list"

abbreviation sv_ext :: "svc_env \<Rightarrow> ext" where
  "sv_ext V \<equiv> pe_ext (sv_pin V)"

abbreviation sv_node :: "Service \<Rightarrow> NodeState" where
  "sv_node S \<equiv> w_node (sv_world S)"

definition set_node :: "NodeState \<Rightarrow> Service \<Rightarrow> Service" where
  "set_node st S = S\<lparr>sv_world := (sv_world S)\<lparr>w_node := st\<rparr>\<rparr>"

definition set_vm :: "Storage \<Rightarrow> Service \<Rightarrow> Service" where
  "set_vm vm S = set_node ((sv_node S)\<lparr>ns_vm := vm\<rparr>) S"

datatype svc_error =
    BadHex hex_error
  | BadTransaction
  | DifferentNetwork int int
  | BadTxSignature
  | FuelPriceNotPositive int
  | FuelLimitTooHigh int int
  | CommissionTooHigh int int
  | NoSenderAccount
  | NotEnoughFunds int int
  | NoBalance pin_error
  | NonZeroFuel int int
  | NotConnected string
  | VmFailed string
  | ReadFailed string
  | SystemFailed string
  | BadGasUsed

text \<open>\<^verbatim>\<open>ExecutionResult\<close> and its zero value.\<close>

definition emptyResult :: ExecutionResult where
  "emptyResult = \<lparr>er_Hash = [], er_Successful = False, er_Output = [], er_GasUsed = 0\<rparr>"

section \<open>Admission of transactions\<close>

definition executePaymentTx :: "svc_env \<Rightarrow> transaction \<Rightarrow> Service \<Rightarrow> (ExecutionResult \<times> Service) option" where
  "executePaymentTx V t S =
     (case GetHash (sv_ext V) t of
        None \<Rightarrow> None
      | Some hash \<Rightarrow>
          Some (emptyResult\<lparr>er_GasUsed := 0, er_Successful := True\<rparr>, S\<lparr>sv_publish := sv_publish S @ [t]\<rparr>))"

text \<open>
  \<^verbatim>\<open>SendRawTransaction\<close>, cut at the branch on the transaction type. The limits of the configuration
  are converted to \<^verbatim>\<open>int64\<close>, the fuel limit is cut to 64 bits in the result.
\<close>

definition txTotal :: "transaction \<Rightarrow> int" where
  "txTotal t = GetAmount t + GetFuelLimit t * GetFuelPrice t"

definition admitContract ::
  "svc_env \<Rightarrow> transaction \<Rightarrow> Service \<Rightarrow> ((svc_error + ExecutionResult) \<times> Service) option" where
  "admitContract V t S =
     (let fuelPrice = GetFuelPrice t;
          maxAllowedFuelLimit = sint (sv_Maxfuellimit V);
          maxAllowedPrice = sint (sv_Maxfuelprice V);
          maxComission = maxAllowedFuelLimit * maxAllowedPrice;
          price = fuelPrice * GetFuelLimit t in
      if fuelPrice \<le> 0 then Some (Inl (FuelPriceNotPositive fuelPrice), S)
      else if \<bar>GetFuelLimit t\<bar> > \<bar>maxAllowedFuelLimit\<bar> then
        Some (Inl (FuelLimitTooHigh maxAllowedFuelLimit (GetFuelLimit t)), S)
      else if price > maxComission then Some (Inl (CommissionTooHigh price maxComission), S)
      else
        case GetSender (sv_ext V) t of
          None \<Rightarrow> None
        | Some senderBytes \<Rightarrow>
            (case SearchAccount (ns_vm (sv_node S)) (Hex_String (Some senderBytes)) of
               None \<Rightarrow> None
             | Some None \<Rightarrow> Some (Inl NoSenderAccount, S)
             | Some (Some sender) \<Rightarrow>
                 if ln_Balance sender < txTotal t then
                   Some (Inl (NotEnoughFunds (txTotal t) (ln_Balance sender)), S)
                 else
                   (case AddUnconfirmed (sv_ext V) t (ns_smc (sv_node S)) of
                      None \<Rightarrow> None
                    | Some smc \<Rightarrow>
                        Some (Inr (emptyResult\<lparr>er_GasUsed := word_of_int (GetFuelLimit t),
                                               er_Output := ''0x'', er_Successful := True\<rparr>),
                              set_node ((sv_node S)\<lparr>ns_smc := smc\<rparr>) S))))"

definition admitPayment ::
  "svc_env \<Rightarrow> transaction \<Rightarrow> Service \<Rightarrow> ((svc_error + ExecutionResult) \<times> Service) option" where
  "admitPayment V t S =
     (case GetSender (sv_ext V) t of
        None \<Rightarrow> None
      | Some sender \<Rightarrow>
          (case GetBalance (ns_pins (sv_node S)) (ns_walletCache (sv_node S)) sender of
             None \<Rightarrow> None
           | Some (_, Some err) \<Rightarrow> Some (Inl (NoBalance err), S)
           | Some (senderBalance, None) \<Rightarrow>
               if senderBalance < txTotal t then
                 Some (Inl (NotEnoughFunds (txTotal t) senderBalance), S)
               else if GetFuelLimit t \<noteq> 0 \<or> GetFuelPrice t \<noteq> 0 then
                 Some (Inl (NonZeroFuel (GetFuelLimit t) (GetFuelPrice t)), S)
               else map_option (\<lambda>(r, S'). (Inr r, S')) (executePaymentTx V t S)))"

definition isContractTx :: "transaction \<Rightarrow> bool" where
  "isContractTx t \<longleftrightarrow> GetTransactionType t = CALL_CONTRACT \<or> GetTransactionType t = PUBLISH_CONTRACT"

text \<open>
  The error of \<^verbatim>\<open>Txv1.Verify\<close> for a wrong signature prints the transaction, and so does the error for
  a foreign network; printing panics on addresses of a wrong length.
\<close>

fun verify_prints :: "transaction \<Rightarrow> bool" where
  "verify_prints (TxV1 t) \<longleftrightarrow> length (Signature t) < 64 \<or> prints (TxV1 t)"
| "verify_prints (TxEth t) \<longleftrightarrow> True"

definition SendRawTransaction ::
  "svc_env \<Rightarrow> string \<Rightarrow> Service \<Rightarrow> ((svc_error + ExecutionResult) \<times> Service) option" where
  "SendRawTransaction V pbTx S =
     (if pbTx = [] then None
      else case hexDecode pbTx of
        (_, Some err) \<Rightarrow> Some (Inl (BadHex err), S)
      | (txBytes, None) \<Rightarrow>
          (case ParseTransaction (sv_ext V) txBytes of
             None \<Rightarrow> Some (Inl BadTransaction, S)
           | Some t0 \<Rightarrow>
               (case VerifySignature (sv_ext V) t0 of
                  None \<Rightarrow> None
                | Some (sigOk, t) \<Rightarrow>
                    if \<not> sigOk \<and> \<not> verify_prints t then None else
                    (case GetChainType t of
                       None \<Rightarrow> None
                     | Some ct \<Rightarrow>
                         if uint ct \<noteq> sv_Network V then
                           (if prints t
                            then Some (Inl (DifferentNetwork (sv_Network V) (uint ct)), S) else None)
                         else
                           (case GetHash (sv_ext V) t of
                              None \<Rightarrow> None
                            | Some hash \<Rightarrow>
                                if \<not> sigOk then
                                  (case GetSender (sv_ext V) t of
                                     None \<Rightarrow> None
                                   | Some _ \<Rightarrow> Some (Inl BadTxSignature, S))
                                else
                                  (case (if isContractTx t then admitContract V t S
                                         else admitPayment V t S) of
                                     None \<Rightarrow> None
                                   | Some (Inl err, S') \<Rightarrow> Some (Inl err, S')
                                   | Some (Inr r, S') \<Rightarrow>
                                       Some (Inr (r\<lparr>er_Hash := ''0x'' @ hexEncode hash\<rparr>), S')))))))"

section \<open>Calls of the virtual machine\<close>

text \<open>The header of a call: the coinbase address (a malformed one panics), the time and number of the latest pin.\<close>

definition callHeader :: "svc_env \<Rightarrow> Service \<Rightarrow> PinTxHeader option" where
  "callHeader V S =
     (case ParseEthAddress (pe_Coinbaseaccount (sv_pin V)) of
        Inl _ \<Rightarrow> None
      | Inr coinbaseAddrBytes \<Rightarrow>
          Some \<lparr>ph_Coinbase = coinbaseAddrBytes, ph_Timestamp = CurrentTS (sv_ext V) (ns_pins (sv_node S)),
                ph_TxNumber = word_of_int (CurrentHeight (ns_pins (sv_node S)))\<rparr>)"

definition CallReadContract ::
  "svc_env \<Rightarrow> string \<Rightarrow> string \<Rightarrow> string \<Rightarrow> string \<Rightarrow> Service \<Rightarrow> ((svc_error + string) \<times> Service) option" where
  "CallReadContract V contractAddress contractMethod methodParameters sender S =
     (case pe_Connect (sv_pin V) of
        Some e \<Rightarrow> Some (Inl (NotConnected e), S)
      | None \<Rightarrow>
          if contractAddress = [] \<or> contractMethod = [] then None
          else
            (case (callHeader V S, AddressToBytes contractAddress) of
               (Some header, Inr decodedAddress) \<Rightarrow>
                 (case sv_RunCode V \<lparr>rr_Header = header, rr_ContractAddress = decodedAddress,
                                     rr_MethodSignature = contractMethod,
                                     rr_MethodParameters = methodParameters, rr_Sender = sender\<rparr>
                         (ns_vm (sv_node S)) of
                    (Inl vmErr, vm) \<Rightarrow> Some (Inl (VmFailed vmErr), set_vm vm S)
                  | (Inr r, vm) \<Rightarrow>
                      if vr_Error r \<noteq> [] \<and> vr_Error r \<noteq> ''0x''
                      then Some (Inl (ReadFailed (''Error read method execution: '' @ vr_Error r)), set_vm vm S)
                      else Some (Inr (vr_Msg r), set_vm vm S))
             | _ \<Rightarrow> None))"

definition analyzeCallResponse :: "VmResponse \<Rightarrow> svc_error + ExecutionResult" where
  "analyzeCallResponse r =
     (if vr_Status r = -2 then
        Inl (SystemFailed (''system VM error during tx execution: '' @ vr_Error r))
      else
        case ParseInt64 (vr_GasUsed r) of
          None \<Rightarrow> Inl BadGasUsed
        | Some gasUsed \<Rightarrow>
            if vr_Status r = 0 then
              Inr (emptyResult\<lparr>er_Output := vr_Msg r, er_Successful := True, er_GasUsed := gasUsed\<rparr>)
            else
              Inr (emptyResult\<lparr>er_Successful := False, er_Output := vr_Error r @ '':'' @ vr_Msg r,
                               er_GasUsed := gasUsed\<rparr>))"

definition doEstimate ::
  "svc_env \<Rightarrow> EstimateGasRequest \<Rightarrow> Service \<Rightarrow> (svc_error + ExecutionResult) \<times> Service" where
  "doEstimate V grpcReq S =
     (case pe_Connect (sv_pin V) of
        Some e \<Rightarrow> (Inl (NotConnected e), S)
      | None \<Rightarrow>
          (case sv_EstimateGas V grpcReq (ns_vm (sv_node S)) of
             (Inl vmErr, vm) \<Rightarrow> (Inl (VmFailed vmErr), set_vm vm S)
           | (Inr r, vm) \<Rightarrow> (analyzeCallResponse r, set_vm vm S)))"

definition isMessageBased :: "FuelEstimationRequest \<Rightarrow> bool" where
  "isMessageBased r \<longleftrightarrow> fr_Message r \<noteq> None"

text \<open>\<open>None\<close> is the panic of \<^verbatim>\<open>validate\<close>.\<close>

definition FuelEstimationRequest_validate :: "FuelEstimationRequest \<Rightarrow> unit option" where
  "FuelEstimationRequest_validate r =
     (if fr_RawTx r \<noteq> None \<and> fr_Message r \<noteq> None then None else Some ())"

definition Message_toPb :: "time \<Rightarrow> Message \<Rightarrow> Message" where
  "Message_toPb now m = m\<lparr>m_Timestamp := (now div 1000000000, 0)\<rparr>"

definition EstimateTxFuel ::
  "svc_env \<Rightarrow> FuelEstimationRequest \<Rightarrow> Service \<Rightarrow> ((svc_error + ExecutionResult) \<times> Service) option" where
  "EstimateTxFuel V r S =
     (case FuelEstimationRequest_validate r of
        None \<Rightarrow> None
      | Some _ \<Rightarrow>
          (case callHeader V S of
             None \<Rightarrow> None
           | Some header \<Rightarrow>
               (case fr_Message r of
                  Some m \<Rightarrow>
                    Some (doEstimate V \<lparr>eg_Header = header,
                       eg_TxOrMessage = EstimateMessage (Message_toPb (pe_now (sv_pin V)) m)\<rparr> S)
                | None \<Rightarrow>
                    (case proto_Unmarshal (sv_ext V) (nilBytes (fr_RawTx r)) of
                       None \<Rightarrow> Some (Inl BadTransaction, S)
                     | Some p \<Rightarrow>
                         Some (doEstimate V \<lparr>eg_Header = header, eg_TxOrMessage = EstimateTx p\<rparr> S)))))"

section \<open>Searching transactions\<close>

text \<open>
  \<^verbatim>\<open>GetTimestamp\<close>; an Ethereum transaction has no such field and answers the current time, which is
  taken to be the same during one search.
\<close>

fun GetTimestamp :: "int \<Rightarrow> transaction \<Rightarrow> 64 word" where
  "GetTimestamp now_ms (TxV1 t) = word_of_int (Timestamp t div 1000000)"
| "GetTimestamp now_ms (TxEth t) = word_of_int now_ms"

fun accounts_loop :: "ext \<Rightarrow> transaction \<Rightarrow> bool option \<Rightarrow> string list \<Rightarrow> bool option" where
  "accounts_loop E t directionIsSent [] = Some False"
| "accounts_loop E t directionIsSent (account # rest) =
     (case AddressToBytes account of
        Inl _ \<Rightarrow> None
      | Inr accountId \<Rightarrow>
          (case GetSender E t of
             None \<Rightarrow> None
           | Some senderId \<Rightarrow>
               if directionIsSent \<noteq> Some False \<and> senderId = accountId then Some True
               else if directionIsSent \<noteq> Some True \<and> GetRecipient t = accountId then Some True
               else accounts_loop E t directionIsSent rest))"

definition accountFilter ::
  "ext \<Rightarrow> transaction \<Rightarrow> string list \<Rightarrow> int \<Rightarrow> bool option \<Rightarrow> bool option" where
  "accountFilter E t accs txType directionIsSent =
     (if txType \<noteq> -1 \<and> txType \<noteq> uint (GetTransactionType t) then Some False
      else if accs = [] then Some True
      else accounts_loop E t directionIsSent accs)"

text \<open>
  \<^verbatim>\<open>SearchTx\<close> by hash: the payments of the pins, then the confirmed contract transactions. The inner
  \<open>None\<close> is the returned error; a pinned transaction that is not a payment ends the search with one.
\<close>

fun nodes_search ::
  "ext \<Rightarrow> bytes \<Rightarrow> int \<Rightarrow> string \<Rightarrow> int \<Rightarrow> pb_Node list \<Rightarrow> ConfirmedTx option option option" where
  "nodes_search E hash pinTxNumber pinHashStr nodeIdx [] = Some None"
| "nodes_search E hash pinTxNumber pinHashStr nodeIdx (node # rest) =
     (case UnmarshalBinary E (pbn_Tx node) of
        None \<Rightarrow> None
      | Some realTx \<Rightarrow>
          (case GetHash E realTx of
             None \<Rightarrow> None
           | Some txHash \<Rightarrow>
               if txHash = hash
               then Some (Some (NewPaymentConfirmedTx realTx pinTxNumber pinHashStr nodeIdx))
               else nodes_search E hash pinTxNumber pinHashStr (nodeIdx + 1) rest))"

fun pins_search :: "pin_env \<Rightarrow> bytes \<Rightarrow> int \<Rightarrow> TxPin list \<Rightarrow> ConfirmedTx option option option" where
  "pins_search V hash pinTxNumber [] = Some None"
| "pins_search V hash pinTxNumber (pin # rest) =
     (let pinHash = nilBytes (TxPin_Hash (pe_ext V) (pe_marshal V) (pe_ord V) pin) in
      case nodes_search (pe_ext V) hash pinTxNumber (''0x'' @ hexEncode pinHash) 0 (pin_Nodes pin) of
        None \<Rightarrow> None
      | Some (Some r) \<Rightarrow> Some (Some r)
      | Some None \<Rightarrow> pins_search V hash (pinTxNumber + 1) rest)"

definition SearchTx :: "pin_env \<Rightarrow> bytes \<Rightarrow> World \<Rightarrow> ConfirmedTx option option" where
  "SearchTx V hash W =
     (case pins_search V hash 0 (ns_pins (w_node W)) of
        None \<Rightarrow> None
      | Some (Some r) \<Rightarrow> Some r
      | Some None \<Rightarrow> Some (FindConfirmed (Hex_String (Some hash)) (ns_smc (w_node W))))"

text \<open>
  \<^verbatim>\<open>SearchAnyTx\<close> returns a pointer and an error flag. For a payment of the DAG it returns the error of the
  failed search among the confirmed transactions next to the transaction it found.
\<close>

fun dag_search :: "ext \<Rightarrow> heap \<Rightarrow> bytes \<Rightarrow> addr list \<Rightarrow> transaction option option" where
  "dag_search E h hash [] = Some None"
| "dag_search E h hash (a # rest) =
     (case GetHash E (n_tx (h a)) of
        None \<Rightarrow> None
      | Some txHash \<Rightarrow> if txHash = hash then Some (Some (n_tx (h a))) else dag_search E h hash rest)"

definition SearchAnyTx :: "pin_env \<Rightarrow> bytes \<Rightarrow> World \<Rightarrow> (UnifiedTx option \<times> bool) option" where
  "SearchAnyTx V hash W =
     (case SearchTx V hash W of
        None \<Rightarrow> None
      | Some (Some confirmedTx) \<Rightarrow> Some (Some (ConfirmedTx_ToUnified confirmedTx), False)
      | Some None \<Rightarrow>
          (case dag_search (pe_ext V) (w_heap W) hash (dg_dag (w_dag W)) of
             None \<Rightarrow> None
           | Some (Some realTx) \<Rightarrow> Some (Some (IdentifiableTx_ToUnified realTx), True)
           | Some None \<Rightarrow>
               (case FindAny (Hex_String (Some hash)) (ns_smc (w_node W)) of
                  None \<Rightarrow> Some (None, True)
                | Some smcTx \<Rightarrow> Some (Some smcTx, False))))"

definition GetTransactionByHash :: "svc_env \<Rightarrow> string \<Rightarrow> Service \<Rightarrow> ConfirmedTx option option" where
  "GetTransactionByHash V hash S =
     (case DecodeHexString hash of
        (_, Some _) \<Rightarrow> Some None
      | (h, None) \<Rightarrow> SearchTx (sv_pin V) h (sv_world S))"

definition GetAnyTransactionByHash :: "svc_env \<Rightarrow> string \<Rightarrow> Service \<Rightarrow> UnifiedTx option option" where
  "GetAnyTransactionByHash V hash S =
     (case DecodeHexString hash of
        (_, Some _) \<Rightarrow> Some None
      | (h, None) \<Rightarrow>
          (case SearchAnyTx (sv_pin V) h (sv_world S) of
             None \<Rightarrow> None
           | Some (found, err) \<Rightarrow> Some (if err then None else found)))"

text \<open>
  \<^verbatim>\<open>SearchTxs\<close>. The filter of one request, the collected transactions and the identifiers of the pinned
  payments are records; the parts are the loops over a pin's contract transactions, over its nodes,
  over the pins and over the DAG.
\<close>

record tx_query =
  q_accounts :: "string list"
  q_txType :: int
  q_confirmed :: "bool option"
  q_direction :: "bool option"

record collected =
  c_accTxs :: "UnifiedTx list"
  c_processed :: "string set"

definition query_filter :: "ext \<Rightarrow> tx_query \<Rightarrow> transaction \<Rightarrow> bool option" where
  "query_filter E q t = accountFilter E t (q_accounts q) (q_txType q) (q_direction q)"

text \<open>A transaction that is kept is printed to the log with its sender and hash.\<close>

definition logged :: "ext \<Rightarrow> transaction \<Rightarrow> 'a \<Rightarrow> 'a option" where
  "logged E t x = (case (GetHash E t, GetSender E t) of (Some _, Some _) \<Rightarrow> Some x | _ \<Rightarrow> None)"

fun smcTxs_search ::
  "ext \<Rightarrow> tx_query \<Rightarrow> int \<Rightarrow> string \<Rightarrow> int \<Rightarrow> int \<Rightarrow> pb_ExecutedSmcTx list \<Rightarrow> collected \<Rightarrow> collected option" where
  "smcTxs_search E q pinTxNumber pinHashStr txIndex gasUsed [] c = Some c"
| "smcTxs_search E q pinTxNumber pinHashStr txIndex gasUsed (x # xs) c =
     (let gasUsed' = gasUsed + sint (rc_FuelUsed (ex_Receipt x)) in
      case UnmarshalBinary E (ex_Tx x) of
        None \<Rightarrow> None
      | Some realTx \<Rightarrow>
          (case (GetHash E realTx, query_filter E q realTx) of
             (Some _, Some True) \<Rightarrow>
               (case logged E realTx
                       (ConfirmedTx_ToUnified
                          \<lparr>ct_Transaction = realTx, UsedFuel = sint (rc_FuelUsed (ex_Receipt x)),
                           StatusMessage = rc_StatusMessage (ex_Receipt x),
                           ct_Status = (if rc_Status (ex_Receipt x) = FAILED then Failed else Successful),
                           PinTxNumber = pinTxNumber, PinTxHash = pinHashStr, TxIndex = txIndex,
                           CumulativeGasUsed = gasUsed'\<rparr>) of
                  None \<Rightarrow> None
                | Some u \<Rightarrow>
                    smcTxs_search E q pinTxNumber pinHashStr (txIndex + 1) gasUsed' xs
                      (c\<lparr>c_accTxs := c_accTxs c @ [u]\<rparr>))
           | (Some _, Some False) \<Rightarrow>
               smcTxs_search E q pinTxNumber pinHashStr (txIndex + 1) gasUsed' xs c
           | _ \<Rightarrow> None))"

fun payments_search ::
  "ext \<Rightarrow> tx_query \<Rightarrow> int \<Rightarrow> string \<Rightarrow> int \<Rightarrow> pb_Node list \<Rightarrow> collected \<Rightarrow> collected option" where
  "payments_search E q pinTxNumber pinHashStr nodeIdx [] c = Some c"
| "payments_search E q pinTxNumber pinHashStr nodeIdx (node # rest) c =
     (case UnmarshalBinary E (pbn_Tx node) of
        None \<Rightarrow> None
      | Some realTx \<Rightarrow>
          (case query_filter E q realTx of
             None \<Rightarrow> None
           | Some False \<Rightarrow> payments_search E q pinTxNumber pinHashStr (nodeIdx + 1) rest c
           | Some True \<Rightarrow>
               let uid = (case uuid_FromBytes E (pbn_Id (pbn_NodeId node)) of None \<Rightarrow> 0 | Some u \<Rightarrow> u);
                   c1 = c\<lparr>c_processed := insert (uuid_String E uid) (c_processed c)\<rparr> in
               if q_confirmed q = Some False
               then payments_search E q pinTxNumber pinHashStr (nodeIdx + 1) rest c1
               else
                 (case logged E realTx (NewUnifiedConfirmedTxRaw realTx pinTxNumber pinHashStr nodeIdx 0) of
                    None \<Rightarrow> None
                  | Some u \<Rightarrow>
                      payments_search E q pinTxNumber pinHashStr (nodeIdx + 1) rest
                        (c1\<lparr>c_accTxs := c_accTxs c1 @ [u]\<rparr>))))"

fun confirmed_search :: "pin_env \<Rightarrow> tx_query \<Rightarrow> int \<Rightarrow> TxPin list \<Rightarrow> collected \<Rightarrow> collected option" where
  "confirmed_search V q pinTxNumber [] c = Some c"
| "confirmed_search V q pinTxNumber (pin # rest) c =
     (case TxPin_Hash (pe_ext V) (pe_marshal V) (pe_ord V) pin of
        None \<Rightarrow> None
      | Some pinHash \<Rightarrow>
          let pinHashStr = Hex_String (Some pinHash) in
          (case (if q_confirmed q = Some False then Some c
                 else smcTxs_search (pe_ext V) q pinTxNumber pinHashStr (int (length (pin_Nodes pin))) 0
                        (pin_SmcTxs pin) c) of
             None \<Rightarrow> None
           | Some c1 \<Rightarrow>
               (case payments_search (pe_ext V) q pinTxNumber pinHashStr 0 (pin_Nodes pin) c1 of
                  None \<Rightarrow> None
                | Some c2 \<Rightarrow> confirmed_search V q (pinTxNumber + 1) rest c2)))"

fun keep_logged :: "ext \<Rightarrow> transaction list \<Rightarrow> UnifiedTx list option" where
  "keep_logged E [] = Some []"
| "keep_logged E (t # ts) =
     (case logged E t (IdentifiableTx_ToUnified t) of
        None \<Rightarrow> None
      | Some u \<Rightarrow> map_option (\<lambda>us. u # us) (keep_logged E ts))"

fun dag_collect :: "ext \<Rightarrow> heap \<Rightarrow> tx_query \<Rightarrow> string set \<Rightarrow> addr list \<Rightarrow> UnifiedTx list option" where
  "dag_collect E h q processed [] = Some []"
| "dag_collect E h q processed (a # rest) =
     (if uuid_String E (node_uuid h a) \<in> processed then dag_collect E h q processed rest
      else
        case query_filter E q (n_tx (h a)) of
          None \<Rightarrow> None
        | Some False \<Rightarrow> dag_collect E h q processed rest
        | Some True \<Rightarrow>
            (case logged E (n_tx (h a)) (IdentifiableTx_ToUnified (n_tx (h a))) of
               None \<Rightarrow> None
             | Some u \<Rightarrow> map_option (\<lambda>us. u # us) (dag_collect E h q processed rest)))"

definition unconfirmed_search :: "pin_env \<Rightarrow> tx_query \<Rightarrow> World \<Rightarrow> string set \<Rightarrow> UnifiedTx list option" where
  "unconfirmed_search V q W processed =
     (if q_confirmed q = Some True then Some []
      else
        case Pool_Find (pe_ord V) (\<lambda>t st. map_option (\<lambda>b. (b, st)) (query_filter (pe_ext V) q t)) ()
               (unconfirmedPool (ns_smc (w_node W))) of
          None \<Rightarrow> None
        | Some unconfirmedSmc \<Rightarrow>
            (case (keep_logged (pe_ext V) unconfirmedSmc,
                   dag_collect (pe_ext V) (w_heap W) q processed (dg_dag (w_dag W))) of
               (Some us, Some vs) \<Rightarrow> Some (us @ vs)
             | _ \<Rightarrow> None))"

definition collectTxs :: "pin_env \<Rightarrow> tx_query \<Rightarrow> World \<Rightarrow> UnifiedTx list option" where
  "collectTxs V q W =
     (case confirmed_search V q 0 (ns_pins (w_node W)) \<lparr>c_accTxs = [], c_processed = {}\<rparr> of
        None \<Rightarrow> None
      | Some c \<Rightarrow> map_option (\<lambda>us. c_accTxs c @ us) (unconfirmed_search V q W (c_processed c)))"

text \<open>
  \<^verbatim>\<open>deduplicate\<close> keeps the last transaction of every hash and returns them in the order in which the
  map is visited. The stable sort that follows compares timestamps only, so the order among equal
  timestamps is the one of that visit.
\<close>

definition rawTx :: "UnifiedTx \<Rightarrow> transaction" where
  "rawTx u = the (GetRawTx u)"

definition tx_key :: "ext \<Rightarrow> UnifiedTx \<Rightarrow> string" where
  "tx_key E u = hexEncode (the (GetHash E (rawTx u)))"

definition uniqueTxs :: "ext \<Rightarrow> UnifiedTx list \<Rightarrow> (string \<rightharpoonup> UnifiedTx)" where
  "uniqueTxs E us = fold (\<lambda>u m. m(tx_key E u \<mapsto> u)) us Map.empty"

definition deduplicate :: "ext \<Rightarrow> string visit_order \<Rightarrow> UnifiedTx list \<Rightarrow> UnifiedTx list" where
  "deduplicate E ord us = map (\<lambda>k. the (uniqueTxs E us k)) (ord (dom (uniqueTxs E us)))"

definition sortTxs :: "int \<Rightarrow> bool \<Rightarrow> UnifiedTx list \<Rightarrow> UnifiedTx list" where
  "sortTxs now_ms ascSort us =
     (if ascSort then sort_key (\<lambda>u. uint (GetTimestamp now_ms (rawTx u))) us
      else sort_key (\<lambda>u. - uint (GetTimestamp now_ms (rawTx u))) us)"

definition allTxs :: "pin_env \<Rightarrow> tx_query \<Rightarrow> bool \<Rightarrow> World \<Rightarrow> UnifiedTx list option" where
  "allTxs V q ascSort W =
     map_option (\<lambda>us. sortTxs (pe_now_ms V) ascSort (deduplicate (pe_ext V) (pe_ord V) us)) (collectTxs V q W)"

definition SearchTxs ::
  "pin_env \<Rightarrow> tx_query \<Rightarrow> int \<Rightarrow> int \<Rightarrow> bool \<Rightarrow> World \<Rightarrow> UnifiedTx list option" where
  "SearchTxs V q limit offset ascSort W =
     (case allTxs V q ascSort W of None \<Rightarrow> None | Some accTxs \<Rightarrow> paginate offset limit accTxs)"

section \<open>Pages and accounts\<close>

text \<open>The offset is computed in a 64-bit \<^verbatim>\<open>int\<close> and wraps around.\<close>

record Page =
  pg_Number :: int
  pg_Size :: int

definition Page_Offset :: "Page \<Rightarrow> int" where
  "Page_Offset p = sint (word_of_int (pg_Size p * pg_Number p) :: 64 word)"

definition Page_Next :: "Page \<Rightarrow> Page" where
  "Page_Next p = p\<lparr>pg_Number := pg_Number p + 1\<rparr>"

definition toUpperAscii :: "char \<Rightarrow> char" where
  "toUpperAscii c = (let n = of_char c :: nat in if 97 \<le> n \<and> n \<le> 122 then char_of (n - 32) else c)"

definition isAsc :: "string \<Rightarrow> bool" where
  "isAsc s \<longleftrightarrow> map toUpperAscii s = ''ASC''"

definition isDesc :: "string \<Rightarrow> bool" where
  "isDesc s \<longleftrightarrow> map toUpperAscii s = ''DESC''"

definition GetTransactions ::
  "svc_env \<Rightarrow> tx_query \<Rightarrow> string \<Rightarrow> Page \<Rightarrow> Service \<Rightarrow> UnifiedTx list option" where
  "GetTransactions V q s p S = SearchTxs (sv_pin V) q (pg_Size p) (Page_Offset p) (isAsc s) (sv_world S)"

definition GetAccounts :: "svc_env \<Rightarrow> string \<Rightarrow> Page \<Rightarrow> Service \<Rightarrow> LnAccount list option" where
  "GetAccounts V s p S =
     SearchAccounts (pe_ord (sv_pin V)) (ns_vm (sv_node S)) (pg_Size p) (Page_Offset p) (isAsc s)"

definition GetAccountById :: "string \<Rightarrow> Service \<Rightarrow> LnAccount option option" where
  "GetAccountById aid S = (if aid = [] then None else SearchAccount (ns_vm (sv_node S)) aid)"

definition shortenString :: "string \<Rightarrow> int \<Rightarrow> string" where
  "shortenString s sz =
     (if sz < 2 then []
      else if int (length s) \<le> sz then s
      else take (nat (sz div 2)) s @ ''...'' @ drop (length s - nat (sz div 2)) s)"

section \<open>Lemmas on admission\<close>

lemma AddUnconfirmed_Some:
  "AddUnconfirmed E t st = Some st' \<longleftrightarrow>
   (\<exists>oid. IdentifiableTx_Id E t = Some oid \<and>
          st' = st\<lparr>unconfirmedPool := (unconfirmedPool st)(oid \<mapsto> t),
                  confirmedPool := (confirmedPool st)(oid := None)\<rparr>)"
  by (auto simp: AddUnconfirmed_def Pool_Put_def Pool_Remove_def Let_def split: option.splits)

lemma admitContract_error: "admitContract V t S = Some (Inl e, S') \<Longrightarrow> S' = S"
  by (auto simp: admitContract_def Let_def split: if_splits option.splits)

lemma admitContract_ok:
  assumes "admitContract V t S = Some (Inr r, S')"
  obtains sender account oid where "GetSender (sv_ext V) t = Some sender"
    and "SearchAccount (ns_vm (sv_node S)) (Hex_String (Some sender)) = Some (Some account)"
    and "txTotal t \<le> ln_Balance account" and "0 < GetFuelPrice t"
    and "\<bar>GetFuelLimit t\<bar> \<le> \<bar>sint (sv_Maxfuellimit V)\<bar>"
    and "GetFuelPrice t * GetFuelLimit t \<le> sint (sv_Maxfuellimit V) * sint (sv_Maxfuelprice V)"
    and "IdentifiableTx_Id (sv_ext V) t = Some oid" and "er_Successful r"
    and "S' = set_node ((sv_node S)\<lparr>ns_smc := (ns_smc (sv_node S))
               \<lparr>unconfirmedPool := (unconfirmedPool (ns_smc (sv_node S)))(oid \<mapsto> t),
                confirmedPool := (confirmedPool (ns_smc (sv_node S)))(oid := None)\<rparr>\<rparr>) S"
  using assms
  by (auto simp: admitContract_def Let_def AddUnconfirmed_Some split: if_splits option.splits)

lemma admitPayment_error: "admitPayment V t S = Some (Inl e, S') \<Longrightarrow> S' = S"
  by (auto simp: admitPayment_def executePaymentTx_def split: if_splits option.splits prod.splits)

lemma admitPayment_ok:
  assumes "admitPayment V t S = Some (Inr r, S')"
  obtains sender b where "GetSender (sv_ext V) t = Some sender"
    and "GetBalance (ns_pins (sv_node S)) (ns_walletCache (sv_node S)) sender = Some (b, None)"
    and "GetAmount t \<le> b" and "GetFuelLimit t = 0" and "GetFuelPrice t = 0" and "er_Successful r"
    and "S' = S\<lparr>sv_publish := sv_publish S @ [t]\<rparr>"
  using assms
  by (auto simp: admitPayment_def executePaymentTx_def txTotal_def
           split: if_splits option.splits prod.splits)

text \<open>What precedes the branch on the type changes nothing and checks format, signature and network.\<close>

lemma SendRawTransaction_cases:
  assumes "SendRawTransaction V pbTx S = Some (res, S')"
  obtains (refused) e where "res = Inl e" and "S' = S"
  | (checked) txBytes t0 t ct hash res0 where "hexDecode pbTx = (txBytes, None)"
      and "ParseTransaction (sv_ext V) txBytes = Some t0"
      and "VerifySignature (sv_ext V) t0 = Some (True, t)"
      and "GetChainType t = Some ct" and "uint ct = sv_Network V"
      and "GetHash (sv_ext V) t = Some hash"
      and "(if isContractTx t then admitContract V t S else admitPayment V t S) = Some (res0, S')"
      and "res = (case res0 of Inl e \<Rightarrow> Inl e | Inr r \<Rightarrow> Inr (r\<lparr>er_Hash := ''0x'' @ hexEncode hash\<rparr>))"
proof -
  obtain txBytes he where hd: "hexDecode pbTx = (txBytes, he)" by fastforce
  note defs = SendRawTransaction_def hd
  show thesis
  proof (cases "\<exists>e. res = Inl e \<and> S' = S")
    case True
    then show thesis using refused by blast
  next
    case no: False
    with assms have he: "he = None" and ne: "pbTx \<noteq> []"
      by (auto simp: defs split: if_splits option.splits)
    with assms no obtain t0 where t0: "ParseTransaction (sv_ext V) txBytes = Some t0"
      by (auto simp: defs split: if_splits option.splits)
    with assms no he ne obtain ok t where ver: "VerifySignature (sv_ext V) t0 = Some (ok, t)"
      by (auto simp: defs split: if_splits option.splits)
    with assms no he ne t0 obtain ct where ct: "GetChainType t = Some ct" "uint ct = sv_Network V"
      by (auto simp: defs split: if_splits option.splits)
    with assms no he ne t0 ver obtain hash where h: "GetHash (sv_ext V) t = Some hash" and ok: ok
      by (auto simp: defs split: if_splits option.splits)
    from assms he ne t0 ver ct h ok obtain res0 where r0:
      "(if isContractTx t then admitContract V t S else admitPayment V t S) = Some (res0, S')"
      "res = (case res0 of Inl e \<Rightarrow> Inl e | Inr r \<Rightarrow> Inr (r\<lparr>er_Hash := ''0x'' @ hexEncode hash\<rparr>))"
      by (auto simp: defs split: if_splits option.splits sum.splits)
    have hd': "hexDecode pbTx = (txBytes, None)" and ver': "VerifySignature (sv_ext V) t0 = Some (True, t)"
      using hd he ver ok by simp_all
    show thesis by (rule checked [OF hd' t0 ver' ct h r0])
  qed
qed

text \<open>A signed payment from a wallet with enough funds is admitted; the key need not be the wallet's.\<close>

lemma admit_signed_payment:
  assumes raw: "raw \<noteq> []" "rlp_Decode (sv_ext V) raw = None"
    and dec: "proto_Unmarshal (sv_ext V) raw = Some (Txv1_MarshalBinary (sv_ext V) t)"
    and E: "ext_ok (sv_ext V)" and ver: "Txv1_Verify (sv_ext V) t = (None, t)"
    and h: "Txv1_Hash (sv_ext V) t = Some hash"
    and ct: "uint (Chain_Type t) = sv_Network V" and pay: "Tx_Type t = PAYMENT"
    and fuel: "Fuel_Limit t = []" "Fuel_Price t = []"
    and b: "GetBalance (ns_pins (sv_node S)) (ns_walletCache (sv_node S)) (Sender t) = Some (b, None)"
      "SetBytes (Amount t) \<le> b"
  shows "SendRawTransaction V (hexEncode raw) S =
    Some (Inr \<lparr>er_Hash = ''0x'' @ hexEncode hash, er_Successful = True, er_Output = [], er_GasUsed = 0\<rparr>,
          S\<lparr>sv_publish := sv_publish S @ [TxV1 t]\<rparr>)"
proof -
  have un: "Txv1_UnmarshalBinary (sv_ext V) (Txv1_MarshalBinary (sv_ext V) t) = t"
    using E by (simp add: Txv1_UnmarshalBinary_def Txv1_MarshalBinary_def ext_ok_def)
  have parse: "ParseTransaction (sv_ext V) raw = Some (TxV1 t)"
    by (simp add: ParseTransaction_def raw dec un)
  have adm: "admitPayment V (TxV1 t) S =
      Some (Inr \<lparr>er_Hash = [], er_Successful = True, er_Output = [], er_GasUsed = 0\<rparr>,
            S\<lparr>sv_publish := sv_publish S @ [TxV1 t]\<rparr>)"
    using b by (simp add: admitPayment_def executePaymentTx_def emptyResult_def h txTotal_def
      Txv1_GetAmount_def Txv1_GetFuelLimit_def Txv1_GetFuelPrice_def fuel)
  have ne: "hexEncode raw \<noteq> []" using raw(1) by (cases raw) simp_all
  show ?thesis
    by (simp add: SendRawTransaction_def ne parse ver ct h isContractTx_def pay adm)
qed

section \<open>Lemmas on searching\<close>

lemma logged_Some [simp]:
  "logged E t x = Some y \<longleftrightarrow> y = x \<and> GetHash E t \<noteq> None \<and> GetSender E t \<noteq> None"
  by (auto simp: logged_def split: option.splits)

text \<open>What every collected transaction satisfies.\<close>

definition tx_matches :: "ext \<Rightarrow> tx_query \<Rightarrow> UnifiedTx \<Rightarrow> bool" where
  "tx_matches E q u \<longleftrightarrow>
     (\<exists>t. GetRawTx u = Some t \<and> query_filter E q t = Some True \<and> GetHash E t \<noteq> None) \<and>
     (q_confirmed q = Some True \<longrightarrow> IsConfirmed u) \<and> (q_confirmed q = Some False \<longrightarrow> \<not> IsConfirmed u)"

lemma unified_simps [simp]:
  "GetRawTx (ConfirmedTx_ToUnified c) = Some (ct_Transaction c)" "IsConfirmed (ConfirmedTx_ToUnified c)"
  "GetRawTx (IdentifiableTx_ToUnified t) = Some t" "\<not> IsConfirmed (IdentifiableTx_ToUnified t)"
  "GetRawTx (NewUnifiedConfirmedTxRaw t n h i g) = Some t" "IsConfirmed (NewUnifiedConfirmedTxRaw t n h i g)"
  by (simp_all add: ConfirmedTx_ToUnified_def IdentifiableTx_ToUnified_def NewUnifiedConfirmedTxRaw_def
    GetRawTx_def IsConfirmed_def)

lemma rawTx_simps [simp]:
  "rawTx (ConfirmedTx_ToUnified c) = ct_Transaction c" "rawTx (IdentifiableTx_ToUnified t) = t"
  "rawTx (NewUnifiedConfirmedTxRaw t n h i g) = t"
  by (simp_all add: rawTx_def)

text \<open>
  The loops only append to what was collected, append matching transactions, and append one for
  every visited transaction that passes the filter.
\<close>

definition extends :: "ext \<Rightarrow> tx_query \<Rightarrow> transaction set \<Rightarrow> UnifiedTx list \<Rightarrow> UnifiedTx list \<Rightarrow> bool" where
  "extends E q T us us' \<longleftrightarrow>
     (\<exists>vs. us' = us @ vs \<and> (\<forall>u\<in>set vs. tx_matches E q u) \<and>
           (\<forall>t\<in>T. query_filter E q t = Some True \<longrightarrow> t \<in> rawTx ` set vs))"

lemma extends_refl [intro]: "(\<forall>t\<in>T. query_filter E q t \<noteq> Some True) \<Longrightarrow> extends E q T us us"
  by (simp add: extends_def)

lemma extends_step:
  assumes "extends E q T (us @ [u]) us'" and "tx_matches E q u" and "rawTx u = t"
  shows "extends E q (insert t T) us us'"
proof -
  obtain vs where "us' = (us @ [u]) @ vs" "\<forall>u\<in>set vs. tx_matches E q u"
      "\<forall>t\<in>T. query_filter E q t = Some True \<longrightarrow> t \<in> rawTx ` set vs"
    using assms(1) unfolding extends_def by blast
  with assms(2,3) show ?thesis unfolding extends_def by (intro exI [of _ "u # vs"]) auto
qed

lemma extends_skip:
  "extends E q T us us' \<Longrightarrow> query_filter E q t \<noteq> Some True \<Longrightarrow> extends E q (insert t T) us us'"
  unfolding extends_def by blast

lemma extends_trans:
  assumes "extends E q T us us'" and "extends E q T' us' us''"
  shows "extends E q (T \<union> T') us us''"
proof -
  obtain vs vs' where "us' = us @ vs" "us'' = us' @ vs'"
      "\<forall>u\<in>set vs. tx_matches E q u" "\<forall>u\<in>set vs'. tx_matches E q u"
      "\<forall>t\<in>T. query_filter E q t = Some True \<longrightarrow> t \<in> rawTx ` set vs"
      "\<forall>t\<in>T'. query_filter E q t = Some True \<longrightarrow> t \<in> rawTx ` set vs'"
    using assms unfolding extends_def by blast
  then show ?thesis unfolding extends_def by (intro exI [of _ "vs @ vs'"]) auto
qed

lemma smcTxs_search_extends:
  assumes "smcTxs_search E q n h i g xs c = Some c'" and "q_confirmed q \<noteq> Some False"
  shows "extends E q {t. \<exists>x\<in>set xs. UnmarshalBinary E (ex_Tx x) = Some t} (c_accTxs c) (c_accTxs c') \<and>
         c_processed c' = c_processed c"
  using assms(1)
proof (induction xs arbitrary: i g c)
  case Nil
  then show ?case by (auto simp: extends_def)
next
  case (Cons x xs)
  obtain t where t: "UnmarshalBinary E (ex_Tx x) = Some t"
    using Cons.prems by (auto simp: Let_def split: option.splits)
  have T: "{t. \<exists>y\<in>set (x # xs). UnmarshalBinary E (ex_Tx y) = Some t} =
           insert t {t. \<exists>y\<in>set xs. UnmarshalBinary E (ex_Tx y) = Some t}" using t by auto
  obtain h' b where b: "GetHash E t = Some h'" "query_filter E q t = Some b"
    using Cons.prems by (auto simp: t Let_def split: option.splits bool.splits)
  show ?case
  proof (cases b)
    case True
    let ?g = "g + sint (rc_FuelUsed (ex_Receipt x))"
    let ?u = "ConfirmedTx_ToUnified
       \<lparr>ct_Transaction = t, UsedFuel = sint (rc_FuelUsed (ex_Receipt x)),
        StatusMessage = rc_StatusMessage (ex_Receipt x),
        ct_Status = (if rc_Status (ex_Receipt x) = FAILED then Failed else Successful),
        PinTxNumber = n, PinTxHash = h, TxIndex = i, CumulativeGasUsed = ?g\<rparr>"
    have u: "rawTx ?u = t" "tx_matches E q ?u"
      using b True assms(2) by (simp_all add: tx_matches_def)
    obtain s where "GetSender E t = Some s"
      using Cons.prems b True by (cases "GetSender E t") (simp_all add: t Let_def logged_def del: logged_Some)
    then have "smcTxs_search E q n h (i + 1) ?g xs (c\<lparr>c_accTxs := c_accTxs c @ [?u]\<rparr>) = Some c'"
      using Cons.prems b True by (simp add: t Let_def logged_def del: logged_Some)
    then show ?thesis unfolding T using Cons.IH extends_step [OF _ u(2,1)] by fastforce
  next
    case False
    then have "smcTxs_search E q n h (i + 1) (g + sint (rc_FuelUsed (ex_Receipt x))) xs c = Some c'"
      using Cons.prems b by (simp add: t Let_def)
    then show ?thesis unfolding T using Cons.IH extends_skip b False by fastforce
  qed
qed

definition node_key :: "ext \<Rightarrow> pb_Node \<Rightarrow> string" where
  "node_key E node =
     uuid_String E (case uuid_FromBytes E (pbn_Id (pbn_NodeId node)) of None \<Rightarrow> 0 | Some u \<Rightarrow> u)"

definition shown :: "tx_query \<Rightarrow> bool \<Rightarrow> 'a set \<Rightarrow> 'a set" where
  "shown q conf T = (if q_confirmed q = Some (\<not> conf) then {} else T)"

lemma payments_search_extends:
  assumes "payments_search E q n h i ns c = Some c'"
  shows "extends E q (shown q True {t. \<exists>x\<in>set ns. UnmarshalBinary E (pbn_Tx x) = Some t})
           (c_accTxs c) (c_accTxs c') \<and>
         c_processed c' \<subseteq> c_processed c \<union> node_key E ` set ns"
  using assms
proof (induction ns arbitrary: i c)
  case Nil
  then show ?case by (auto simp: extends_def shown_def)
next
  case (Cons x ns)
  let ?T = "{t. \<exists>y\<in>set ns. UnmarshalBinary E (pbn_Tx y) = Some t}"
  obtain t where t: "UnmarshalBinary E (pbn_Tx x) = Some t" using Cons.prems by (auto split: option.splits)
  have T: "{t. \<exists>y\<in>set (x # ns). UnmarshalBinary E (pbn_Tx y) = Some t} = insert t ?T" using t by auto
  obtain b where b: "query_filter E q t = Some b"
    using Cons.prems by (auto simp: t split: option.splits)
  let ?c = "c\<lparr>c_processed := insert (node_key E x) (c_processed c)\<rparr>"
  show ?case
  proof (cases "b \<and> q_confirmed q \<noteq> Some False")
    case True
    let ?u = "NewUnifiedConfirmedTxRaw t n h i 0"
    have u: "tx_matches E q ?u"
        "payments_search E q n h (i + 1) ns (?c\<lparr>c_accTxs := c_accTxs c @ [?u]\<rparr>) = Some c'"
      using Cons.prems b True by (auto simp: t Let_def tx_matches_def node_key_def split: option.splits if_splits)
    show ?thesis unfolding T using Cons.IH [OF u(2)] extends_step [OF _ u(1)] True by (auto simp: shown_def)
  next
    case False
    then have "payments_search E q n h (i + 1) ns (if b then ?c else c) = Some c'"
      using Cons.prems b by (cases b) (auto simp: t Let_def node_key_def split: if_splits)
    from Cons.IH [OF this] show ?thesis
      unfolding T using b False extends_skip [of E q ?T _ _ t] by (auto simp: shown_def split: if_splits)
  qed
qed

definition pinned_txs :: "ext \<Rightarrow> TxPin list \<Rightarrow> transaction set" where
  "pinned_txs E pins =
     {t. \<exists>pin\<in>set pins. (\<exists>x\<in>set (pin_SmcTxs pin). UnmarshalBinary E (ex_Tx x) = Some t) \<or>
                        (\<exists>x\<in>set (pin_Nodes pin). UnmarshalBinary E (pbn_Tx x) = Some t)}"

definition pinned_keys :: "ext \<Rightarrow> TxPin list \<Rightarrow> string set" where
  "pinned_keys E pins = (\<Union>pin\<in>set pins. node_key E ` set (pin_Nodes pin))"

lemma pinned_Cons:
  "pinned_txs E (p # ps) =
     ({t. \<exists>x\<in>set (pin_SmcTxs p). UnmarshalBinary E (ex_Tx x) = Some t} \<union>
      {t. \<exists>x\<in>set (pin_Nodes p). UnmarshalBinary E (pbn_Tx x) = Some t}) \<union> pinned_txs E ps"
  "pinned_keys E (p # ps) = node_key E ` set (pin_Nodes p) \<union> pinned_keys E ps"
  by (auto simp: pinned_txs_def pinned_keys_def)

lemma shown_Un: "shown q b (A \<union> B) = shown q b A \<union> shown q b B"
  by (simp add: shown_def)

lemma confirmed_search_extends:
  assumes "confirmed_search V q n pins c = Some c'"
  shows "extends (pe_ext V) q (shown q True (pinned_txs (pe_ext V) pins)) (c_accTxs c) (c_accTxs c') \<and>
         c_processed c' \<subseteq> c_processed c \<union> pinned_keys (pe_ext V) pins"
  using assms
proof (induction pins arbitrary: n c)
  case Nil
  then show ?case by (auto simp: extends_def shown_def pinned_txs_def)
next
  case (Cons p pins)
  let ?E = "pe_ext V"
  let ?S = "{t. \<exists>x\<in>set (pin_SmcTxs p). UnmarshalBinary ?E (ex_Tx x) = Some t}"
  obtain ph where ph: "TxPin_Hash ?E (pe_marshal V) (pe_ord V) p = Some ph"
    using Cons.prems by (auto split: option.splits)
  let ?h = "Hex_String (Some ph)"
  obtain c1 where c1: "(if q_confirmed q = Some False then Some c
       else smcTxs_search ?E q n ?h (int (length (pin_Nodes p))) 0 (pin_SmcTxs p) c) = Some c1"
    using Cons.prems by (auto simp: ph Let_def split: option.splits)
  obtain c2 where c2: "payments_search ?E q n ?h 0 (pin_Nodes p) c1 = Some c2"
      "confirmed_search V q (n + 1) pins c2 = Some c'"
    using Cons.prems by (auto simp: ph Let_def c1 split: option.splits)
  have 1: "extends ?E q (shown q True ?S) (c_accTxs c) (c_accTxs c1)" "c_processed c1 = c_processed c"
  proof -
    have "extends ?E q (shown q True ?S) (c_accTxs c) (c_accTxs c1) \<and> c_processed c1 = c_processed c"
    proof (cases "q_confirmed q = Some False")
      case True
      then show ?thesis using c1 by (auto simp: shown_def extends_def)
    next
      case False
      with c1 show ?thesis using smcTxs_search_extends [OF _ False] by (simp add: shown_def)
    qed
    then show "extends ?E q (shown q True ?S) (c_accTxs c) (c_accTxs c1)" "c_processed c1 = c_processed c" by auto
  qed
  show ?case
    using extends_trans [OF extends_trans [OF 1(1) payments_search_extends [OF c2(1), THEN conjunct1]]
                            Cons.IH [OF c2(2), THEN conjunct1]]
      payments_search_extends [OF c2(1)] Cons.IH [OF c2(2)] 1(2)
    unfolding pinned_Cons shown_Un by auto
qed

lemma find_filter:
  "find_loop (\<lambda>t st. map_option (\<lambda>b. (b, st)) (f t)) xs st = Some ts \<Longrightarrow>
   ts = filter (\<lambda>t. f t = Some True) xs"
  by (induction xs arbitrary: ts) (auto split: option.splits)

lemma keep_logged_map:
  "keep_logged E ts = Some us \<Longrightarrow>
   us = map IdentifiableTx_ToUnified ts \<and> (\<forall>t\<in>set ts. GetHash E t \<noteq> None)"
  by (induction ts arbitrary: us) (auto split: option.splits)

lemma dag_collect_map:
  "dag_collect E h q K as = Some us \<Longrightarrow>
   us = map (\<lambda>a. IdentifiableTx_ToUnified (n_tx (h a)))
          (filter (\<lambda>a. uuid_String E (node_uuid h a) \<notin> K \<and> query_filter E q (n_tx (h a)) = Some True) as) \<and>
   (\<forall>u\<in>set us. GetHash E (rawTx u) \<noteq> None)"
  by (induction as arbitrary: us) (auto split: option.splits if_splits bool.splits)

lemma unconfirmed_search_extends:
  assumes "unconfirmed_search V q W K = Some us" and "range_order (pe_ord V)"
    and "finite (dom (unconfirmedPool (ns_smc (w_node W))))"
  shows "extends (pe_ext V) q
    (shown q False (ran (unconfirmedPool (ns_smc (w_node W))) \<union>
       {n_tx (w_heap W a) | a. a \<in> set (dg_dag (w_dag W)) \<and>
                               uuid_String (pe_ext V) (node_uuid (w_heap W) a) \<notin> K})) [] us"
proof (cases "q_confirmed q = Some True")
  case True
  then show ?thesis using assms(1) by (auto simp: unconfirmed_search_def shown_def)
next
  case False
  let ?p = "unconfirmedPool (ns_smc (w_node W))" let ?E = "pe_ext V"
  obtain ts us1 us2 where r: "Pool_Find (pe_ord V) (\<lambda>t st. map_option (\<lambda>b. (b, st)) (query_filter ?E q t)) () ?p = Some ts"
      "keep_logged ?E ts = Some us1" "dag_collect ?E (w_heap W) q K (dg_dag (w_dag W)) = Some us2"
      "us = us1 @ us2"
    using assms(1) False by (auto simp: unconfirmed_search_def split: option.splits)
  have "set (map (\<lambda>k. the (?p k)) (pe_ord V (dom ?p))) = ran ?p"
    using assms(2,3) by (auto simp: range_order_set ran_def image_def) force
  then have ts: "set ts = {t \<in> ran ?p. query_filter ?E q t = Some True}"
    using find_filter r(1) unfolding Pool_Find_def by fastforce
  have us1: "us1 = map IdentifiableTx_ToUnified ts" "\<forall>t\<in>set ts. GetHash ?E t \<noteq> None"
    using keep_logged_map [OF r(2)] by auto
  let ?as = "filter (\<lambda>a. uuid_String ?E (node_uuid (w_heap W) a) \<notin> K \<and>
    query_filter ?E q (n_tx (w_heap W a)) = Some True) (dg_dag (w_dag W))"
  have us2: "us2 = map (\<lambda>a. IdentifiableTx_ToUnified (n_tx (w_heap W a))) ?as"
      "\<forall>a\<in>set ?as. GetHash ?E (n_tx (w_heap W a)) \<noteq> None"
    using dag_collect_map [OF r(3)] by auto
  have "\<forall>u\<in>set us. tx_matches ?E q u"
    using False us1 us2(2) ts unfolding r(4) us2(1) by (auto simp: tx_matches_def)
  moreover have "rawTx ` set us = set ts \<union> (\<lambda>a. n_tx (w_heap W a)) ` set ?as"
    unfolding r(4) us1(1) us2(1) by (simp add: image_Un image_image)
  ultimately show ?thesis
    unfolding extends_def using ts by (intro exI [of _ us]) (auto simp: shown_def split: if_splits)
qed

lemma uniqueTxs_fold:
  "fold (\<lambda>u m. m(tx_key E u \<mapsto> u)) us m0 k = Some u \<Longrightarrow> m0 k = Some u \<or> u \<in> set us \<and> tx_key E u = k"
  by (induction us arbitrary: m0) (force split: if_splits)+

lemma uniqueTxs_dom_fold: "dom (fold (\<lambda>u m. m(tx_key E u \<mapsto> u)) us m0) = dom m0 \<union> tx_key E ` set us"
  by (induction us arbitrary: m0) auto

lemma uniqueTxs_Some: "uniqueTxs E us k = Some u \<Longrightarrow> u \<in> set us \<and> tx_key E u = k"
  unfolding uniqueTxs_def using uniqueTxs_fold [of E us Map.empty k u] by simp

lemma uniqueTxs_dom: "dom (uniqueTxs E us) = tx_key E ` set us"
  unfolding uniqueTxs_def by (simp add: uniqueTxs_dom_fold)

lemma deduplicate_keys:
  assumes "range_order ord"
  shows "map (tx_key E) (deduplicate E ord us) = ord (tx_key E ` set us)"
    and "set (deduplicate E ord us) \<subseteq> set us"
proof -
  have *: "\<exists>u. uniqueTxs E us k = Some u \<and> u \<in> set us \<and> tx_key E u = k"
    if "k \<in> set (ord (tx_key E ` set us))" for k
    using that assms uniqueTxs_Some [of E us k] uniqueTxs_dom [of E us]
    by (auto simp: range_order_set dest: domD) (metis domD image_eqI)
  show "map (tx_key E) (deduplicate E ord us) = ord (tx_key E ` set us)"
    unfolding deduplicate_def uniqueTxs_dom map_map using * by (intro map_idI) fastforce
  show "set (deduplicate E ord us) \<subseteq> set us"
    unfolding deduplicate_def uniqueTxs_dom using * by fastforce
qed

definition ts_ordered :: "int \<Rightarrow> bool \<Rightarrow> UnifiedTx list \<Rightarrow> bool" where
  "ts_ordered now_ms ascSort =
     sorted_wrt (\<lambda>u v. if ascSort then GetTimestamp now_ms (rawTx u) \<le> GetTimestamp now_ms (rawTx v)
                       else GetTimestamp now_ms (rawTx v) \<le> GetTimestamp now_ms (rawTx u))"

lemma sortTxs_props:
  "mset (sortTxs now asc us) = mset us" "ts_ordered now asc (sortTxs now asc us)"
proof -
  show "mset (sortTxs now asc us) = mset us" by (simp add: sortTxs_def)
  have "sorted (map (\<lambda>u. uint (GetTimestamp now (rawTx u))) (sort_key (\<lambda>u. uint (GetTimestamp now (rawTx u))) us))"
    "sorted (map (\<lambda>u. - uint (GetTimestamp now (rawTx u))) (sort_key (\<lambda>u. - uint (GetTimestamp now (rawTx u))) us))"
    by (rule sorted_sort_key)+
  then show "ts_ordered now asc (sortTxs now asc us)"
    by (simp add: ts_ordered_def sortTxs_def sorted_map word_le_def)
qed

text \<open>
  The transactions a query is about: those of the pins, those of the unconfirmed pool, and those of the
  vertices of the DAG that no pin contains.
\<close>

definition stored_txs :: "ext \<Rightarrow> tx_query \<Rightarrow> World \<Rightarrow> transaction set" where
  "stored_txs E q W =
     shown q True (pinned_txs E (ns_pins (w_node W))) \<union>
     shown q False (ran (unconfirmedPool (ns_smc (w_node W))) \<union>
       {n_tx (w_heap W a) | a. a \<in> set (dg_dag (w_dag W)) \<and>
          uuid_String E (node_uuid (w_heap W) a) \<notin> pinned_keys E (ns_pins (w_node W))})"

lemma extends_mono: "extends E q T us us' \<Longrightarrow> T' \<subseteq> T \<Longrightarrow> extends E q T' us us'"
  unfolding extends_def by blast

lemma extends_append: "extends E q T [] vs \<Longrightarrow> extends E q T us (us @ vs)"
  unfolding extends_def by auto

lemma collectTxs_extends:
  assumes "collectTxs V q W = Some us" and "range_order (pe_ord V)"
    and "finite (dom (unconfirmedPool (ns_smc (w_node W))))"
  shows "extends (pe_ext V) q (stored_txs (pe_ext V) q W) [] us"
proof -
  obtain c vs where c: "confirmed_search V q 0 (ns_pins (w_node W)) \<lparr>c_accTxs = [], c_processed = {}\<rparr> = Some c"
      and vs: "unconfirmed_search V q W (c_processed c) = Some vs" and us: "us = c_accTxs c @ vs"
    using assms(1) by (auto simp: collectTxs_def split: option.splits)
  note 1 = confirmed_search_extends [OF c, simplified]
  note 2 = extends_append [OF unconfirmed_search_extends [OF vs assms(2,3)], of "c_accTxs c"]
  show ?thesis unfolding us stored_txs_def
    by (rule extends_mono [OF extends_trans [OF 1 [THEN conjunct1] 2]])
       (use 1 in \<open>auto simp: shown_def\<close>)
qed

lemma tx_matches_hash: "tx_matches E q u \<Longrightarrow> GetHash E (rawTx u) \<noteq> None"
  by (auto simp: tx_matches_def rawTx_def)

text \<open>All transactions of a query, before the page is cut out.\<close>

lemma allTxs_props:
  assumes "allTxs V q asc W = Some us" and "range_order (pe_ord V)"
    and "finite (dom (unconfirmedPool (ns_smc (w_node W))))"
  shows "distinct (map (tx_key (pe_ext V)) us)" and "ts_ordered (pe_now_ms V) asc us"
    and "\<forall>u\<in>set us. tx_matches (pe_ext V) q u"
    and "\<lbrakk>t \<in> stored_txs (pe_ext V) q W; query_filter (pe_ext V) q t = Some True\<rbrakk> \<Longrightarrow>
         GetHash (pe_ext V) t \<in> GetHash (pe_ext V) ` rawTx ` set us"
proof -
  let ?E = "pe_ext V"
  obtain us0 where us0: "collectTxs V q W = Some us0"
      and us: "us = sortTxs (pe_now_ms V) asc (deduplicate ?E (pe_ord V) us0)"
    using assms(1) by (auto simp: allTxs_def)
  let ?d = "deduplicate ?E (pe_ord V) us0"
  note dd = deduplicate_keys [OF assms(2), of ?E us0]
  have set_us: "set us = set ?d" using sortTxs_props(1) [of _ asc ?d] us by (metis mset_eq_setD)
  have fin: "finite (tx_key ?E ` set us0)" by simp
  have "mset (map (tx_key ?E) us) = mset (map (tx_key ?E) ?d)" using sortTxs_props(1) us by simp
  moreover have "distinct (map (tx_key ?E) ?d)" unfolding dd(1) by (rule range_order_distinct [OF assms(2) fin])
  ultimately show "distinct (map (tx_key ?E) us)" by (metis mset_eq_imp_distinct_iff)
  show "ts_ordered (pe_now_ms V) asc us" unfolding us by (rule sortTxs_props)
  have ext: "extends ?E q (stored_txs ?E q W) [] us0" by (rule collectTxs_extends [OF us0 assms(2,3)])
  then have m: "\<forall>u\<in>set us0. tx_matches ?E q u" unfolding extends_def by simp
  then show "\<forall>u\<in>set us. tx_matches ?E q u" using set_us dd(2) by auto
  assume t: "t \<in> stored_txs ?E q W" and f: "query_filter ?E q t = Some True"
  then obtain u where u: "u \<in> set us0" "rawTx u = t" using ext unfolding extends_def by auto
  have "tx_key ?E u \<in> tx_key ?E ` set us"
    using dd(1) range_order_set [OF assms(2) fin] u(1) set_us by (metis image_eqI set_map)
  then obtain v where v: "v \<in> set us" "tx_key ?E v = tx_key ?E u" by auto
  have "v \<in> set us0" using v(1) set_us dd(2) by blast
  then have "GetHash ?E (rawTx v) \<noteq> None" "GetHash ?E (rawTx u) \<noteq> None" using tx_matches_hash m u(1) by blast+
  then have "GetHash ?E (rawTx v) = GetHash ?E (rawTx u)" using v(2) by (auto simp: tx_key_def)
  then show "GetHash ?E t \<in> GetHash ?E ` rawTx ` set us" using v(1) u(2) by (metis image_eqI)
qed

lemma int_word64: "0 \<le> x \<Longrightarrow> x < 2 ^ 63 \<Longrightarrow> sint (word_of_int x :: 64 word) = x"
  by (simp add: sint_sbintrunc' signed_take_bit_int_eq_self)

lemma paginate_Some:
  assumes "paginate offset limit xs = Some ys"
  shows "ys = take (nat limit) (drop (nat offset) xs)" and "ys \<noteq> [] \<Longrightarrow> 0 \<le> offset"
  using assms by (auto simp: paginate_def Let_def split: if_splits)

lemma pages_prefix: "concat (map (\<lambda>i. take n (drop (i * n) xs)) [0..<k]) = take (k * n) xs"
proof (induction k)
  case (Suc k)
  have "take (k * n) xs @ take n (drop (k * n) xs) = take (k * n + n) xs" by (rule take_add [symmetric])
  with Suc show ?case by (simp add: add.commute)
qed simp

section \<open>Properties\<close>


definition demo_signing :: ext where
  "demo_signing = demo_ext
     \<lparr>proto_Marshal := (\<lambda>m. if m = demo_pb\<lparr>pbSignature := pbSignature m\<rparr> then Some (1 # pbSignature m) else None),
      proto_Unmarshal := (\<lambda>b. case b of [] \<Rightarrow> None
                             | x # s \<Rightarrow> if x = 1 then Some (demo_pb\<lparr>pbSignature := s\<rparr>) else None)\<rparr>"

definition demo_svc :: svc_env where
  "demo_svc = \<lparr>sv_pin = demo_env\<lparr>pe_ext := demo_signing\<rparr>, sv_Network = 2, sv_Maxfuellimit = 10,
     sv_Maxfuelprice = 10, sv_RunCode = (\<lambda>_ vm. (Inl [], vm)), sv_EstimateGas = (\<lambda>_ vm. (Inl [], vm))\<rparr>"

definition demo_service :: Service where
  "demo_service =
     \<lparr>sv_world = demo_start\<lparr>w_node := demo_state
        \<lparr>ns_walletCache := [''0x'' @ hexEncode (replicate 20 1) \<mapsto> [([], 9)]]\<rparr>\<rparr>, sv_publish = []\<rparr>"

lemma demo_signing_marshal:
  "Txv1_MarshalBinary demo_signing (demo_tx\<lparr>Signature := s\<rparr>) = demo_pb\<lparr>pbSignature := s\<rparr>"
  by (simp add: Txv1_MarshalBinary_def demo_tx_def demo_pb_def demo_signing_def demo_ext_def)

lemma demo_signing_proto:
  "proto_Marshal demo_signing (demo_pb\<lparr>pbSignature := s\<rparr>) = Some (1 # s)"
  "proto_Unmarshal demo_signing (1 # s) = Some (demo_pb\<lparr>pbSignature := s\<rparr>)"
  "rlp_Decode demo_signing raw = None"
  by (simp_all add: demo_signing_def demo_ext_def)

lemma demo_signing_ok: "ext_ok demo_signing" "pub \<noteq> [] \<Longrightarrow> key_pair demo_signing seed pub"
proof -
  have "ext_ok demo_ext" by simp
  then show "ext_ok demo_signing" by (auto simp: ext_ok_def demo_signing_def)
  show "pub \<noteq> [] \<Longrightarrow> key_pair demo_signing seed pub"
    by (simp add: key_pair_def demo_signing_def demo_ext_def)
qed

lemma demo_svc_simps [simp]:
  "sv_ext demo_svc = demo_signing" "sv_Network demo_svc = 2" "sv_publish demo_service = []"
  "pe_ord (sv_pin demo_svc) = sorted_list_of_set"
  by (simp_all add: demo_svc_def demo_service_def demo_env_def)

lemma demo_service_balance:
  "GetBalance (ns_pins (sv_node demo_service)) (ns_walletCache (sv_node demo_service)) (replicate 20 1) =
   Some (9, None)"
  by (simp add: demo_service_def demo_state_def GetBalance_def GetBalances_def addressOf_def BytesToAddress_def)

text \<open>
  C4. The sender of a payment is not bound to the key that signs it. Whoever holds any key pair can take a
  payment out of any wallet whose balance covers it: signed with that foreign key, the transaction
  verifies and is admitted to the publish queue with the victim as its sender.
\<close>
theorem forged_payment_admitted:
  assumes E: "ext_ok (sv_ext V)" and key: "key_pair (sv_ext V) seed (Sender_Pubk t)"
    and enc: "\<And>s. \<exists>raw. proto_Marshal (sv_ext V) (Txv1_MarshalBinary (sv_ext V) (t\<lparr>Signature := s\<rparr>)) = Some raw \<and>
                        raw \<noteq> [] \<and> rlp_Decode (sv_ext V) raw = None"
    and tx: "uint (Chain_Type t) = sv_Network V" "Tx_Type t = PAYMENT" "Fuel_Limit t = []" "Fuel_Price t = []"
    and b: "GetBalance (ns_pins (sv_node S)) (ns_walletCache (sv_node S)) (Sender t) = Some (b, None)"
      "SetBytes (Amount t) \<le> b"
  shows "\<exists>raw t' r. Txv1_Sign (sv_ext V) seed t = Some t' \<and> Sender t' = Sender t \<and>
           Sender_Pubk t' = Sender_Pubk t \<and> Amount t' = Amount t \<and> Recepient t' = Recepient t \<and>
           SendRawTransaction V (hexEncode raw) S = Some (Inr r, S\<lparr>sv_publish := sv_publish S @ [TxV1 t']\<rparr>)"
proof -
  obtain h where h: "Txv1_Hash (sv_ext V) (t\<lparr>Signature := []\<rparr>) = Some h"
    using enc [of "[]"] by (auto simp: Txv1_Hash_def)
  have hl: "h \<noteq> []" using Txv1_Hash_len [OF E] h by fastforce
  obtain s where s: "ed25519_Sign (sv_ext V) seed h = Some s" "length s = 64"
      "ed25519_Verify (sv_ext V) (Sender_Pubk t) h s"
    using key unfolding key_pair_def by blast
  have pk: "Sender_Pubk t \<noteq> []" using key by (simp add: key_pair_def)
  let ?t = "t\<lparr>Signature := s\<rparr>"
  obtain raw where raw: "proto_Marshal (sv_ext V) (Txv1_MarshalBinary (sv_ext V) ?t) = Some raw"
      "raw \<noteq> []" "rlp_Decode (sv_ext V) raw = None" using enc by blast
  have ver: "Txv1_Verify (sv_ext V) ?t = (None, ?t)"
    using s hl pk h by (auto simp: Txv1_Verify_def DSA_Verify_def)
  have sign: "Txv1_Sign (sv_ext V) seed t = Some ?t"
    by (simp add: Txv1_Sign_def generateSignature_def h DSA_Sign_def s)
  have dec: "proto_Unmarshal (sv_ext V) raw = Some (Txv1_MarshalBinary (sv_ext V) ?t)"
    using E raw(1) by (simp add: ext_ok_def)
  have "Txv1_Hash (sv_ext V) ?t = Some (sha256 (sv_ext V) raw)" by (simp add: Txv1_Hash_def raw(1))
  from admit_signed_payment [OF raw(2,3) dec E ver this] tx b sign show ?thesis by fastforce
qed

lemma demo_admitted:
  "\<exists>r. SendRawTransaction demo_svc (hexEncode (1 # replicate 64 9)) demo_service =
    Some (Inr r, demo_service\<lparr>sv_publish := [TxV1 (demo_tx\<lparr>Signature := replicate 64 9\<rparr>)]\<rparr>)"
proof -
  let ?t = "demo_tx\<lparr>Signature := replicate 64 (9 :: 8 word)\<rparr>"
  have h: "Txv1_Hash demo_signing (demo_tx\<lparr>Signature := x\<rparr>) = Some (sha256 demo_signing (1 # x))" for x
    by (simp add: Txv1_Hash_def demo_signing_marshal demo_signing_proto)
  have "Txv1_Verify demo_signing ?t = (None, ?t)"
    by (simp add: Txv1_Verify_def h DSA_Verify_def demo_tx_simps) (simp add: demo_signing_def demo_ext_def)
  then show ?thesis
    using admit_signed_payment [of "1 # replicate 64 9" demo_svc ?t _ demo_service 9] demo_service_balance
    by (simp add: demo_signing_proto demo_signing_marshal demo_signing_ok h)
       (simp add: demo_tx_def SetBytes_def)
qed

theorem forged_payment_admitted_witness:
  "\<exists>raw r. SendRawTransaction demo_svc (hexEncode raw) demo_service =
     Some (Inr r, demo_service\<lparr>sv_publish := [TxV1 (demo_tx\<lparr>Signature := replicate 64 9\<rparr>)]\<rparr>)"
proof -
  have "Txv1_Sign demo_signing [3] demo_tx = Some (demo_tx\<lparr>Signature := replicate 64 9\<rparr>)"
    by (simp add: Txv1_Sign_def generateSignature_def Txv1_Hash_def demo_signing_marshal demo_signing_proto
      DSA_Sign_def) (simp add: demo_signing_def demo_ext_def)
  then show ?thesis
    using forged_payment_admitted [of demo_svc "[3]" demo_tx demo_service 9] demo_service_balance
    by (simp add: demo_signing_ok demo_signing_marshal demo_signing_proto demo_tx_simps)
       (simp add: demo_tx_def SetBytes_def)
qed



definition demo_query :: tx_query where
  "demo_query = \<lparr>q_accounts = [], q_txType = -1, q_confirmed = None, q_direction = None\<rparr>"

definition demo_pool :: Service where
  "demo_pool = \<lparr>sv_world = demo_start\<lparr>w_node := demo_state\<lparr>ns_smc := smc_init
     \<lparr>unconfirmedPool := [''k'' \<mapsto> TxV1 demo_tx]\<rparr>\<rparr>\<rparr>, sv_publish = []\<rparr>"

lemma demo_page:
  "GetTransactions demo_svc demo_query ''asc'' \<lparr>pg_Number = int i, pg_Size = 1\<rparr> demo_pool =
   Some (if i = 0 then [IdentifiableTx_ToUnified (TxV1 demo_tx)] else [])" if "i \<le> 1" for i
proof -
  have h: "Txv1_Hash demo_signing demo_tx = Some (sha256 demo_signing [1])"
    using demo_signing_marshal [of "[]"] demo_signing_proto(1) [of "[]"]
    by (simp add: Txv1_Hash_def demo_tx_def demo_pb_def)
  have f: "query_filter demo_signing demo_query (TxV1 demo_tx) = Some True"
    by (simp add: query_filter_def demo_query_def accountFilter_def)
  have c: "collectTxs (sv_pin demo_svc) demo_query (sv_world demo_pool) =
      Some [IdentifiableTx_ToUnified (TxV1 demo_tx)]"
    by (simp add: collectTxs_def unconfirmed_search_def demo_pool_def demo_start_def demo_state_def smc_init_def
        Pool_Find_def f logged_def h demo_query_def [THEN arg_cong [where f = q_confirmed]])
  have "i = 0 \<or> i = 1" using that by auto
  then show ?thesis
    by (auto simp: GetTransactions_def SearchTxs_def allTxs_def c deduplicate_def uniqueTxs_def
        sortTxs_def Page_Offset_def paginate_def)
qed


text \<open>
  C39. A payment that is not pinned yet cannot be looked up by its hash. When the confirmed transactions do
  not contain the hash but a vertex of the DAG does, \<^verbatim>\<open>SearchAnyTx\<close> finds the payment and returns it
  together with the error of the first search, and the service answers that there is no such transaction.
\<close>
theorem unconfirmed_payment_hidden:
  assumes "DecodeHexString s = (h, None)"
    and "SearchTx (sv_pin V) h (sv_world S) = Some None"
    and "a \<in> set (dg_dag (w_dag (sv_world S)))"
    and "GetHash (sv_ext V) (n_tx (w_heap (sv_world S) a)) = Some h"
    and "\<forall>b\<in>set (dg_dag (w_dag (sv_world S))). GetHash (sv_ext V) (n_tx (w_heap (sv_world S) b)) \<noteq> None"
  shows "(\<exists>u. SearchAnyTx (sv_pin V) h (sv_world S) = Some (Some u, True) \<and>
              GetHash (sv_ext V) (rawTx u) = Some h) \<and>
         GetAnyTransactionByHash V s S = Some None"
proof -
  have "\<exists>t. dag_search (sv_ext V) (w_heap (sv_world S)) h xs = Some (Some t) \<and> GetHash (sv_ext V) t = Some h"
    if "a \<in> set xs" "set xs \<subseteq> set (dg_dag (w_dag (sv_world S)))" for xs
    using that assms(4,5) by (induction xs) auto
  from this [OF assms(3)] show ?thesis
    using assms(1,2) by (auto simp: SearchAnyTx_def GetAnyTransactionByHash_def)
qed

definition demo_unpinned :: Service where
  "demo_unpinned = \<lparr>sv_world = demo_start\<lparr>w_heap := (\<lambda>_. demo_node\<lparr>n_tx := TxV1 demo_tx\<rparr>),
     w_dag := (w_dag demo_start)\<lparr>dg_dag := [0]\<rparr>\<rparr>, sv_publish = []\<rparr>"

theorem unconfirmed_payment_hidden_witness:
  "GetAnyTransactionByHash (demo_svc\<lparr>sv_pin := demo_env\<rparr>) (hexEncode (replicate 32 1)) demo_unpinned = Some None"
proof -
  have 1: "DecodeHexString (hexEncode (replicate 32 1)) = (replicate 32 (1 :: 8 word), None)"
    by (simp add: DecodeHexString_def)
  have 2: "pe_ext demo_env = demo_ext" by (simp add: demo_env_def)
  show ?thesis
    using unconfirmed_payment_hidden [OF 1, of "demo_svc\<lparr>sv_pin := demo_env\<rparr>" demo_unpinned 0]
    by (simp add: demo_unpinned_def demo_start_def demo_state_def smc_init_def SearchTx_def FindConfirmed_def
        Pool_Get_def 2)
qed

end
