(* ===== verification/Rest_Api.thy ===== *)
theory Rest_Api
  imports Transaction_Service
begin

text \<open>
  The REST interface of the node: \<^verbatim>\<open>src/services/rest/handlers.go\<close>, \<^verbatim>\<open>src/services/rest/abi.go\<close> and
  \<^verbatim>\<open>src/services/rest/mapper/mapper.go\<close>.

  A handler reads the decoded request and answers with a status and the value that is encoded as
  JSON, or panics; the middleware \<^verbatim>\<open>ErrorRecovery\<close> turns a panic into an answer. The handlers panic with
  errors of their own (\<open>PanicError\<close>), with errors of the service (\<open>PanicSvc\<close>), with a
  string (\<open>PanicString\<close>), or a callee panics with an error (\<open>PanicInner\<close>).
\<close>

section \<open>Panics and answers\<close>

datatype panic_value = PanicError string | PanicSvc svc_error | PanicString string | PanicInner

type_synonym 'a attempt = "panic_value + 'a"

definition andThen :: "'a attempt \<Rightarrow> ('a \<Rightarrow> 'b attempt) \<Rightarrow> 'b attempt" where
  "andThen x f = (case x of Inl p \<Rightarrow> Inl p | Inr a \<Rightarrow> f a)"

definition inner :: "'a option \<Rightarrow> 'a attempt" where
  "inner x = (case x of None \<Rightarrow> Inl PanicInner | Some a \<Rightarrow> Inr a)"

definition innerSum :: "'e + 'a \<Rightarrow> 'a attempt" where
  "innerSum x = (case x of Inl _ \<Rightarrow> Inl PanicInner | Inr a \<Rightarrow> Inr a)"

fun mapAttempt :: "('a \<Rightarrow> 'b attempt) \<Rightarrow> 'a list \<Rightarrow> 'b list attempt" where
  "mapAttempt f [] = Inr []"
| "mapAttempt f (x # xs) = andThen (f x) (\<lambda>y. andThen (mapAttempt f xs) (\<lambda>ys. Inr (y # ys)))"

text \<open>The data transfer objects; a timestamp stands for its printed form.\<close>

record AccountDto =
  ad_dto_Balance :: string
  ad_dto_Created :: time
  ad_dto_Id :: string
  ad_dto_Nonce :: int
  ad_dto_PublicKey :: string

record LogDto =
  ld_Address :: string
  ld_PinTxNumber :: string
  ld_Topics :: "string list"
  ld_Data :: string
  ld_TransactionHash :: string

record TxDto =
  td_Amount :: string
  td_ChainId :: string
  td_Data :: string
  td_Fee :: string
  td_FuelLimit :: string
  td_FuelPrice :: string
  td_FuelUsed :: string
  td_Nonce :: int
  td_Recipient :: string
  td_Sender :: string
  td_Signature :: string
  td_Status :: string
  td_StatusMessage :: string
  td_Timestamp :: int
  td_TxHash :: string
  td_Type :: int
  td_Version :: int
  td_PinTxNumber :: int

datatype rest_body =
    NoBody
  | BodyAccounts "AccountDto list"
  | BodyAccount AccountDto
  | BodyCallResult string
  | BodyABI string
  | BodyABISaved bool
  | BodyNetworkInfo string
  | BodyCode string string
  | BodyPinNumber int
  | BodyPubsub bool
  | BodyTransactions "TxDto list"
  | BodyTransaction TxDto
  | BodyReceipt string string "64 word"
  | BodyLogs "LogDto list"
  | BodyError string

record Response =
  rp_status :: int
  rp_body :: rest_body

definition ok :: "rest_body \<Rightarrow> Response" where
  "ok b = \<lparr>rp_status = 200, rp_body = b\<rparr>"

text \<open>The state of the server: the service, the ABI store and the times of the faucet's payments.\<close>

record Rest =
  rs_service :: Service
  rs_abi :: "string \<rightharpoonup> string"
  rs_received :: "string \<rightharpoonup> time"

record rest_env =
  re_svc :: svc_env
  re_FaucetPrivatekey :: string
  re_FaucetPublickey :: string
  re_FaucetWallet :: string
  re_rand :: "64 word"

section \<open>Recovery\<close>

fun containsStr :: "string \<Rightarrow> string \<Rightarrow> bool" where
  "containsStr p [] \<longleftrightarrow> p = []"
| "containsStr p (c # cs) \<longleftrightarrow> HasPrefix (c # cs) p \<or> containsStr p cs"

text \<open>
  Which service errors say "not found": the missing balance of a wallet, and what the virtual machine
  reports.
\<close>

fun mentionsNotFound :: "svc_error \<Rightarrow> bool" where
  "mentionsNotFound (NoBalance (BalanceNotFound w)) = True"
| "mentionsNotFound (NotConnected m) = containsStr ''not found'' m"
| "mentionsNotFound (VmFailed m) = containsStr ''not found'' m"
| "mentionsNotFound (ReadFailed m) = containsStr ''not found'' m"
| "mentionsNotFound (SystemFailed m) = containsStr ''not found'' m"
| "mentionsNotFound _ = False"

text \<open>
  The status of the answer; \<open>None\<close> is a second panic inside the deferred function, which asserts that the recovered
  value is an error: the connection is closed without an answer.
\<close>

fun recoveredStatus :: "panic_value \<Rightarrow> int option" where
  "recoveredStatus (PanicError m) = Some (if containsStr ''not found'' m then 404 else 400)"
| "recoveredStatus (PanicSvc e) = Some (if mentionsNotFound e then 404 else 400)"
| "recoveredStatus PanicInner = Some 400"
| "recoveredStatus (PanicString m) = None"

definition ErrorRecovery_ServeHTTP :: "Response attempt \<Rightarrow> int option" where
  "ErrorRecovery_ServeHTTP next = (case next of Inl p \<Rightarrow> recoveredStatus p | Inr r \<Rightarrow> Some (rp_status r))"

section \<open>Parameters\<close>

definition requireHex :: "string \<Rightarrow> string \<Rightarrow> string attempt" where
  "requireHex s name =
     (if s = [] then Inl (PanicError (name @ '' must not be empty''))
      else if \<not> HasPrefix s ''0x'' then Inl (PanicError (name @ '' must have a 0x prefix''))
      else
        let s' = TrimPrefix s ''0x'' in
        case hexDecode s' of
          (_, Some err) \<Rightarrow> Inl (PanicError (name @ '' is not a valid hex string''))
        | (_, None) \<Rightarrow> Inr s')"

definition requireHexWithPrefixOfSize :: "string \<Rightarrow> int \<Rightarrow> string \<Rightarrow> string attempt" where
  "requireHexWithPrefixOfSize s sz name =
     andThen (requireHex s name) (\<lambda>s'.
       let decoded = fst (hexDecode s') in
       if int (length decoded) \<noteq> sz then
         Inl (PanicError (name @ '' must be of size '' @ intString sz @ '', got '' @
                          intString (int (length decoded))))
       else Inr s')"

definition requireHexWithPrefixOfMinSize :: "string \<Rightarrow> int \<Rightarrow> string \<Rightarrow> string attempt" where
  "requireHexWithPrefixOfMinSize s sz name =
     andThen (requireHex s name) (\<lambda>s'.
       let decoded = fst (hexDecode s') in
       if int (length decoded) < sz then
         Inl (PanicError (name @ '' must be at least of size '' @ intString sz @ '', got '' @
                          intString (int (length decoded))))
       else Inr s')"

definition parseHex :: "string \<Rightarrow> string \<Rightarrow> bytes attempt" where
  "parseHex s name =
     andThen (requireHex s name) (\<lambda>s'.
       case hexDecode s' of (decoded, None) \<Rightarrow> Inr decoded | (_, Some err) \<Rightarrow> Inl PanicInner)"

definition pad32 :: "string \<Rightarrow> string attempt" where
  "pad32 s =
     (if length s > 64 then Inl (PanicError ''input string is longer that 32 bytes'')
      else Inr (replicate (64 - length s) (CHR ''0'') @ s))"

section \<open>Mapping to transfer objects\<close>

definition LogToDto :: "Log \<Rightarrow> LogDto" where
  "LogToDto l =
     \<lparr>ld_Address = ''0x'' @ hexEncode (l_ContractAddress l), ld_PinTxNumber = intString (l_PinTxNumber l),
      ld_Topics = map (\<lambda>t. ''0x'' @ hexEncode t) (l_Topics l), ld_Data = ''0x'' @ hexEncode (l_Data l),
      ld_TransactionHash = ''0x'' @ hexEncode (l_TransactionHash l)\<rparr>"

definition LogsToDto :: "Log list \<Rightarrow> LogDto list" where
  "LogsToDto ls = map LogToDto ls"

text \<open>The balance of an account without code is read from the wallet cache and the pins.\<close>

definition dtoBalance :: "NodeState \<Rightarrow> LnAccount \<Rightarrow> string attempt" where
  "dtoBalance st account =
     andThen (inner (IsSCAccount (ns_vm st) (ln_Id account))) (\<lambda>isSC.
       if isSC then Inr (intString (ln_Balance account))
       else
         andThen (innerSum (AddressToBytes (ln_Id account))) (\<lambda>byteAddress.
           andThen (inner (GetBalance (ns_pins st) (ns_walletCache st) byteAddress)) (\<lambda>(balance, err).
             Inr (if err \<noteq> None then ''0'' else intString balance))))"

definition AccountToDto :: "NodeState \<Rightarrow> LnAccount \<Rightarrow> AccountDto attempt" where
  "AccountToDto st account =
     andThen (dtoBalance st account) (\<lambda>balanceString.
       Inr \<lparr>ad_dto_Balance = balanceString, ad_dto_Created = ln_Created account,
            ad_dto_Id = (if HasPrefix (ln_Id account) ''0x'' then ln_Id account else ''0x'' @ ln_Id account),
            ad_dto_Nonce = sint (word_of_int (ln_Nonce account) :: 64 word),
            ad_dto_PublicKey = ln_PublicKey account\<rparr>)"

definition chainName :: "ChainType \<Rightarrow> string attempt" where
  "chainName ct =
     (if ct = MAINNET then Inr ''MAINNET''
      else if ct = PUBLIC_TESTNET then Inr ''TESTNET''
      else if ct = PRIVATE_TESTNET then Inr ''TESTNET0''
      else Inl (PanicError ''unable to determine network''))"

definition TxToDto :: "ext \<Rightarrow> int \<Rightarrow> UnifiedTx \<Rightarrow> TxDto attempt" where
  "TxToDto E now_ms u =
     andThen (inner (GetRawTx u)) (\<lambda>t.
     andThen (inner (GetChainType t)) (\<lambda>ct.
     andThen (chainName ct) (\<lambda>chainType.
     andThen (if length (GetRecipient t) > 0 then innerSum (BytesToAddress (GetRecipient t)) else Inr []) (\<lambda>recepient.
     andThen (inner (GetSender E t)) (\<lambda>sender.
     andThen (inner (GetSignature t)) (\<lambda>signature.
     andThen (inner (GetHash E t)) (\<lambda>txHash.
       Inr \<lparr>td_Amount = intString (GetAmount t), td_ChainId = chainType,
            td_Data = hexEncode (nilBytes (GetData t)),
            td_Fee = (case ut_confirmed u of
                        Some c \<Rightarrow> intString (UsedFuel c * GetFuelPrice t)
                      | None \<Rightarrow> intString (GetFuelLimit t * GetFuelPrice t)),
            td_FuelLimit = intString (GetFuelLimit t), td_FuelPrice = intString (GetFuelPrice t),
            td_FuelUsed = (case ut_confirmed u of Some c \<Rightarrow> intString (UsedFuel c) | None \<Rightarrow> ''-1''),
            td_Nonce = sint (GetNonce t), td_Recipient = recepient,
            td_Sender = Hex_String (Some sender), td_Signature = Hex_String (Some signature),
            td_Status = (case ut_confirmed u of
                           Some c \<Rightarrow> if ct_Status c \<noteq> Successful then ''FAILED'' else ''SUCCESSFULLY_EXECUTED''
                         | None \<Rightarrow> ''NOT_EXECUTED''),
            td_StatusMessage = (case ut_confirmed u of
                                  Some c \<Rightarrow> StatusMessage c | None \<Rightarrow> ''Not yet executed & confirmed''),
            td_Timestamp = sint (GetTimestamp now_ms t), td_TxHash = ''0x'' @ hexEncode txHash,
            td_Type = uint (GetTransactionType t), td_Version = 1,
            td_PinTxNumber = (case ut_confirmed u of Some c \<Rightarrow> PinTxNumber c | None \<Rightarrow> -1)\<rparr>)))))))"

section \<open>Contract interfaces\<close>

definition GetABI :: "string \<Rightarrow> Rest \<Rightarrow> string attempt" where
  "GetABI contractAddress R =
     (case rs_abi R contractAddress of
        None \<Rightarrow> Inl (PanicError (''abi for contract '' @ contractAddress @ '' not found''))
      | Some abi \<Rightarrow> Inr abi)"

definition PutABI :: "string \<Rightarrow> string \<Rightarrow> Rest \<Rightarrow> Rest" where
  "PutABI contractAddress abi R = R\<lparr>rs_abi := (rs_abi R)(contractAddress \<mapsto> abi)\<rparr>"

section \<open>Handlers\<close>

text \<open>
  The parameters of the listing requests are pointers that the handlers dereference; an absent one is
  a panic.
\<close>

record PageParams =
  pp_SortOrder :: "string option"
  pp_Page :: "int option"
  pp_PageSize :: "int option"

definition derefPage :: "PageParams \<Rightarrow> (string \<times> Page) attempt" where
  "derefPage p =
     (case (pp_SortOrder p, pp_Page p, pp_PageSize p) of
        (Some s, Some n, Some z) \<Rightarrow> Inr (s, \<lparr>pg_Number = n, pg_Size = z\<rparr>)
      | _ \<Rightarrow> Inl PanicInner)"

definition rest_GetAccounts :: "rest_env \<Rightarrow> PageParams \<Rightarrow> Rest \<Rightarrow> Response attempt" where
  "rest_GetAccounts V params R =
     andThen (derefPage params) (\<lambda>(s, p).
     andThen (inner (GetAccounts (re_svc V) s p (rs_service R))) (\<lambda>accs.
     andThen (mapAttempt (AccountToDto (sv_node (rs_service R))) accs) (\<lambda>dtos.
       Inr (ok (BodyAccounts dtos)))))"

definition GetAccountsAccountId :: "rest_env \<Rightarrow> string \<Rightarrow> Rest \<Rightarrow> Response attempt" where
  "GetAccountsAccountId V accountId R =
     andThen (requireHexWithPrefixOfSize accountId 20 ''accountId'') (\<lambda>_.
     andThen (inner (GetAccountById accountId (rs_service R))) (\<lambda>found.
     andThen (AccountToDto (sv_node (rs_service R))
                (case found of
                   Some account \<Rightarrow> account
                 | None \<Rightarrow> \<lparr>ln_Id = accountId, ln_Balance = 0, ln_Created = pe_now (sv_pin (re_svc V)),
                           ln_Nonce = 0, ln_PublicKey = []\<rparr>)) (\<lambda>dto.
       Inr (ok (BodyAccount dto)))))"

text \<open>The answer to a read call; an error of the service is a panic.\<close>

definition readAnswer :: "((svc_error + string) \<times> Service) option \<Rightarrow> Rest \<Rightarrow> Response attempt \<times> Rest" where
  "readAnswer x R =
     (case x of
        None \<Rightarrow> (Inl PanicInner, R)
      | Some (Inl e, S) \<Rightarrow> (Inl (PanicSvc e), R\<lparr>rs_service := S\<rparr>)
      | Some (Inr res, S) \<Rightarrow> (Inr (ok (BodyCallResult res)), R\<lparr>rs_service := S\<rparr>))"

definition senderParam :: "string option \<Rightarrow> string attempt" where
  "senderParam s =
     (case s of None \<Rightarrow> Inr [] | Some x \<Rightarrow> if x = [] then Inr [] else requireHex x ''Sender'')"

definition GetContractsContractId ::
  "rest_env \<Rightarrow> string \<Rightarrow> string option \<Rightarrow> string option \<Rightarrow> Rest \<Rightarrow> Response attempt \<times> Rest" where
  "GetContractsContractId V contractId params sender R =
     (case andThen (requireHexWithPrefixOfSize contractId 20 ''Contract Address'') (\<lambda>cid.
           andThen (inner params) (\<lambda>ps.
           andThen (requireHexWithPrefixOfMinSize ps 4 ''Hash of method without params'') (\<lambda>allParams.
           andThen (senderParam sender) (\<lambda>snd'. Inr (cid, take 8 allParams, drop 8 allParams, snd'))))) of
        Inl p \<Rightarrow> (Inl p, R)
      | Inr (cid, methodId, inParams, snd') \<Rightarrow>
          readAnswer (CallReadContract (re_svc V) cid methodId inParams snd' (rs_service R)) R)"

definition mergeParams :: "string list \<Rightarrow> string attempt" where
  "mergeParams params =
     (if length params = 1 \<and> length (params ! 0) \<ge> 66 then requireHex (params ! 0) ''Param''
      else andThen (mapAttempt (\<lambda>param. andThen (requireHex param ''Param'') pad32) params) (\<lambda>xs. Inr (concat xs)))"

definition GetContractsContractIdMethodsMethodId ::
  "rest_env \<Rightarrow> string \<Rightarrow> string \<Rightarrow> string list option \<Rightarrow> string option \<Rightarrow> Rest \<Rightarrow> Response attempt \<times> Rest" where
  "GetContractsContractIdMethodsMethodId V contractId methodId params sender R =
     (case andThen (requireHexWithPrefixOfSize contractId 20 ''Contract Address'') (\<lambda>cid.
           andThen (requireHexWithPrefixOfSize methodId 4 ''Method Id'') (\<lambda>mid.
           andThen (inner params) (\<lambda>ps.
           andThen (mergeParams ps) (\<lambda>merged.
           andThen (senderParam sender) (\<lambda>snd'. Inr (cid, mid, merged, snd')))))) of
        Inl p \<Rightarrow> (Inl p, R)
      | Inr (cid, mid, merged, snd') \<Rightarrow>
          readAnswer (CallReadContract (re_svc V) cid mid merged snd' (rs_service R)) R)"

definition GetContractsContractIdAbi :: "string \<Rightarrow> Rest \<Rightarrow> Response attempt" where
  "GetContractsContractIdAbi contractId R =
     andThen (requireHexWithPrefixOfSize contractId 20 ''Contract Address'') (\<lambda>cid.
     andThen (GetABI cid R) (\<lambda>abi. Inr (ok (BodyABI abi))))"

text \<open>The body is \<open>None\<close> when it cannot be decoded; its content may be absent.\<close>

definition PutContractsContractIdAbi :: "string \<Rightarrow> string option option \<Rightarrow> Rest \<Rightarrow> Response attempt \<times> Rest" where
  "PutContractsContractIdAbi contractId body R =
     (case requireHexWithPrefixOfSize contractId 20 ''Contract Address'' of
        Inl p \<Rightarrow> (Inl p, R)
      | Inr cid \<Rightarrow>
          (case body of
             None \<Rightarrow> (Inl (PanicString ''Bad ABI json''), R)
           | Some None \<Rightarrow> (Inl PanicInner, R)
           | Some (Some content) \<Rightarrow> (Inr (ok (BodyABISaved True)), PutABI cid content R)))"

definition GetNetworkInfo :: "rest_env \<Rightarrow> Response attempt" where
  "GetNetworkInfo V =
     (let chainIdInt = sv_Network (re_svc V) in
      if chainIdInt = 0 then Inr (ok (BodyNetworkInfo ''MAINNET''))
      else if chainIdInt = 1 then Inr (ok (BodyNetworkInfo ''TESTNET1''))
      else if chainIdInt = 2 then Inr (ok (BodyNetworkInfo ''TESTNET2''))
      else Inl (PanicError (''wrong network, allowed 0,1,2 got '' @ intString chainIdInt)))"

definition GetContractsContractIdCode :: "string \<Rightarrow> Rest \<Rightarrow> Response attempt" where
  "GetContractsContractIdCode contractId R =
     andThen (requireHexWithPrefixOfSize contractId 20 ''Contract Address'') (\<lambda>cid.
     andThen (inner (GetCodeHash (ns_vm (sv_node (rs_service R))) cid)) (\<lambda>codeHash.
     andThen (inner (vm_GetContractCode (ns_vm (sv_node (rs_service R))) cid)) (\<lambda>codeContract.
       Inr (ok (BodyCode codeHash codeContract)))))"

definition GetPinNumber :: "Rest \<Rightarrow> Response attempt" where
  "GetPinNumber R =
     (let currentPin = CurrentHeight (ns_pins (sv_node (rs_service R))) in
      if currentPin < 0 then Inl (PanicError (''couldn'' @ [CHR 0x27] @ ''t find any pinning tx''))
      else Inr (ok (BodyPinNumber currentPin)))"

definition GetPubsub :: "bool \<Rightarrow> Response" where
  "GetPubsub HaveJoined = (if HaveJoined then ok (BodyPubsub True) else \<lparr>rp_status = 404, rp_body = NoBody\<rparr>)"

record FilterParams =
  fp_TxType :: "int option"
  fp_ConfirmationStatus :: "string option"
  fp_Direction :: "string option"
  fp_Accounts :: "string list option"
  fp_Page :: PageParams

definition wrapBool :: "bool \<Rightarrow> bool option" where
  "wrapBool b = Some b"

definition flagOf :: "string \<Rightarrow> string \<Rightarrow> string option \<Rightarrow> bool option" where
  "flagOf yes no p =
     (case p of
        None \<Rightarrow> None
      | Some s \<Rightarrow>
          let requiredStatus = map toUpperAscii s in
          if requiredStatus = yes then wrapBool True
          else if requiredStatus = no then wrapBool False else None)"

definition GetFilteredTransactions :: "rest_env \<Rightarrow> FilterParams \<Rightarrow> Rest \<Rightarrow> Response attempt" where
  "GetFilteredTransactions V params R =
     (let txType = (case fp_TxType params of None \<Rightarrow> -1 | Some n \<Rightarrow> n) in
      if txType > 2 \<or> txType < -1 then
        Inl (PanicError (''wrong txType for filtering, allowed -1,0,1,2 got '' @ intString txType))
      else
        let q = \<lparr>q_accounts = (case fp_Accounts params of None \<Rightarrow> [] | Some as \<Rightarrow> as), q_txType = txType,
                 q_confirmed = flagOf ''CONFIRMED'' ''UNCONFIRMED'' (fp_ConfirmationStatus params),
                 q_direction = flagOf ''SENT'' ''RECEIVED'' (fp_Direction params)\<rparr> in
        andThen (derefPage (fp_Page params)) (\<lambda>(s, p).
        andThen (inner (GetTransactions (re_svc V) q s p (rs_service R))) (\<lambda>foundTxs.
        andThen (mapAttempt (TxToDto (sv_ext (re_svc V)) (pe_now_ms (sv_pin (re_svc V)))) foundTxs) (\<lambda>dtoTxs.
          Inr (ok (BodyTransactions dtoTxs))))))"

definition receiptBody :: "ExecutionResult \<Rightarrow> rest_body" where
  "receiptBody r =
     (if er_Successful r then BodyReceipt (er_Hash r) ''SUCCESSFUL'' (er_GasUsed r)
      else BodyReceipt (er_Hash r) (er_Output r) (er_GasUsed r))"

definition execAnswer ::
  "((svc_error + ExecutionResult) \<times> Service) option \<Rightarrow> Rest \<Rightarrow> Response attempt \<times> Rest" where
  "execAnswer x R =
     (case x of
        None \<Rightarrow> (Inl PanicInner, R)
      | Some (Inl e, S) \<Rightarrow> (Inl (PanicSvc e), R\<lparr>rs_service := S\<rparr>)
      | Some (Inr r, S) \<Rightarrow> (Inr (ok (receiptBody r)), R\<lparr>rs_service := S\<rparr>))"

text \<open>The decoded body of \<^verbatim>\<open>SendRawTransaction\<close>; \<open>None\<close> when it cannot be decoded.\<close>

definition rest_SendRawTransaction :: "rest_env \<Rightarrow> string option \<Rightarrow> Rest \<Rightarrow> Response attempt \<times> Rest" where
  "rest_SendRawTransaction V body R =
     (case body of
        None \<Rightarrow> (Inl (PanicError ''unable to decode RawTransaction, bad Json scheme''), R)
      | Some EncodedTx \<Rightarrow>
          if EncodedTx = [] then (Inl (PanicError ''unable to decode RawTransaction, bad Json scheme''), R)
          else execAnswer (SendRawTransaction (re_svc V) (TrimPrefix EncodedTx ''0x'') (rs_service R)) R)"

record CallMessage =
  cm_Amount :: "string option"
  cm_Data :: "string option"
  cm_Recipient :: "string option"
  cm_Sender :: "string option"

definition CallMessage_isValid :: "CallMessage \<Rightarrow> bool" where
  "CallMessage_isValid m \<longleftrightarrow>
     (case cm_Data m of None \<Rightarrow> False | Some d \<Rightarrow> length d \<noteq> 0) \<and>
     (case cm_Amount m of None \<Rightarrow> False | Some a \<Rightarrow> a \<noteq> [])"

definition optHex :: "string option \<Rightarrow> string \<Rightarrow> bytes option attempt" where
  "optHex s name =
     (case s of None \<Rightarrow> Inr None | Some x \<Rightarrow> andThen (parseHex x name) (\<lambda>b. Inr (Some b)))"

definition rawRequest :: "string option \<Rightarrow> FuelEstimationRequest attempt" where
  "rawRequest rt =
     (case rt of
        None \<Rightarrow> Inl (PanicError ''unable to decode RawTransaction and CallMessage, bad Json supplied'')
      | Some EncodedTx \<Rightarrow>
          if EncodedTx = [] then
            Inl (PanicError ''unable to decode RawTransaction and CallMessage, bad Json supplied'')
          else andThen (parseHex EncodedTx ''encodedTx'') (\<lambda>raw. Inr \<lparr>fr_RawTx = Some raw, fr_Message = None\<rparr>))"

text \<open>The body read as a call message and as a raw transaction; \<open>None\<close> when the decoding fails.\<close>

definition parseEstimationRequest :: "CallMessage option \<Rightarrow> string option \<Rightarrow> FuelEstimationRequest attempt" where
  "parseEstimationRequest jmsg rt =
     (case jmsg of
        Some m \<Rightarrow>
          if CallMessage_isValid m then
            andThen (optHex (cm_Sender m) ''sender'') (\<lambda>from.
            andThen (optHex (cm_Recipient m) ''recipient'') (\<lambda>to.
              case parseInt (the (cm_Amount m)) of
                None \<Rightarrow> Inl (PanicError ''amount is not a number in decimal form'')
              | Some amount \<Rightarrow>
                  andThen (parseHex (the (cm_Data m)) ''data'') (\<lambda>d.
                    Inr \<lparr>fr_RawTx = None,
                         fr_Message = Some \<lparr>m_From = from, m_To = to, m_Data = Some d,
                           m_Amount = Some (Bytes amount), m_CoinbaseAccountAdress = None,
                           m_Timestamp = (0, 0), m_FixingTx = None\<rparr>\<rparr>)))
          else rawRequest rt
      | None \<Rightarrow> rawRequest rt)"

definition EstimateTxFuel_handler ::
  "rest_env \<Rightarrow> CallMessage option \<Rightarrow> string option \<Rightarrow> Rest \<Rightarrow> Response attempt \<times> Rest" where
  "EstimateTxFuel_handler V jmsg rt R =
     (case parseEstimationRequest jmsg rt of
        Inl p \<Rightarrow> (Inl p, R)
      | Inr r \<Rightarrow> execAnswer (EstimateTxFuel (re_svc V) r (rs_service R)) R)"

definition GetTransactionByHash_handler :: "rest_env \<Rightarrow> string \<Rightarrow> Rest \<Rightarrow> Response attempt" where
  "GetTransactionByHash_handler V txHash R =
     andThen (inner (GetTransactionByHash (re_svc V) txHash (rs_service R))) (\<lambda>found.
       if txHash = [] then Inl (PanicError ''txHash can not be empty'')
       else
         case found of
           None \<Rightarrow> Inr \<lparr>rp_status = 404, rp_body = BodyError (''Confirmed transaction with hash '' @ [CHR 0x27] @
                        txHash @ [CHR 0x27] @ '' wasn'' @ [CHR 0x27] @ ''t found'')\<rparr>
         | Some c \<Rightarrow>
             andThen (TxToDto (sv_ext (re_svc V)) (pe_now_ms (sv_pin (re_svc V))) (ConfirmedTx_ToUnified c)) (\<lambda>dto.
               Inr (ok (BodyTransaction dto))))"

section \<open>Logs\<close>

record GetLogsParams =
  gl_Address :: string
  gl_Topics :: "string list"
  gl_Page :: "int option"
  gl_PageSize :: "int option"
  gl_PinFrom :: "int option"
  gl_PinTo :: "int option"

definition checkTopic :: "string \<Rightarrow> string attempt" where
  "checkTopic t = (if t \<noteq> ''null'' then requireHexWithPrefixOfSize t 32 ''topic'' else Inr t)"

text \<open>\<^verbatim>\<open>validate\<close>; the topics are checked in order, the number in the message of a bad topic is left out.\<close>

definition getLogsParams_validate :: "GetLogsParams \<Rightarrow> int \<Rightarrow> GetLogsParams attempt" where
  "getLogsParams_validate p lastPinTx =
     andThen (requireHexWithPrefixOfSize (gl_Address p) 20 ''address'') (\<lambda>_.
     andThen (mapAttempt checkTopic (gl_Topics p)) (\<lambda>_.
       let page = (case gl_Page p of None \<Rightarrow> 0 | Some n \<Rightarrow> n);
           pageSize = (case gl_PageSize p of None \<Rightarrow> 15 | Some n \<Rightarrow> n);
           from0 = (case gl_PinFrom p of None \<Rightarrow> 0 | Some n \<Rightarrow> n);
           from1 = (if from0 < 0 then 0 else from0);
           pinFrom = (if from1 > lastPinTx then lastPinTx else from1);
           to0 = (case gl_PinTo p of None \<Rightarrow> lastPinTx | Some n \<Rightarrow> n);
           to1 = (if to0 < 0 then lastPinTx else to0);
           pinTo = (if to1 > lastPinTx then lastPinTx else to1) in
       if page < 0 then Inl (PanicError ''page must be 0 or positive'')
       else if pageSize \<le> 0 then Inl (PanicError ''pageSize must be positive'')
       else if pinTo < pinFrom then Inl (PanicError ''incorrect input, pinTo  is smaller than pinFrom '')
       else Inr (p\<lparr>gl_Page := Some page, gl_PageSize := Some pageSize, gl_PinFrom := Some pinFrom,
                   gl_PinTo := Some pinTo\<rparr>)))"

definition GetLogs :: "GetLogsParams \<Rightarrow> Rest \<Rightarrow> Response attempt" where
  "GetLogs params R =
     andThen (getLogsParams_validate params (CurrentHeight (ns_pins (sv_node (rs_service R))))) (\<lambda>v.
     andThen (inner (SearchLogs (ns_vm (sv_node (rs_service R)))
                \<lparr>slr_Address = gl_Address params, slr_Topics = gl_Topics v, slr_Limit = the (gl_PageSize v),
                 slr_Offset = sint (word_of_int (the (gl_Page v) * the (gl_PageSize v)) :: 64 word),
                 slr_PinFrom = the (gl_PinFrom v), slr_PinTo = the (gl_PinTo v)\<rparr>)) (\<lambda>found.
       Inr (ok (BodyLogs (LogsToDto found)))))"

section \<open>The faucet\<close>

text \<open>The part of a string before the first occurrence of a separator.\<close>

fun beforeStr :: "string \<Rightarrow> string \<Rightarrow> string" where
  "beforeStr sep [] = []"
| "beforeStr sep (c # cs) = (if HasPrefix (c # cs) sep then [] else c # beforeStr sep cs)"

record FaucetRequest =
  fq_addresses :: "string list"
  fq_RemoteAddr :: string
  fq_XForwardedFor :: string

definition dayNanos :: int where
  "dayNanos = 24 * 60 * 60 * 1000000000"

definition eligibleKey :: "time \<Rightarrow> (string \<rightharpoonup> time) \<Rightarrow> string \<Rightarrow> bool" where
  "eligibleKey now received key =
     (case received key of None \<Rightarrow> True | Some receivedTime \<Rightarrow> now - receivedTime > dayNanos)"

definition findKey :: "time \<Rightarrow> (string \<rightharpoonup> time) \<Rightarrow> FaucetRequest \<Rightarrow> (string \<times> bool) attempt" where
  "findKey now received r =
     (if \<not> containsStr '':'' (fq_RemoteAddr r) then
        Inl (PanicError (''IpAndPort from request.RemoteAddr aren'' @ [CHR 0x27] @ ''t in valid format''))
      else
        let ip = beforeStr '':'' (fq_RemoteAddr r) in
        if eligibleKey now received ip then Inr (ip, True)
        else if fq_XForwardedFor r = [] then Inr (ip, False)
        else
          let initiator = beforeStr '', '' (fq_XForwardedFor r) in
          Inr (initiator, eligibleKey now received initiator))"

definition faucetAmount :: int where
  "faucetAmount = 1000000000000000000000"

definition faucetTx :: "rest_env \<Rightarrow> string \<Rightarrow> Txv1 option" where
  "faucetTx V address =
     GeneratePayment (sv_ext (re_svc V)) (re_rand V) (pe_now (sv_pin (re_svc V)))
       \<lparr>senderPrivateKey = fst (hexDecode (re_FaucetPrivatekey V)),
        senderPublicKey = fst (hexDecode (re_FaucetPublickey V)),
        senderAddress = re_FaucetWallet V, receiverAddress = address, wt_amount = faucetAmount\<rparr>
       (word_of_int (sv_Network (re_svc V))) (NewTxv1 0)"

text \<open>The payment of the faucet once the client is eligible.\<close>

definition faucetPay :: "rest_env \<Rightarrow> string \<Rightarrow> string \<Rightarrow> Rest \<Rightarrow> Response attempt \<times> Rest" where
  "faucetPay V address key R =
     (case GetAccountById (re_FaucetWallet V) (rs_service R) of
        None \<Rightarrow> (Inl PanicInner, R)
      | Some None \<Rightarrow> (Inl (PanicError (''Faucet account hasn'' @ [CHR 0x27] @ ''t been created yet'')), R)
      | Some (Some senderAcc) \<Rightarrow>
          if ln_Balance senderAcc < faucetAmount then
            (Inl (PanicError ''not enough money on faucet account, try again later''), R)
          else
            (case faucetTx V address of
               None \<Rightarrow> (Inl PanicInner, R)
             | Some t \<Rightarrow>
                 (case proto_Marshal (sv_ext (re_svc V)) (Txv1_MarshalBinary (sv_ext (re_svc V)) t) of
                    None \<Rightarrow> (Inl PanicInner, R)
                  | Some txBytes \<Rightarrow>
                      (case SendRawTransaction (re_svc V) (hexEncode txBytes) (rs_service R) of
                         None \<Rightarrow> (Inl PanicInner, R)
                       | Some (Inl e, S) \<Rightarrow> (Inl (PanicSvc e), R\<lparr>rs_service := S\<rparr>)
                       | Some (Inr r, S) \<Rightarrow>
                           (case TxToDto (sv_ext (re_svc V)) (pe_now_ms (sv_pin (re_svc V)))
                                   (IdentifiableTx_ToUnified (TxV1 t)) of
                              Inl p \<Rightarrow> (Inl p, R\<lparr>rs_service := S\<rparr>)
                            | Inr dto \<Rightarrow>
                                (Inr (ok (BodyTransaction dto)),
                                 R\<lparr>rs_service := S,
                                   rs_received := (rs_received R)(key \<mapsto> pe_now (sv_pin (re_svc V)))\<rparr>))))))"

definition Faucet :: "rest_env \<Rightarrow> FaucetRequest \<Rightarrow> Rest \<Rightarrow> Response attempt \<times> Rest" where
  "Faucet V r R =
     (if re_FaucetPrivatekey V = [] \<or> re_FaucetPublickey V = [] \<or> re_FaucetWallet V = [] then
        (Inl (PanicError (''Faucet Wallet/PublicKey/PrivateKey aren'' @ [CHR 0x27] @ ''t configured. Faucet is disabled'')), R)
      else if fq_addresses r = [] then
        (Inr \<lparr>rp_status = 400, rp_body = BodyError ''Address not specified''\<rparr>, R)
      else
        case andThen (requireHexWithPrefixOfSize (hd (fq_addresses r)) 20 ''address'') (\<lambda>address.
             andThen (findKey (pe_now (sv_pin (re_svc V))) (rs_received R) r) (\<lambda>(key, eligible).
               Inr (address, key, eligible))) of
          Inl p \<Rightarrow> (Inl p, R)
        | Inr (address, key, eligible) \<Rightarrow>
            if \<not> eligible then (Inr \<lparr>rp_status = 400, rp_body = BodyError (''You'' @ [CHR 0x27] @
              ''ve already received coins this day'')\<rparr>, R)
            else faucetPay V address key R)"

section \<open>Lemmas\<close>

lemma andThen_Inr: "andThen x f = Inr y \<longleftrightarrow> (\<exists>a. x = Inr a \<and> f a = Inr y)"
  by (cases x) (simp_all add: andThen_def)

lemma andThen_simps [simp]: "andThen (Inl p) f = Inl p" "andThen (Inr a) f = f a"
  by (simp_all add: andThen_def)

text \<open>What the checks of hexadecimal parameters accept.\<close>

lemma requireHex_Inr:
  "requireHex s name = Inr s' \<longleftrightarrow> s = ''0x'' @ s' \<and> snd (hexDecode s') = None"
proof -
  have pre: "HasPrefix s ''0x'' \<longleftrightarrow> (\<exists>u. s = CHR ''0'' # CHR ''x'' # u)"
    by (cases s; cases "tl s") (auto simp: HasPrefix_def)
  have trim: "TrimPrefix (CHR ''0'' # CHR ''x'' # u) ''0x'' = u" for u by (simp add: TrimPrefix_def)
  show ?thesis
    by (cases "HasPrefix s ''0x''")
       (auto simp: requireHex_def Let_def pre trim split: prod.splits option.splits)
qed

lemma requireHexWithPrefixOfSize_Inr:
  "requireHexWithPrefixOfSize s sz name = Inr s' \<longleftrightarrow>
   s = ''0x'' @ s' \<and> snd (hexDecode s') = None \<and> int (length (fst (hexDecode s'))) = sz"
  by (auto simp: requireHexWithPrefixOfSize_def andThen_Inr requireHex_Inr Let_def)

lemma pad32_length: "pad32 s = Inr s' \<Longrightarrow> length s' = 64"
  by (auto simp: pad32_def split: if_splits)

lemma faucetPay_cases:
  assumes "faucetPay V address key R = (x, R')"
  shows "(\<exists>dto S. x = Inr (ok (BodyTransaction dto)) \<and>
            R' = R\<lparr>rs_service := S, rs_received := (rs_received R)(key \<mapsto> pe_now (sv_pin (re_svc V)))\<rparr>) \<or>
         (\<exists>p. x = Inl p) \<and> rs_received R' = rs_received R"
  using assms unfolding faucetPay_def
  by (auto split: option.splits if_splits sum.splits prod.splits)

lemma beforeStr_plain: "CHR '','' \<notin> set s \<Longrightarrow> beforeStr '', '' s = s"
  by (induction s) (auto simp: HasPrefix_def)

section \<open>Properties\<close>


definition demo_rest :: Rest where
  "demo_rest = \<lparr>rs_service = demo_service, rs_abi = Map.empty, rs_received = [''10.0.0.1'' \<mapsto> 0]\<rparr>"


text \<open>
  C38. The parameters of a log query that pass the check are in range: the contract address has 20 bytes,
  every topic is \<^verbatim>\<open>null\<close> or has 32 bytes, the page is not negative, its size is positive, and the
  pins asked for lie between 0 and the current height, the first not above the last. The query is refused otherwise,
  and given bounds are changed only when they are out of range.
\<close>
theorem log_parameters_in_range:
  assumes "getLogsParams_validate p height = Inr v" and "0 \<le> height"
  shows "gl_Address v = gl_Address p \<and> gl_Topics v = gl_Topics p \<and>
         (\<exists>a. gl_Address p = ''0x'' @ a \<and> snd (hexDecode a) = None \<and> length (fst (hexDecode a)) = 20) \<and>
         (\<forall>t\<in>set (gl_Topics p). t = ''null'' \<or> (\<exists>a. t = ''0x'' @ a \<and> length (fst (hexDecode a)) = 32)) \<and>
         (\<exists>page size from to. gl_Page v = Some page \<and> gl_PageSize v = Some size \<and> 0 \<le> page \<and> 0 < size \<and>
            gl_PinFrom v = Some from \<and> gl_PinTo v = Some to \<and> 0 \<le> from \<and> from \<le> to \<and> to \<le> height \<and>
            (\<forall>n. gl_PinFrom p = Some n \<and> 0 \<le> n \<and> n \<le> height \<longrightarrow> from = n) \<and>
            (\<forall>n. gl_PinTo p = Some n \<and> 0 \<le> n \<and> n \<le> height \<longrightarrow> to = n))"
proof -
  have topics: "\<forall>t\<in>set ts. t = ''null'' \<or> (\<exists>a. t = ''0x'' @ a \<and> length (fst (hexDecode a)) = 32)"
    if "mapAttempt checkTopic ts = Inr ys" for ts ys
    using that
    by (induction ts arbitrary: ys)
       (auto simp: andThen_Inr checkTopic_def requireHexWithPrefixOfSize_Inr split: if_splits)
  obtain a ys where a: "requireHexWithPrefixOfSize (gl_Address p) 20 ''address'' = Inr a"
      and ys: "mapAttempt checkTopic (gl_Topics p) = Inr ys"
    using assms(1) unfolding getLogsParams_validate_def andThen_Inr by blast
  have "gl_Address p = ''0x'' @ a \<and> snd (hexDecode a) = None \<and> length (fst (hexDecode a)) = 20"
    using a by (simp add: requireHexWithPrefixOfSize_Inr)
  moreover note topics [OF ys]
  moreover have "gl_Address v = gl_Address p \<and> gl_Topics v = gl_Topics p \<and>
     (\<exists>page size from to. gl_Page v = Some page \<and> gl_PageSize v = Some size \<and> 0 \<le> page \<and> 0 < size \<and>
            gl_PinFrom v = Some from \<and> gl_PinTo v = Some to \<and> 0 \<le> from \<and> from \<le> to \<and> to \<le> height \<and>
            (\<forall>n. gl_PinFrom p = Some n \<and> 0 \<le> n \<and> n \<le> height \<longrightarrow> from = n) \<and>
            (\<forall>n. gl_PinTo p = Some n \<and> 0 \<le> n \<and> n \<le> height \<longrightarrow> to = n))"
    using assms by (auto simp: getLogsParams_validate_def a ys Let_def split: if_splits option.splits)
  ultimately show ?thesis by blast
qed

theorem log_parameters_in_range_witness:
  "\<exists>v. getLogsParams_validate \<lparr>gl_Address = ''0x'' @ hexEncode (replicate 20 1), gl_Topics = [''null''],
         gl_Page = None, gl_PageSize = None, gl_PinFrom = Some (-3), gl_PinTo = Some 9\<rparr> 4 = Inr v \<and>
       (\<exists>to. gl_PinTo v = Some to \<and> to \<le> (4 :: int))"
proof -
  have r: "requireHexWithPrefixOfSize (''0x'' @ hexEncode (replicate 20 1)) 20 n = Inr (hexEncode (replicate 20 1))" for n
    by (simp only: requireHexWithPrefixOfSize_Inr) simp
  obtain v where v: "getLogsParams_validate \<lparr>gl_Address = ''0x'' @ hexEncode (replicate 20 1), gl_Topics = [''null''],
         gl_Page = None, gl_PageSize = None, gl_PinFrom = Some (-3), gl_PinTo = Some 9\<rparr> 4 = Inr v"
    unfolding getLogsParams_validate_def GetLogsParams.select_convs r by (simp add: checkTopic_def)
  show ?thesis using v log_parameters_in_range [OF v] by auto
qed

end
