(* ===== verification/Eth_Rpc.thy ===== *)
theory Eth_Rpc
  imports Rest_Api
begin

text \<open>
  The Ethereum JSON-RPC interface: \<^verbatim>\<open>src/services/eth/rpc/api.go\<close>, with the address generation of
  \<^verbatim>\<open>src/crypto/eth/address.go\<close> and the mock values of \<^verbatim>\<open>src/crypto/wallet.go\<close>.

  A request carries decoded JSON values. A handler answers with a result or an error object, or
  panics; the panic reaches the same recovery as those of the REST handlers. go-ethereum's
  \<^verbatim>\<open>CreateAddress\<close> and the random numbers are fields of the environment.
\<close>

section \<open>Requests and responses\<close>

datatype json =
    JNull
  | JBool bool
  | JNumber int
  | JString string
  | JArray "json list"
  | JObject "string \<Rightarrow> json option"

record RPCRequest =
  rq_ID :: int
  rq_Method :: string
  rq_Params :: "json list"
  rq_JsonRpc :: string

record CallParams =
  cp_From :: string
  cp_To :: string
  cp_Gas :: string
  cp_GasPrice :: string
  cp_Value :: string
  cp_Data :: string

record EthLog =
  lg_LogIndex :: string
  lg_TransactionIndex :: string
  lg_TransactionHash :: string
  lg_BlockHash :: string
  lg_BlockNumber :: string
  lg_Address :: string
  lg_Data :: string
  lg_Topics :: "string list"

record TxReceipt =
  tr_TransactionHash :: string
  tr_TransactionIndex :: string
  tr_BlockHash :: string
  tr_BlockNumber :: string
  tr_From :: string
  tr_To :: "string option"
  tr_CumulativeGasUsed :: string
  tr_EffectiveGasPrice :: string
  tr_GasUsed :: string
  tr_ContractAddress :: "string option"
  tr_Logs :: "EthLog list"
  tr_LogsBloom :: string
  tr_Type :: string
  tr_Status :: string

record TransactionResponse =
  tp_TransactionHash :: string
  tp_TransactionIndex :: "string option"
  tp_BlockHash :: "string option"
  tp_BlockNumber :: "string option"
  tp_From :: string
  tp_To :: "string option"
  tp_Input :: string
  tp_Value :: string
  tp_Nonce :: string
  tp_Gas :: string
  tp_GasPrice :: string
  tp_V :: string
  tp_R :: string
  tp_S :: string

text \<open>The list of uncles is always empty and left out.\<close>

record BlockResponse =
  bl_Number :: string
  bl_Hash :: string
  bl_ParentHash :: string
  bl_Nonce :: string
  bl_Sha3Uncles :: string
  bl_LogsBloom :: string
  bl_TransactionsRoot :: string
  bl_StateRoot :: string
  bl_ReceiptsRoot :: string
  bl_Miner :: string
  bl_Difficulty :: string
  bl_TotalDifficulty :: string
  bl_ExtraData :: string
  bl_Size :: string
  bl_GasLimit :: string
  bl_GasUsed :: string
  bl_Timestamp :: string
  bl_Transactions :: "TransactionResponse list"

datatype rpc_result =
    RNil
  | RString string
  | RReceipt TxReceipt
  | RTransaction TransactionResponse
  | RBlock BlockResponse

record RPCResponse =
  rs_Result :: rpc_result
  rs_Error :: "(int \<times> string) option"
  rs_ID :: int
  rs_JsonRpc :: string

definition rpcResult :: "rpc_result \<Rightarrow> RPCResponse" where
  "rpcResult r = \<lparr>rs_Result = r, rs_Error = None, rs_ID = 0, rs_JsonRpc = []\<rparr>"

definition rpcError :: "int \<Rightarrow> string \<Rightarrow> RPCResponse" where
  "rpcError code message = \<lparr>rs_Result = RNil, rs_Error = Some (code, message), rs_ID = 0, rs_JsonRpc = []\<rparr>"

record eth_env =
  ee_svc :: svc_env
  ee_CreateAddress :: "bytes \<Rightarrow> 64 word \<Rightarrow> bytes"
  ee_rand :: "nat list"

section \<open>Numbers\<close>

definition hexCharUpper :: "nat \<Rightarrow> char" where
  "hexCharUpper n = char_of (if n < 10 then 48 + n else 55 + n)"

definition hexCharLower :: "nat \<Rightarrow> char" where
  "hexCharLower n = char_of (if n < 10 then 48 + n else 87 + n)"

fun hexDigits :: "(nat \<Rightarrow> char) \<Rightarrow> nat \<Rightarrow> string" where
  "hexDigits d n = (if n < 16 then [d n] else hexDigits d (n div 16) @ [d (n mod 16)])"

declare hexDigits.simps [simp del]

definition signedHex :: "(nat \<Rightarrow> char) \<Rightarrow> int \<Rightarrow> string" where
  "signedHex d i = (if i < 0 then CHR ''-'' # hexDigits d (nat (- i)) else hexDigits d (nat i))"

definition bigText16 :: "int \<Rightarrow> string" where
  "bigText16 i = signedHex hexCharLower i"

definition bigIntToHex :: "int \<Rightarrow> string" where
  "bigIntToHex i = (if i = 0 then ''0x0'' else ''0x'' @ bigText16 i)"

definition intToHex :: "int \<Rightarrow> string" where
  "intToHex i = (if i = 0 then ''0x0'' else ''0x'' @ signedHex hexCharUpper i)"

definition int64ToHex :: "64 word \<Rightarrow> string" where
  "int64ToHex i = (if i = 0 then ''0x0'' else ''0x'' @ signedHex hexCharUpper (sint i))"

text \<open>\<^verbatim>\<open>hexToInt\<close> never returns its error: a malformed number panics.\<close>

definition hexToInt :: "string \<Rightarrow> int attempt" where
  "hexToInt h = andThen (innerSum (HexToBytes h)) (\<lambda>b. Inr (sint (word_of_int (SetBytes b) :: 64 word)))"

definition RandomHex :: "nat list \<Rightarrow> nat \<Rightarrow> string" where
  "RandomHex draws len = ''0x11'' @ concat (map (\<lambda>n. hexDigits hexCharUpper n) (take (len - 1) draws))"

definition EthAddressFromCaller :: "(bytes \<Rightarrow> 64 word \<Rightarrow> bytes) \<Rightarrow> bytes \<Rightarrow> 64 word \<Rightarrow> bytes" where
  "EthAddressFromCaller CreateAddress caller callerNonce = CreateAddress caller 0"

section \<open>Simple handlers\<close>

definition handleNetVersion :: "eth_env \<Rightarrow> RPCResponse" where
  "handleNetVersion V = rpcResult (RString (intToHex (sv_Network (ee_svc V) + 1)))"

definition handleEthCoinbase :: "eth_env \<Rightarrow> RPCResponse" where
  "handleEthCoinbase V = rpcResult (RString (pe_Coinbaseaccount (sv_pin (ee_svc V))))"

definition handleEthChainID :: "eth_env \<Rightarrow> RPCResponse" where
  "handleEthChainID V = rpcResult (RString (intToHex (sv_Network (ee_svc V) + 1)))"

definition handleEthGasPrice :: RPCResponse where
  "handleEthGasPrice = rpcResult (RString ''0x1'')"

definition handleEthBlockNumber :: "Service \<Rightarrow> RPCResponse" where
  "handleEthBlockNumber S = rpcResult (RString (intToHex (CurrentHeight (ns_pins (sv_node S)))))"

text \<open>The common check of the first parameter.\<close>

definition stringParam :: "json list \<Rightarrow> string \<Rightarrow> string \<Rightarrow> RPCResponse + string" where
  "stringParam params missing invalid =
     (case params of
        [] \<Rightarrow> Inl (rpcError 400 missing)
      | JString s # _ \<Rightarrow> Inr s
      | _ \<Rightarrow> Inl (rpcError 400 invalid))"

definition withString ::
  "json list \<Rightarrow> string \<Rightarrow> string \<Rightarrow> (string \<Rightarrow> RPCResponse attempt) \<Rightarrow> RPCResponse attempt" where
  "withString params missing invalid f =
     (case stringParam params missing invalid of Inl r \<Rightarrow> Inr r | Inr s \<Rightarrow> f s)"

definition ethBalance :: "NodeState \<Rightarrow> string \<Rightarrow> int attempt" where
  "ethBalance st addressStr =
     andThen (inner (SearchAccount (ns_vm st) addressStr)) (\<lambda>found.
       case found of
         None \<Rightarrow> Inr 0
       | Some account \<Rightarrow>
           andThen (inner (IsSCAccount (ns_vm st) addressStr)) (\<lambda>isSC.
             if isSC then Inr (ln_Balance account)
             else
               andThen (innerSum (AddressToBytes (ln_Id account))) (\<lambda>byteAddress.
                 andThen (inner (GetBalance (ns_pins st) (ns_walletCache st) byteAddress)) (\<lambda>(cachedBalance, err).
                   Inr (if err \<noteq> None then 0 else cachedBalance)))))"

definition handleEthGetBalance :: "json list \<Rightarrow> Service \<Rightarrow> RPCResponse attempt" where
  "handleEthGetBalance params S =
     withString params ''Address must be specified in params'' ''Invalid address supplied'' (\<lambda>addressStr.
       andThen (ethBalance (sv_node S) addressStr) (\<lambda>balance.
         Inr (rpcResult (RString (''0x'' @ bigText16 balance)))))"

definition handleEthGetTransactionCount :: "json list \<Rightarrow> Service \<Rightarrow> RPCResponse attempt" where
  "handleEthGetTransactionCount params S =
     withString params ''Address must be specified in params'' ''Invalid address supplied'' (\<lambda>addressStr.
       andThen (inner (SearchAccount (ns_vm (sv_node S)) addressStr)) (\<lambda>account.
         Inr (rpcResult (RString (int64ToHex
           (case account of None \<Rightarrow> 0 | Some a \<Rightarrow> word_of_int (ln_Nonce a)))))))"

definition handleEthGetStorageAt :: "json list \<Rightarrow> Service \<Rightarrow> RPCResponse attempt" where
  "handleEthGetStorageAt params S =
     (case params of
        addressParam # positionParam # _ \<Rightarrow>
          (case (addressParam, positionParam) of
             (JString addressHex, JString positionHex) \<Rightarrow>
               andThen (inner (GetStorageAt (ns_vm (sv_node S)) addressHex positionHex)) (\<lambda>x.
                 Inr (rpcResult (RString x)))
           | (JString addressHex, _) \<Rightarrow> Inr (rpcError 400 ''Invalid positoin'')
           | _ \<Rightarrow> Inr (rpcError 400 ''Invalid address''))
      | _ \<Rightarrow> Inr (rpcError 400 ''Invalid parameters. At least 2 parameters (address, position) must be provided''))"

definition handleEthGetCode :: "json list \<Rightarrow> Service \<Rightarrow> RPCResponse attempt" where
  "handleEthGetCode params S =
     withString params ''Address must be specified in params'' ''Invalid address supplied'' (\<lambda>addressStr.
       andThen (inner (vm_GetContractCode (ns_vm (sv_node S)) addressStr)) (\<lambda>code.
         Inr (rpcResult (RString (''0x'' @ code)))))"

section \<open>Transactions and calls\<close>

text \<open>\<^verbatim>\<open>txHexStr[2:]\<close> panics on a string shorter than two characters.\<close>

definition handleEthSendRawTransaction ::
  "eth_env \<Rightarrow> json list \<Rightarrow> Service \<Rightarrow> RPCResponse attempt \<times> Service" where
  "handleEthSendRawTransaction V params S =
     (case stringParam params ''Tx bytes must be specified in parameters in hex format''
             ''Invalid transaction bytes supplied'' of
        Inl r \<Rightarrow> (Inr r, S)
      | Inr txHexStr \<Rightarrow>
          if length txHexStr < 2 then (Inl PanicInner, S)
          else
            (case SendRawTransaction (ee_svc V) (drop 2 txHexStr) S of
               None \<Rightarrow> (Inl PanicInner, S)
             | Some (Inl e, S') \<Rightarrow> (Inr (rpcError 400 ''Failed to send tx: ''), S')
             | Some (Inr r, S') \<Rightarrow> (Inr (rpcResult (RString (er_Hash r))), S')))"

text \<open>A field of the call object: absent or null is the empty string, anything but a string panics.\<close>

definition callField :: "(string \<Rightarrow> json option) \<Rightarrow> string \<Rightarrow> string attempt" where
  "callField obj key =
     (case obj key of
        None \<Rightarrow> Inr []
      | Some JNull \<Rightarrow> Inr []
      | Some (JString s) \<Rightarrow> Inr s
      | Some _ \<Rightarrow> Inl PanicInner)"

definition callParams :: "json \<Rightarrow> (CallParams \<times> (string \<Rightarrow> json option)) attempt" where
  "callParams j =
     (case j of
        JObject obj \<Rightarrow>
          andThen (callField obj ''data'') (\<lambda>d.
          andThen (callField obj ''from'') (\<lambda>f.
          andThen (callField obj ''value'') (\<lambda>v.
          andThen (callField obj ''gas'') (\<lambda>g.
          andThen (callField obj ''gasPrice'') (\<lambda>gp.
            Inr (\<lparr>cp_From = f, cp_To = [], cp_Gas = g, cp_GasPrice = gp, cp_Value = v, cp_Data = d\<rparr>, obj))))))
      | _ \<Rightarrow> Inl PanicInner)"

text \<open>\<^verbatim>\<open>eth_call\<close> asserts that \<^verbatim>\<open>to\<close> is a string and slices the method identifier out of the data.\<close>

definition handleEthCall :: "eth_env \<Rightarrow> json list \<Rightarrow> Service \<Rightarrow> RPCResponse attempt \<times> Service" where
  "handleEthCall V params S =
     (case params of
        [] \<Rightarrow> (Inr (rpcError 400 (''Call data isn'' @ [CHR 0x27] @ ''t supplied'')), S)
      | j # _ \<Rightarrow>
          (case callParams j of
             Inl p \<Rightarrow> (Inl p, S)
           | Inr (p, obj) \<Rightarrow>
               (case obj ''to'' of
                  Some (JString to) \<Rightarrow>
                    if length (cp_Data p) < 10 then (Inl PanicInner, S)
                    else
                      (case CallReadContract (ee_svc V) to (take 8 (drop 2 (cp_Data p))) (drop 10 (cp_Data p))
                              (cp_From p) S of
                         None \<Rightarrow> (Inl PanicInner, S)
                       | Some (Inl e, S') \<Rightarrow> (Inr (rpcError 500 (''Call wasn'' @ [CHR 0x27] @ ''t successful: '')), S')
                       | Some (Inr res, S') \<Rightarrow>
                           (Inr (rpcResult (RString (if res = ''null'' then ''0x'' else res))), S'))
                | _ \<Rightarrow> (Inl PanicInner, S))))"

text \<open>
  \<^verbatim>\<open>eth_estimateGas\<close> adds a tenth to the estimate, in 64-bit arithmetic with truncating division, and
  caps it at the maximal fuel limit.
\<close>

definition increasedGas :: "64 word \<Rightarrow> 64 word \<Rightarrow> int" where
  "increasedGas maxFuel gasUsed =
     (let m = sint (gasUsed * 11); g = sgn m * (\<bar>m\<bar> div 10) in
      if g > sint maxFuel then sint maxFuel else g)"

definition estimateMessage :: "CallParams \<Rightarrow> FuelEstimationRequest attempt" where
  "estimateMessage p =
     andThen (innerSum (AddressToBytes (cp_From p))) (\<lambda>from.
     andThen (innerSum (AddressToBytes (cp_To p))) (\<lambda>to.
     andThen (innerSum (HexToBytesNil (cp_Data p))) (\<lambda>d.
     andThen (innerSum (HexToBytesNil (cp_Value p))) (\<lambda>amount.
       Inr \<lparr>fr_RawTx = None,
            fr_Message = Some \<lparr>m_From = Some from, m_To = Some to, m_Data = d, m_Amount = amount,
              m_CoinbaseAccountAdress = None, m_Timestamp = (0, 0), m_FixingTx = None\<rparr>\<rparr>))))"

definition handleEthEstimateGas :: "eth_env \<Rightarrow> json list \<Rightarrow> Service \<Rightarrow> RPCResponse attempt \<times> Service" where
  "handleEthEstimateGas V params S =
     (case params of
        [] \<Rightarrow> (Inr (rpcError 400 (''Call data isn'' @ [CHR 0x27] @ ''t supplied'')), S)
      | j # _ \<Rightarrow>
          (case andThen (callParams j) (\<lambda>(p, obj).
                andThen (callField obj ''to'') (\<lambda>to. estimateMessage (p\<lparr>cp_To := to\<rparr>))) of
             Inl p \<Rightarrow> (Inl p, S)
           | Inr r \<Rightarrow>
               (case EstimateTxFuel (ee_svc V) r S of
                  None \<Rightarrow> (Inl PanicInner, S)
                | Some (Inl e, S') \<Rightarrow>
                    (Inr ((rpcError 32000 ''RPC: gas estimation failed (invalid tx?): '')
                            \<lparr>rs_Result := RString ''null''\<rparr>), S')
                | Some (Inr res, S') \<Rightarrow>
                    (Inr (rpcResult (RString (intToHex (increasedGas (sv_Maxfuellimit (ee_svc V)) (er_GasUsed res))))),
                     S'))))"

section \<open>Receipts, transactions and blocks\<close>

definition mapTopic :: "bytes list \<Rightarrow> string list" where
  "mapTopic topics = map (\<lambda>topic. ''0x'' @ hexEncode topic) topics"

fun mapLogs :: "ext \<Rightarrow> ConfirmedTx \<Rightarrow> int \<Rightarrow> Log list \<Rightarrow> EthLog list attempt" where
  "mapLogs E c idx [] = Inr []"
| "mapLogs E c idx (l # ls) =
     andThen (inner (GetHash E (ct_Transaction c))) (\<lambda>hash.
     andThen (innerSum (BytesToAddress (l_ContractAddress l))) (\<lambda>address.
     andThen (mapLogs E c (idx + 1) ls) (\<lambda>rest.
       Inr (\<lparr>lg_LogIndex = intToHex idx, lg_TransactionIndex = intToHex (TxIndex c),
             lg_TransactionHash = Hex_String (Some hash), lg_BlockHash = PinTxHash c,
             lg_BlockNumber = intToHex (PinTxNumber c), lg_Address = address,
             lg_Data = ''0x'' @ hexEncode (l_Data l), lg_Topics = mapTopic (l_Topics l)\<rparr> # rest))))"

definition receiptOf :: "eth_env \<Rightarrow> Storage \<Rightarrow> ConfirmedTx \<Rightarrow> TxReceipt attempt" where
  "receiptOf V vm c =
     (let t = ct_Transaction c; E = sv_ext (ee_svc V) in
      andThen (if length (GetRecipient t) \<noteq> 0
               then andThen (innerSum (BytesToAddress (GetRecipient t))) (\<lambda>a. Inr (Some a)) else Inr None) (\<lambda>to.
      andThen (inner (GetSender E t)) (\<lambda>sender.
      andThen (inner (GetHash E t)) (\<lambda>hash.
      andThen (innerSum (BytesToAddress sender)) (\<lambda>from.
      andThen (mapLogs E c 0 (GetLogsForTx (pe_ord (sv_pin (ee_svc V))) vm hash)) (\<lambda>ls.
        Inr \<lparr>tr_TransactionHash = Hex_String (Some hash), tr_TransactionIndex = intToHex (TxIndex c),
             tr_BlockHash = PinTxHash c, tr_BlockNumber = intToHex (PinTxNumber c), tr_From = from, tr_To = to,
             tr_CumulativeGasUsed = intToHex (CumulativeGasUsed c),
             tr_EffectiveGasPrice = ''0x'' @ bigText16 (SetBytes (Bytes (GetFuelPrice t))),
             tr_GasUsed = intToHex (UsedFuel c),
             tr_ContractAddress =
               (if GetTransactionType t = PUBLISH_CONTRACT
                then Some (EthAddress_Hex (EthAddressFromCaller (ee_CreateAddress V) sender (GetNonce t)))
                else None),
             tr_Logs = ls, tr_LogsBloom = ZeroHex 32, tr_Type = intToHex 0,
             tr_Status = intToHex (if ct_Status c = Failed then 0 else 1)\<rparr>))))))"

definition handleEthGetTransactionReceipt :: "eth_env \<Rightarrow> json list \<Rightarrow> Service \<Rightarrow> RPCResponse attempt" where
  "handleEthGetTransactionReceipt V params S =
     withString params ''TxHash must be specified in parameters in hex format''
       ''Invalid transaction hash supplied'' (\<lambda>txHashStr.
       andThen (inner (GetTransactionByHash (ee_svc V) txHashStr S)) (\<lambda>found.
         case found of
           None \<Rightarrow> Inr (rpcResult RNil)
         | Some c \<Rightarrow>
             andThen (receiptOf V (ns_vm (sv_node S)) c) (\<lambda>result. Inr (rpcResult (RReceipt result)))))"

text \<open>The signature of an Ethereum transaction is taken apart, any other gets random mock values.\<close>

definition sigParts :: "eth_env \<Rightarrow> transaction \<Rightarrow> (string \<times> string \<times> string) attempt" where
  "sigParts V t =
     (if GetType t = 1 then
        andThen (inner (GetSignature t)) (\<lambda>sig.
        andThen (inner (GetChainType t)) (\<lambda>ct.
        andThen (inner (DecodeSignature sig (uint ct))) (\<lambda>(r, s, v).
          Inr (Hex_String (Some r), Hex_String (Some s), Hex_String (Some v)))))
      else Inr (RandomHex (ee_rand V) 32, RandomHex (drop 31 (ee_rand V)) 32, ''0x26''))"

definition mapTx :: "eth_env \<Rightarrow> UnifiedTx \<Rightarrow> TransactionResponse attempt" where
  "mapTx V u =
     (let E = sv_ext (ee_svc V) in
      andThen (inner (GetRawTx u)) (\<lambda>t.
      andThen (inner (GetHash E t)) (\<lambda>hash.
      andThen (sigParts V t) (\<lambda>(r, s, v).
      andThen (inner (GetSender E t)) (\<lambda>sender.
      andThen (innerSum (BytesToAddress sender)) (\<lambda>from.
        Inr \<lparr>tp_TransactionHash = Hex_String (Some hash),
             tp_TransactionIndex = map_option (\<lambda>c. intToHex (TxIndex c)) (ut_confirmed u),
             tp_BlockHash = map_option PinTxHash (ut_confirmed u),
             tp_BlockNumber = map_option (\<lambda>c. int64ToHex (word_of_int (PinTxNumber c))) (ut_confirmed u),
             tp_From = from,
             tp_To = (if length (GetRecipient t) \<noteq> 0 then Some (Hex_String (Some (GetRecipient t))) else None),
             tp_Input = (if length (nilBytes (GetData t)) \<noteq> 0 then Hex_String (GetData t) else ''0x0''),
             tp_Value = bigIntToHex (GetAmount t), tp_Nonce = int64ToHex (GetNonce t),
             tp_Gas = bigIntToHex (GetFuelLimit t), tp_GasPrice = bigIntToHex (GetFuelPrice t),
             tp_V = v, tp_R = r, tp_S = s\<rparr>))))))"

definition handleEthGetTransactionByHash :: "eth_env \<Rightarrow> json list \<Rightarrow> Service \<Rightarrow> RPCResponse attempt" where
  "handleEthGetTransactionByHash V params S =
     withString params ''TxHash must be specified in parameters in hex format''
       ''Invalid transaction hash supplied'' (\<lambda>txHashStr.
       andThen (inner (GetAnyTransactionByHash (ee_svc V) txHashStr S)) (\<lambda>found.
         case found of
           None \<Rightarrow> Inr (rpcResult RNil)
         | Some u \<Rightarrow> andThen (mapTx V u) (\<lambda>result. Inr (rpcResult (RTransaction result)))))"

text \<open>
  The transactions of a block. A pinned vertex that is not a payment leaves an empty transaction
  behind, on which \<^verbatim>\<open>mapTx\<close> panics. The cumulative gas is the one before the transaction.
\<close>

fun blockPayments :: "eth_env \<Rightarrow> int \<Rightarrow> string \<Rightarrow> int \<Rightarrow> pb_Node list \<Rightarrow> TransactionResponse list attempt" where
  "blockPayments V num hash idx [] = Inr []"
| "blockPayments V num hash idx (payment # rest) =
     andThen (inner (UnmarshalBinary (sv_ext (ee_svc V)) (pbn_Tx payment))) (\<lambda>t.
     andThen (inner (NewPaymentConfirmedTx t num hash idx)) (\<lambda>c.
     andThen (mapTx V (ConfirmedTx_ToUnified c)) (\<lambda>r.
     andThen (blockPayments V num hash (idx + 1) rest) (\<lambda>rs. Inr (r # rs)))))"

fun blockSmcTxs ::
  "eth_env \<Rightarrow> int \<Rightarrow> string \<Rightarrow> int \<Rightarrow> int \<Rightarrow> pb_ExecutedSmcTx list \<Rightarrow> TransactionResponse list attempt" where
  "blockSmcTxs V num hash idx gas [] = Inr []"
| "blockSmcTxs V num hash idx gas (x # rest) =
     andThen (inner (UnmarshalBinary (sv_ext (ee_svc V)) (ex_Tx x))) (\<lambda>t.
     andThen (mapTx V (ConfirmedTx_ToUnified
                \<lparr>ct_Transaction = t, UsedFuel = sint (rc_FuelUsed (ex_Receipt x)),
                 StatusMessage = rc_StatusMessage (ex_Receipt x),
                 ct_Status = (if rc_Status (ex_Receipt x) = FAILED then Failed else Successful),
                 PinTxNumber = num, PinTxHash = hash, TxIndex = idx, CumulativeGasUsed = gas\<rparr>)) (\<lambda>r.
     andThen (blockSmcTxs V num hash (idx + 1) (gas + sint (rc_FuelUsed (ex_Receipt x))) rest) (\<lambda>rs.
       Inr (r # rs))))"

definition blockOf :: "eth_env \<Rightarrow> TxPin list \<Rightarrow> TxPin \<Rightarrow> bool \<Rightarrow> BlockResponse attempt" where
  "blockOf V pins pin loadTxs =
     (let P = sv_pin (ee_svc V);
          hashOf = (\<lambda>p. inner (TxPin_Hash (pe_ext P) (pe_marshal P) (pe_ord P) p));
          num = sint (pin_PinNumber pin);
          maxGas = ''0x'' @ bigText16 (sint (sv_Maxfuellimit (ee_svc V))) in
      andThen (case NodeTxPin_GetPin pins (sint (pin_PinNumber pin - 1)) of
                 None \<Rightarrow> Inr None
               | Some prevPin \<Rightarrow> andThen (hashOf prevPin) (\<lambda>h. Inr (Some h))) (\<lambda>prevHash.
      andThen (hashOf pin) (\<lambda>h.
      andThen (if loadTxs
               then andThen (blockPayments V num (Hex_String (Some h)) 0 (pin_Nodes pin)) (\<lambda>ps.
                    andThen (blockSmcTxs V num (Hex_String (Some h)) (int (length (pin_Nodes pin))) 0
                               (pin_SmcTxs pin)) (\<lambda>cs. Inr (ps @ cs)))
               else Inr []) (\<lambda>txs.
        Inr \<lparr>bl_Number = intToHex num, bl_Hash = Hex_String (Some h), bl_ParentHash = Hex_String prevHash,
             bl_Nonce = ''0x2867e9f4173be91e'',
             bl_Sha3Uncles = ''0x1dcc4de8dec75d7aab85b567b6ccd41ad312451b948a7413f0a142fd40d49347'',
             bl_LogsBloom = ''0xa5b9d60f32436310afebcfda832817a68921beb782fabf7915cc0460b443116a'',
             bl_TransactionsRoot = ''0xd6054e3cec7d20477a3ff91d438b2806af40ecda39303612035589e86e069f46'',
             bl_StateRoot = ''0xd6054e3cec7d20477a3ff91d438b2806af40ecda39303612035589e86e069f46'',
             bl_ReceiptsRoot = [], bl_Miner = pe_Coinbaseaccount P, bl_Difficulty = ''0x800667E2F7342'',
             bl_TotalDifficulty = ''0x2FF1CEC0D6B079CD42B'', bl_ExtraData = ''0x0'',
             bl_Size = intToHex (int (length (pin_Sites pin)) + int (length (pin_SmcTxs pin))),
             bl_GasLimit = maxGas, bl_GasUsed = maxGas,
             bl_Timestamp = int64ToHex (word_of_int (ts_AsTime (pe_ext P) (pin_Ts pin) div 1000000000)),
             bl_Transactions = txs\<rparr>))))"

definition blockPin :: "TxPin list \<Rightarrow> string \<Rightarrow> TxPin option attempt" where
  "blockPin pins blockNumStr =
     (if blockNumStr = ''latest'' then Inr (GetLastPin pins)
      else andThen (hexToInt blockNumStr) (\<lambda>blockNum. Inr (NodeTxPin_GetPin pins blockNum)))"

definition handleEthGetBlockByNumber :: "eth_env \<Rightarrow> json list \<Rightarrow> Service \<Rightarrow> RPCResponse attempt" where
  "handleEthGetBlockByNumber V params S =
     (case params of
        numParam # flagParam # _ \<Rightarrow>
          (case (numParam, flagParam) of
             (JString blockNumStr, JBool loadTxs) \<Rightarrow>
               andThen (blockPin (ns_pins (sv_node S)) blockNumStr) (\<lambda>found.
                 case found of
                   None \<Rightarrow> Inr (rpcError 404 (''Block: '' @ blockNumStr @ '' doesn'' @ [CHR 0x27] @ ''t exist''))
                 | Some pin \<Rightarrow>
                     andThen (blockOf V (ns_pins (sv_node S)) pin loadTxs) (\<lambda>result.
                       Inr (rpcResult (RBlock result))))
           | (JString blockNumStr, _) \<Rightarrow> Inr (rpcError 400 ''Invalid flag to fetch txs supplied'')
           | _ \<Rightarrow> Inr (rpcError 400 ''Invalid block number supplied''))
      | _ \<Rightarrow> Inr (rpcError 400 ''Block number and load tx flag must be specified in parameters''))"

section \<open>Dispatch\<close>

definition pureHandler :: "RPCResponse attempt \<Rightarrow> Service \<Rightarrow> RPCResponse attempt \<times> Service" where
  "pureHandler r S = (r, S)"

definition rpc_dispatch :: "eth_env \<Rightarrow> string \<Rightarrow> json list \<Rightarrow> Service \<Rightarrow> RPCResponse attempt \<times> Service" where
  "rpc_dispatch V method params S =
     (if method = ''net_version'' then pureHandler (Inr (handleNetVersion V)) S
      else if method = ''eth_coinbase'' then pureHandler (Inr (handleEthCoinbase V)) S
      else if method = ''eth_chainId'' then pureHandler (Inr (handleEthChainID V)) S
      else if method = ''eth_gasPrice'' then pureHandler (Inr handleEthGasPrice) S
      else if method = ''eth_blockNumber'' then pureHandler (Inr (handleEthBlockNumber S)) S
      else if method = ''eth_getBalance'' then pureHandler (handleEthGetBalance params S) S
      else if method = ''eth_getStorageAt'' then pureHandler (handleEthGetStorageAt params S) S
      else if method = ''eth_getCode'' then pureHandler (handleEthGetCode params S) S
      else if method = ''eth_sendRawTransaction'' then handleEthSendRawTransaction V params S
      else if method = ''eth_call'' then handleEthCall V params S
      else if method = ''eth_estimateGas'' then handleEthEstimateGas V params S
      else if method = ''eth_getTransactionReceipt'' then pureHandler (handleEthGetTransactionReceipt V params S) S
      else if method = ''eth_getBlockByNumber'' then pureHandler (handleEthGetBlockByNumber V params S) S
      else if method = ''eth_getTransactionCount'' then pureHandler (handleEthGetTransactionCount params S) S
      else if method = ''eth_getTransactionByHash'' then pureHandler (handleEthGetTransactionByHash V params S) S
      else pureHandler (Inr (rpcError 404 ''Method not found'')) S)"

text \<open>The HTTP handler: \<open>Inl\<close> is a plain HTTP error. The request is \<open>None\<close> when the body cannot be decoded.\<close>

definition RpcHandler ::
  "eth_env \<Rightarrow> string \<Rightarrow> RPCRequest option \<Rightarrow> Service \<Rightarrow> (int + RPCResponse) attempt \<times> Service" where
  "RpcHandler V httpMethod body S =
     (if httpMethod \<noteq> ''POST'' then (Inr (Inl 405), S)
      else
        case body of
          None \<Rightarrow> (Inr (Inl 400), S)
        | Some request \<Rightarrow>
            if rq_JsonRpc request \<noteq> ''2.0'' then (Inr (Inl 400), S)
            else
              (case rpc_dispatch V (rq_Method request) (rq_Params request) S of
                 (Inl p, S') \<Rightarrow> (Inl p, S')
               | (Inr response, S') \<Rightarrow>
                   (Inr (Inr (response\<lparr>rs_JsonRpc := ''2.0'', rs_ID := rq_ID request\<rparr>)), S')))"

section \<open>Lemmas\<close>

lemma AddressToBytes_hexEncode: "length b = 20 \<Longrightarrow> AddressToBytes (hexEncode b) = Inr b"
proof -
  assume "length b = 20"
  then have "hexEncode b \<noteq> []" by (cases b) auto
  then show ?thesis by (simp add: AddressToBytes_def Let_def)
qed

lemma GetBalance_total: "length b = 20 \<Longrightarrow> \<exists>n e. GetBalance pins wc b = Some (n, e)"
  by (auto simp: GetBalance_def GetBalances_def addressOf_def BytesToAddress_def split: option.splits list.splits)

lemma IsSCAccount_hex:
  "IsSCAccount s (hexEncode b) = Some (case accounts s (hexEncode b) of None \<Rightarrow> False | Some acc \<Rightarrow> sa_CodeHash acc \<noteq> [])"
  "IsSCAccount s (''0x'' @ hexEncode b) =
     Some (case accounts s (hexEncode b) of None \<Rightarrow> False | Some acc \<Rightarrow> sa_CodeHash acc \<noteq> [])"
  by (simp_all add: IsSCAccount_def Storage_getAccount_def TrimPrefix_append del: append.simps)

lemma SearchAccount_hex:
  "length b = 20 \<Longrightarrow>
   SearchAccount s (''0x'' @ hexEncode b) = Some (map_option mapToLnAccount (accounts s (hexEncode b)))"
  by (simp add: SearchAccount_def Storage_getAccount_def AddressToBytes_hex del: append.simps)

lemma ok_inject [simp]: "ok a = ok b \<longleftrightarrow> a = b"
  by (simp add: ok_def)

lemma print_0: "''0x'' @ bigText16 0 = ''0x0''" "intString 0 = ''0''"
proof -
  have "char_of (48 :: nat) = CHR ''0''" by code_simp
  then show "''0x'' @ bigText16 0 = ''0x0''" "intString 0 = ''0''"
    by (simp_all add: bigText16_def signedHex_def hexDigits.simps hexCharLower_def intString_def natString.simps
      decDigit_def)
qed

text \<open>What the interface can change: the state of the virtual machine, or what the service admits.\<close>

lemma CallReadContract_state: "CallReadContract V a m p s S = Some (x, S') \<Longrightarrow> S' = S \<or> (\<exists>vm. S' = set_vm vm S)"
  by (auto simp: CallReadContract_def split: option.splits if_splits sum.splits prod.splits)

lemma EstimateTxFuel_state: "EstimateTxFuel V r S = Some (x, S') \<Longrightarrow> S' = S \<or> (\<exists>vm. S' = set_vm vm S)"
  by (auto simp: EstimateTxFuel_def doEstimate_def split: option.splits sum.splits prod.splits)

lemma handleEthCall_state: "handleEthCall V ps S = (x, S') \<Longrightarrow> S' = S \<or> (\<exists>vm. S' = set_vm vm S)"
  by (auto simp: handleEthCall_def dest!: CallReadContract_state
      split: list.splits sum.splits prod.splits option.splits json.splits if_splits)

lemma handleEthEstimateGas_state: "handleEthEstimateGas V ps S = (x, S') \<Longrightarrow> S' = S \<or> (\<exists>vm. S' = set_vm vm S)"
  unfolding handleEthEstimateGas_def
  by (auto dest!: EstimateTxFuel_state split: list.splits sum.splits option.splits)

lemma handleEthSendRawTransaction_state:
  "handleEthSendRawTransaction V ps S = (x, S') \<Longrightarrow>
   S' = S \<or> (\<exists>s res. SendRawTransaction (ee_svc V) s S = Some (res, S'))"
  by (auto simp: handleEthSendRawTransaction_def split: sum.splits if_splits option.splits prod.splits)

section \<open>Properties\<close>

text \<open>
  C20. The two interfaces report the same balance of a stored account: for a well-formed address of an
  account of the store, the REST handler answers with the decimal and \<^verbatim>\<open>eth_getBalance\<close> with the
  hexadecimal form of the same number, the account's own balance for a contract and the balance of the wallet
  cache and the pins otherwise. For an address without a stored account they disagree: the REST
  handler reports the balance of the wallet cache and the pins, \<^verbatim>\<open>eth_getBalance\<close> always zero.
\<close>
theorem interfaces_report_balance:
  assumes "accounts_ok (ns_vm (sv_node (rs_service R)))" and "length b = 20"
  defines "n \<equiv> (case GetBalance (ns_pins (sv_node (rs_service R))) (ns_walletCache (sv_node (rs_service R))) b of
                  Some (x, None) \<Rightarrow> x | _ \<Rightarrow> 0)"
  shows "\<exists>dto. GetAccountsAccountId V (''0x'' @ hexEncode b) R = Inr (ok (BodyAccount dto)) \<and>
    (case accounts (ns_vm (sv_node (rs_service R))) (hexEncode b) of
       None \<Rightarrow> ad_dto_Balance dto = intString n \<and>
               handleEthGetBalance [JString (''0x'' @ hexEncode b)] (rs_service R) = Inr (rpcResult (RString ''0x0''))
     | Some acc \<Rightarrow>
         let m = (if sa_CodeHash acc \<noteq> [] then bigOf (sa_Balance acc) else n) in
         ad_dto_Balance dto = intString m \<and>
         handleEthGetBalance [JString (''0x'' @ hexEncode b)] (rs_service R) =
           Inr (rpcResult (RString (''0x'' @ bigText16 m))))"
proof -
  let ?st = "sv_node (rs_service R)" let ?a = "''0x'' @ hexEncode b"
  obtain x e where g: "GetBalance (ns_pins ?st) (ns_walletCache ?st) b = Some (x, e)"
    using GetBalance_total [OF assms(2)] by blast
  have n: "n = (if e \<noteq> None then 0 else x)" by (simp add: n_def g split: option.splits)
  have req: "requireHexWithPrefixOfSize ?a 20 name = Inr (hexEncode b)" for name
    using assms(2) by (simp only: requireHexWithPrefixOfSize_Inr) simp
  have byId: "GetAccountById ?a (rs_service R) = SearchAccount (ns_vm ?st) ?a" by (simp add: GetAccountById_def)
  note facts = req byId SearchAccount_hex [OF assms(2)] IsSCAccount_hex AddressToBytes_hexEncode [OF assms(2)]
    AddressToBytes_hex [OF assms(2)] g n inner_def innerSum_def
  note defs = GetAccountsAccountId_def handleEthGetBalance_def AccountToDto_def dtoBalance_def ethBalance_def
    withString_def stringParam_def Let_def
  show ?thesis
  proof (cases "accounts (ns_vm ?st) (hexEncode b)")
    case None
    then show ?thesis using print_0 by (auto simp: defs facts simp del: append.simps)
  next
    case (Some acc)
    then have "sa_Address acc = hexEncode b" using assms(1) by (simp add: accounts_ok_def)
    then show ?thesis using Some print_0 by (auto simp: defs facts mapToLnAccount_def simp del: append.simps)
  qed
qed

definition demo_rest_env :: rest_env where
  "demo_rest_env = \<lparr>re_svc = demo_svc, re_FaucetPrivatekey = [], re_FaucetPublickey = [], re_FaucetWallet = [],
     re_rand = 0\<rparr>"

theorem interfaces_report_balance_witness:
  "handleEthGetBalance [JString (''0x'' @ hexEncode (replicate 20 1))] demo_service = Inr (rpcResult (RString ''0x0''))"
proof -
  have "accounts_ok NewStorage" using storage_ok_New by (simp add: storage_ok_def)
  moreover have "accounts NewStorage = Map.empty" by (simp add: NewStorage_def)
  moreover have "ns_vm (sv_node demo_service) = NewStorage" "rs_service demo_rest = demo_service"
    by (simp_all add: demo_service_def demo_state_def demo_rest_def)
  ultimately show ?thesis using interfaces_report_balance [of demo_rest "replicate 20 1" demo_rest_env] by auto
qed

text \<open>
  C21. What a request to the Ethereum interface can change. Whatever the request, the node afterwards is
  the node before, or the node after one call of \<^verbatim>\<open>SendRawTransaction\<close>, or differs from the node before in the
  state of the virtual machine only; a request that is not a POST of a decodable JSON-RPC 2.0
  message changes nothing.
\<close>
theorem rpc_effects:
  assumes "RpcHandler V httpMethod body S = (x, S')"
  shows "(S' = S \<or> (\<exists>s res. SendRawTransaction (ee_svc V) s S = Some (res, S')) \<or> (\<exists>vm. S' = set_vm vm S)) \<and>
         (httpMethod \<noteq> ''POST'' \<or> body = None \<or> rq_JsonRpc (the body) \<noteq> ''2.0'' \<longrightarrow>
            S' = S \<and> x \<in> {Inr (Inl 400), Inr (Inl 405)})"
proof -
  have d: "S' = S \<or> (\<exists>s res. SendRawTransaction (ee_svc V) s S = Some (res, S')) \<or> (\<exists>vm. S' = set_vm vm S)"
    if "rpc_dispatch V m ps S = (y, S')" for m ps y
  proof (cases "m \<in> {''eth_sendRawTransaction'', ''eth_call'', ''eth_estimateGas''}")
    case True
    then show ?thesis
      using that by (auto simp: rpc_dispatch_def
        dest!: handleEthSendRawTransaction_state handleEthCall_state handleEthEstimateGas_state)
  next
    case False
    then show ?thesis using that by (simp add: rpc_dispatch_def pureHandler_def split: if_splits)
  qed
  show ?thesis
    using assms d by (auto simp: RpcHandler_def split: if_splits option.splits prod.splits sum.splits)
qed

theorem rpc_effects_witness:
  "RpcHandler \<lparr>ee_svc = demo_svc, ee_CreateAddress = (\<lambda>a _. a), ee_rand = []\<rparr> ''GET'' None demo_service =
     (Inr (Inl 405), demo_service)"
  using rpc_effects [of "\<lparr>ee_svc = demo_svc, ee_CreateAddress = (\<lambda>a _. a), ee_rand = []\<rparr>" "''GET''" None demo_service]
  by (simp add: RpcHandler_def)

end
