(* ===== verification/Spec2Isabelle.thy ===== *)
theory Spec2Isabelle
  imports Grape_Prelude Hex_Address Transactions Messages Vm_Storage Vm_Capture Smc_Pool
    Wallet_Cache Dag_Node Pins Pin_Stage Pin_Forming Confirmation Tip_Selection Dag_Store
    Diffusion Dag_Invariant Dag_Properties Lockfree_Queue Lockfree_Properties
    State_Machine Sync_Protocol Sync_Properties Dag_Graph Transaction_Service
    Rest_Api Eth_Rpc
begin

text \<open>
  Verification library for the Grape DAG node (Go sources under \<^verbatim>\<open>src/\<close>).
\<close>

end
